(* ===== verification/Prelude.thy ===== *)
theory Prelude
  imports Main
begin

text \<open>
  Shared vocabulary of the development: the error values of the Go code, the collections of
  rewrite rules the component theories fill, the row-set operations every SQL statement of the
  model is written with (\<open>WHERE\<close> filters, \<open>UPDATE ... SET\<close>, \<open>count(*)\<close>), and a small locale
  for invariants of systems that move by labelled steps.
\<close>

named_theorems go_simps \<open>rewrite rules for the modelled Go library functions\<close>
named_theorems sql_simps \<open>rewrite rules for rows, tables and statements\<close>
named_theorems inv_intros \<open>introduction rules for invariant preservation\<close>

text \<open>
  A Go \<open>error\<close>: the sentinel \<open>store.ErrNotFound\<close>, which callers test with \<open>errors.Is\<close>, or any
  other error, of which only the message is observable.
\<close>

datatype error = ErrNotFound | ErrMsg string

type_synonym 'a res = "error + 'a"

section \<open>Row sets\<close>

text \<open>\<open>UPDATE t SET f WHERE P\<close> and \<open>SELECT count( * ) FROM t WHERE P\<close> on a table kept as a list.\<close>

definition upd_where :: "('r \<Rightarrow> bool) \<Rightarrow> ('r \<Rightarrow> 'r) \<Rightarrow> 'r list \<Rightarrow> 'r list" where
  "upd_where P f t = map (\<lambda>r. if P r then f r else r) t"

definition count_where :: "('r \<Rightarrow> bool) \<Rightarrow> 'r list \<Rightarrow> nat" where
  "count_where P t = length (filter P t)"

text \<open>The row a \<open>SELECT ... WHERE P\<close> scanned with \<open>QueryRow\<close> returns: the first match.\<close>

definition query_row :: "('r \<Rightarrow> bool) \<Rightarrow> 'r list \<Rightarrow> 'r option" where
  "query_row P t = find P t"

lemma upd_where_Nil [simp]: "upd_where P f [] = []"
  by (simp add: upd_where_def)

lemma upd_where_Cons [simp]:
  "upd_where P f (r # t) = (if P r then f r else r) # upd_where P f t"
  by (simp add: upd_where_def)

lemma upd_where_append [simp]: "upd_where P f (s @ t) = upd_where P f s @ upd_where P f t"
  by (simp add: upd_where_def)

lemma length_upd_where [simp]: "length (upd_where P f t) = length t"
  by (simp add: upd_where_def)

lemma set_upd_where: "set (upd_where P f t) = (\<lambda>r. if P r then f r else r) ` set t"
  by (simp add: upd_where_def)

lemma in_upd_whereE:
  assumes "r \<in> set (upd_where P f t)"
  obtains r0 where "r0 \<in> set t" and "P r0" and "r = f r0"
    | "r \<in> set t" and "\<not> P r"
  using assms by (auto simp: set_upd_where split: if_splits)

lemma map_upd_where: "(\<And>r. P r \<Longrightarrow> g (f r) = g r) \<Longrightarrow> map g (upd_where P f t) = map g t"
  by (induction t) auto

lemma upd_where_id: "(\<And>r. r \<in> set t \<Longrightarrow> P r \<Longrightarrow> f r = r) \<Longrightarrow> upd_where P f t = t"
  by (induction t) auto

lemma upd_where_none: "(\<And>r. r \<in> set t \<Longrightarrow> \<not> P r) \<Longrightarrow> upd_where P f t = t"
  by (rule upd_where_id) simp

lemma upd_where_cong:
  "(\<And>r. r \<in> set t \<Longrightarrow> P r = Q r) \<Longrightarrow> (\<And>r. r \<in> set t \<Longrightarrow> Q r \<Longrightarrow> f r = g r) \<Longrightarrow>
     upd_where P f t = upd_where Q g t"
  by (induction t) auto

lemma count_where_Nil [simp]: "count_where P [] = 0"
  by (simp add: count_where_def)

lemma count_where_Cons [simp]:
  "count_where P (r # t) = (if P r then Suc (count_where P t) else count_where P t)"
  by (simp add: count_where_def)

lemma count_where_append [simp]: "count_where P (s @ t) = count_where P s + count_where P t"
  by (simp add: count_where_def)

lemma count_where_le: "count_where P t \<le> length t"
  by (simp add: count_where_def)

lemma count_where_mono: "(\<And>r. r \<in> set t \<Longrightarrow> P r \<Longrightarrow> Q r) \<Longrightarrow> count_where P t \<le> count_where Q t"
  by (induction t) auto

lemma count_where_cong: "(\<And>r. r \<in> set t \<Longrightarrow> P r = Q r) \<Longrightarrow> count_where P t = count_where Q t"
  by (induction t) auto

lemma count_where_eq_0: "count_where P t = 0 \<longleftrightarrow> (\<forall>r\<in>set t. \<not> P r)"
  by (induction t) auto

lemma count_where_pos: "0 < count_where P t \<longleftrightarrow> (\<exists>r\<in>set t. P r)"
  using count_where_eq_0 [of P t] by auto

lemma count_where_disj:
  "(\<And>r. r \<in> set t \<Longrightarrow> \<not> (P r \<and> Q r)) \<Longrightarrow>
     count_where (\<lambda>r. P r \<or> Q r) t = count_where P t + count_where Q t"
  by (induction t) auto

lemma count_where_upd_where:
  "count_where Q (upd_where P f t) = count_where (\<lambda>r. Q (if P r then f r else r)) t"
  by (induction t) auto

lemma count_where_upd_same:
  "(\<And>r. r \<in> set t \<Longrightarrow> P r \<Longrightarrow> Q (f r) = Q r) \<Longrightarrow>
     count_where Q (upd_where P f t) = count_where Q t"
  by (induction t) auto

lemma count_where_upd_le:
  "(\<And>r. r \<in> set t \<Longrightarrow> P r \<Longrightarrow> Q (f r) \<Longrightarrow> Q r) \<Longrightarrow>
     count_where Q (upd_where P f t) \<le> count_where Q t"
  by (induction t) (auto simp: le_SucI)

text \<open>A row picked by a key that is unique in the table is the only one the update touches.\<close>

lemma count_where_key:
  "distinct (map k t) \<Longrightarrow> count_where (\<lambda>r. k r = v) t = (if v \<in> k ` set t then 1 else 0)"
  by (induction t) auto

lemma count_where_key_le:
  "distinct (map k t) \<Longrightarrow> count_where (\<lambda>r. k r = v \<and> P r) t \<le> 1"
proof (induction t)
  case (Cons r t)
  have "count_where (\<lambda>r. k r = v \<and> P r) t = 0" if "k r = v"
    using Cons.prems that by (auto simp: count_where_eq_0 image_iff)
  with Cons show ?case by auto
qed simp

lemma count_where_upd_key_le:
  assumes "distinct (map k t)"
    and "\<And>r. r \<in> set t \<Longrightarrow> k r = v \<Longrightarrow> P r \<Longrightarrow> \<not> Q r"
  shows "count_where Q (upd_where (\<lambda>r. k r = v \<and> P r) f t) \<le> Suc (count_where Q t)"
  using assms
proof (induction t)
  case (Cons r t)
  have "upd_where (\<lambda>r. k r = v \<and> P r) f t = t" if "k r = v"
    using Cons.prems(1) that by (intro upd_where_none) (auto simp: image_iff)
  with Cons show ?case by auto
qed simp

lemma query_row_Some: "query_row P t = Some r \<Longrightarrow> r \<in> set t \<and> P r"
  unfolding query_row_def by (auto simp: find_Some_iff)

lemma query_row_None: "query_row P t = None \<longleftrightarrow> (\<forall>r\<in>set t. \<not> P r)"
  unfolding query_row_def by (auto simp: find_None_iff)

lemma query_row_append:
  "query_row P (s @ t) = (case query_row P s of None \<Rightarrow> query_row P t | Some r \<Rightarrow> Some r)"
  unfolding query_row_def by (induction s) auto

lemma query_row_Nil [simp]: "query_row P [] = None"
  by (simp add: query_row_def)

lemma query_row_Cons [simp]:
  "query_row P (r # t) = (if P r then Some r else query_row P t)"
  by (simp add: query_row_def)

lemma query_row_upd_where:
  "(\<And>r. P (if Q r then f r else r) = P r) \<Longrightarrow>
     query_row P (upd_where Q f t) = map_option (\<lambda>r. if Q r then f r else r) (query_row P t)"
  by (induction t) auto

lemma query_row_key:
  "distinct (map k t) \<Longrightarrow> r \<in> set t \<Longrightarrow> query_row (\<lambda>x. k x = k r) t = Some r"
  by (induction t) (auto simp: image_iff)

lemma query_row_key_iff:
  "distinct (map k t) \<Longrightarrow> query_row (\<lambda>x. k x = v) t = Some r \<longleftrightarrow> r \<in> set t \<and> k r = v"
  using query_row_key query_row_Some by fastforce

lemma distinct_map_eqD:
  "distinct (map k t) \<Longrightarrow> r \<in> set t \<Longrightarrow> r' \<in> set t \<Longrightarrow> k r = k r' \<Longrightarrow> r = r'"
  by (auto simp: distinct_map inj_on_def)

section \<open>Invariants of systems that move by labelled steps\<close>

text \<open>
  \<open>step l s\<close> is the state after the step labelled \<open>l\<close>. A predicate that holds initially and
  is kept by every step holds after every sequence of steps.
\<close>

locale labelled_invariant =
  fixes init :: 's
    and step :: "'l \<Rightarrow> 's \<Rightarrow> 's"
    and inv :: "'s \<Rightarrow> bool"
  assumes inv_init: "inv init"
    and inv_step: "inv s \<Longrightarrow> inv (step l s)"
begin

lemma inv_run: "inv s \<Longrightarrow> inv (fold step ls s)"
  by (induction ls arbitrary: s) (auto simp: inv_step)

lemma inv_run_init: "inv (fold step ls init)"
  by (rule inv_run) (rule inv_init)

end

text \<open>
  The same under a side condition on the labels (an admissible run), for invariants that
  need every participant to respect a parameter.
\<close>

locale guarded_invariant =
  fixes init :: 's
    and step :: "'l \<Rightarrow> 's \<Rightarrow> 's"
    and guard :: "'l \<Rightarrow> bool"
    and inv :: "'s \<Rightarrow> bool"
  assumes ginv_init: "inv init"
    and ginv_step: "inv s \<Longrightarrow> guard l \<Longrightarrow> inv (step l s)"
begin

lemma ginv_run: "inv s \<Longrightarrow> list_all guard ls \<Longrightarrow> inv (fold step ls s)"
  by (induction ls arbitrary: s) (auto simp: ginv_step)

lemma ginv_run_init: "list_all guard ls \<Longrightarrow> inv (fold step ls init)"
  by (rule ginv_run) (rule ginv_init)

end

sublocale labelled_invariant \<subseteq> all_labels: guarded_invariant init step "\<lambda>_. True" inv
  by unfold_locales (auto simp: inv_init inv_step)

section \<open>Refinement of a step relation\<close>

text \<open>The states an abstract step relation reaches along a list of events.\<close>

inductive steps :: "('e \<Rightarrow> 'a \<Rightarrow> 'a \<Rightarrow> bool) \<Rightarrow> 'a \<Rightarrow> 'e list \<Rightarrow> 'a \<Rightarrow> bool" for step where
  steps_Nil: "steps step s [] s"
| steps_Cons: "step e s s' \<Longrightarrow> steps step s' es s'' \<Longrightarrow> steps step s (e # es) s''"

inductive_simps steps_simps: "steps step s [] t" "steps step s (e # es) t"

text \<open>
  A system whose every step, seen through \<open>abs\<close>, is a step of the specification: then so is
  every run. The step only has to be matched in states that satisfy the system's invariant.
\<close>

locale refinement = labelled_invariant init step inv
  for init :: 's and step :: "'l \<Rightarrow> 's \<Rightarrow> 's" and inv +
  fixes abs :: "'s \<Rightarrow> 'a"
    and event :: "'l \<Rightarrow> 'e"
    and astep :: "'e \<Rightarrow> 'a \<Rightarrow> 'a \<Rightarrow> bool"
  assumes matches: "inv s \<Longrightarrow> astep (event l) (abs s) (abs (step l s))"
begin

lemma run_refines: "inv s \<Longrightarrow> steps astep (abs s) (map event ls) (abs (fold step ls s))"
proof (induction ls arbitrary: s)
  case (Cons l ls)
  from Cons.IH [OF inv_step [OF Cons.prems]] matches [OF Cons.prems] show ?case
    by (auto intro: steps_Cons)
qed (simp add: steps_Nil)

lemma run_refines_init: "steps astep (abs init) (map event ls) (abs (fold step ls init))"
  by (rule run_refines) (rule inv_init)

end

end
