(* ===== verification/GoStrings.thy ===== *)
theory GoStrings
  imports Prelude "HOL-Library.Char_ord"
begin

text \<open>
  The parts of Go's standard library the sources call on strings and integers: \<open>strings\<close>
  (\<open>HasPrefix\<close>, \<open>HasSuffix\<close>, \<open>CutPrefix\<close>, \<open>Cut\<close>, \<open>TrimPrefix\<close>, \<open>TrimSpace\<close>, \<open>Split\<close>,
  \<open>EqualFold\<close>), \<open>path.Base\<close>, \<open>strconv.Atoi\<close> and \<open>ParseInt\<close>, \<open>strconv.Quote\<close>, the \<open>%d\<close> verb,
  the UTF-8 decoding that \<open>range\<close> and \<open>regexp\<close> use, and 64-bit wrap-around. A Go string is its
  list of bytes, so \<open>length\<close> is Go's \<open>len\<close>.
\<close>

section \<open>Definitions\<close>

definition byte :: "char \<Rightarrow> nat" where
  "byte c = of_char c"

definition HasPrefix :: "string \<Rightarrow> string \<Rightarrow> bool" where
  "HasPrefix s p \<longleftrightarrow> take (length p) s = p"

definition HasSuffix :: "string \<Rightarrow> string \<Rightarrow> bool" where
  "HasSuffix s p \<longleftrightarrow> length p \<le> length s \<and> drop (length s - length p) s = p"

definition CutPrefix :: "string \<Rightarrow> string \<Rightarrow> string \<times> bool" where
  "CutPrefix s p = (if HasPrefix s p then (drop (length p) s, True) else (s, False))"

definition TrimPrefix :: "string \<Rightarrow> string \<Rightarrow> string" where
  "TrimPrefix s p = (if HasPrefix s p then drop (length p) s else s)"

text \<open>\<open>strings.Cut\<close> and \<open>strings.Split\<close> at a one-byte separator, as the sources call them.\<close>

definition Cut :: "string \<Rightarrow> char \<Rightarrow> string \<times> string \<times> bool" where
  "Cut s c = (if c \<in> set s then (takeWhile (\<lambda>x. x \<noteq> c) s, tl (dropWhile (\<lambda>x. x \<noteq> c) s), True)
              else (s, [], False))"

fun Split :: "string \<Rightarrow> char \<Rightarrow> string list" where
  "Split [] c = [[]]"
| "Split (x # xs) c =
     (if x = c then [] # Split xs c
      else (case Split xs c of [] \<Rightarrow> [[x]] | p # ps \<Rightarrow> (x # p) # ps))"

text \<open>\<open>unicode.IsSpace\<close>, as the UTF-8 encodings of its code points.\<close>

definition space_seqs :: "string list" where
  "space_seqs =
     [[CHR 0x09], [CHR 0x0A], [CHR 0x0B], [CHR 0x0C], [CHR 0x0D], [CHR 0x20],
      [CHR 0xC2, CHR 0x85], [CHR 0xC2, CHR 0xA0], [CHR 0xE1, CHR 0x9A, CHR 0x80],
      [CHR 0xE2, CHR 0x80, CHR 0x80], [CHR 0xE2, CHR 0x80, CHR 0x81],
      [CHR 0xE2, CHR 0x80, CHR 0x82], [CHR 0xE2, CHR 0x80, CHR 0x83],
      [CHR 0xE2, CHR 0x80, CHR 0x84], [CHR 0xE2, CHR 0x80, CHR 0x85],
      [CHR 0xE2, CHR 0x80, CHR 0x86], [CHR 0xE2, CHR 0x80, CHR 0x87],
      [CHR 0xE2, CHR 0x80, CHR 0x88], [CHR 0xE2, CHR 0x80, CHR 0x89],
      [CHR 0xE2, CHR 0x80, CHR 0x8A], [CHR 0xE2, CHR 0x80, CHR 0xA8],
      [CHR 0xE2, CHR 0x80, CHR 0xA9], [CHR 0xE2, CHR 0x80, CHR 0xAF],
      [CHR 0xE2, CHR 0x81, CHR 0x9F], [CHR 0xE3, CHR 0x80, CHR 0x80]]"

text \<open>
  \<open>strip_seqs seqs s\<close> removes leading members of \<open>seqs\<close> as long as there is one. \<open>TrimSpace\<close>
  applies it to the front and, on reversed strings, to the back.
\<close>

function strip_seqs :: "string list \<Rightarrow> string \<Rightarrow> string" where
  "strip_seqs seqs s =
     (case find (\<lambda>p. p \<noteq> [] \<and> HasPrefix s p) seqs of
        None \<Rightarrow> s
      | Some p \<Rightarrow> strip_seqs seqs (drop (length p) s))"
  by pat_completeness auto
termination
proof (relation "measure (\<lambda>(seqs, s). length s)", goal_cases)
  case (2 seqs s p)
  then have "p \<noteq> []" "HasPrefix s p"
    by (auto simp: find_Some_iff)
  then have "0 < length p" "s \<noteq> []"
    by (auto simp: HasPrefix_def)
  then show ?case by auto
qed simp

declare strip_seqs.simps [simp del]

definition TrimSpace :: "string \<Rightarrow> string" where
  "TrimSpace s = rev (strip_seqs (map rev space_seqs) (rev (strip_seqs space_seqs s)))"

text \<open>
  \<open>strings.EqualFold\<close> on ASCII letters. The sources call it with the constant \<open>"Bearer "\<close>, none
  of whose letters has a case variant outside ASCII.
\<close>

definition lower :: "char \<Rightarrow> char" where
  "lower c = (if 65 \<le> byte c \<and> byte c \<le> 90 then char_of (byte c + 32) else c)"

definition EqualFold :: "string \<Rightarrow> string \<Rightarrow> bool" where
  "EqualFold s t \<longleftrightarrow> map lower s = map lower t"

definition path_Base :: "string \<Rightarrow> string" where
  "path_Base p =
     (if p = [] then ''.''
      else let q = rev (dropWhile (\<lambda>c. c = CHR ''/'') (rev p));
               b = rev (takeWhile (\<lambda>c. c \<noteq> CHR ''/'') (rev q))
           in if b = [] then ''/'' else b)"

subsection \<open>UTF-8\<close>

text \<open>
  The byte width of the first rune, as \<open>utf8.DecodeRuneInString\<close> reports it: an encoding that is
  not valid counts as one byte (\<open>rune_valid\<close> is false for it).
\<close>

definition cont :: "nat \<Rightarrow> bool" where
  "cont b \<longleftrightarrow> 128 \<le> b \<and> b \<le> 191"

fun rune_width' :: "nat list \<Rightarrow> nat" where
  "rune_width' [] = 0"
| "rune_width' (b0 # bs) =
     (if b0 < 128 then 1
      else (case bs of
        [] \<Rightarrow> 1
      | b1 # bs1 \<Rightarrow>
          if 194 \<le> b0 \<and> b0 \<le> 223 then (if cont b1 then 2 else 1)
          else if 224 \<le> b0 \<and> b0 \<le> 239 then
            (case bs1 of
               [] \<Rightarrow> 1
             | b2 # _ \<Rightarrow>
                 if (if b0 = 224 then 160 \<le> b1 \<and> b1 \<le> 191
                     else if b0 = 237 then 128 \<le> b1 \<and> b1 \<le> 159 else cont b1) \<and> cont b2
                 then 3 else 1)
          else if 240 \<le> b0 \<and> b0 \<le> 244 then
            (case bs1 of
               b2 # b3 # _ \<Rightarrow>
                 if (if b0 = 240 then 144 \<le> b1 \<and> b1 \<le> 191
                     else if b0 = 244 then 128 \<le> b1 \<and> b1 \<le> 143 else cont b1) \<and> cont b2 \<and> cont b3
                 then 4 else 1
             | _ \<Rightarrow> 1)
          else 1))"

definition rune_width :: "string \<Rightarrow> nat" where
  "rune_width s = rune_width' (map byte s)"

lemma rune_width'_pos: "bs \<noteq> [] \<Longrightarrow> 1 \<le> rune_width' bs"
  by (cases bs) (auto split: list.splits)

lemma rune_width_pos: "s \<noteq> [] \<Longrightarrow> 1 \<le> rune_width s"
  unfolding rune_width_def by (rule rune_width'_pos) simp

text \<open>The runes of a string, each as its bytes.\<close>

function runes :: "string \<Rightarrow> string list" where
  "runes s = (if s = [] then [] else take (rune_width s) s # runes (drop (rune_width s) s))"
  by pat_completeness auto
termination
proof (relation "measure length", goal_cases)
  case (2 s)
  then show ?case using rune_width_pos [of s] by auto
qed simp

declare runes.simps [simp del]

definition rune_valid :: "string \<Rightarrow> bool" where
  "rune_valid r \<longleftrightarrow> (\<exists>c. r = [c] \<and> byte c < 128) \<or> 2 \<le> length r"

text \<open>The code point of a valid rune.\<close>

definition rune_value :: "string \<Rightarrow> nat" where
  "rune_value r =
     (case map byte r of
        [a] \<Rightarrow> a
      | [a, b] \<Rightarrow> (a - 192) * 64 + (b - 128)
      | [a, b, c] \<Rightarrow> (a - 224) * 4096 + (b - 128) * 64 + (c - 128)
      | [a, b, c, d] \<Rightarrow> (a - 240) * 262144 + (b - 128) * 4096 + (c - 128) * 64 + (d - 128)
      | _ \<Rightarrow> 0)"

subsection \<open>Numbers\<close>

definition is_digit :: "char \<Rightarrow> bool" where
  "is_digit c \<longleftrightarrow> 48 \<le> byte c \<and> byte c \<le> 57"

definition digit_val :: "char \<Rightarrow> int" where
  "digit_val c = int (byte c) - 48"

fun digits_val :: "int \<Rightarrow> string \<Rightarrow> int" where
  "digits_val acc [] = acc"
| "digits_val acc (c # cs) = digits_val (acc * 10 + digit_val c) cs"

definition MaxInt64 :: int where "MaxInt64 = 2 ^ 63 - 1"
definition MinInt64 :: int where "MinInt64 = - (2 ^ 63)"

text \<open>\<open>strconv.Atoi\<close> (and \<open>ParseInt(s, 10, 64)\<close>): \<open>None\<close> is the syntax or range error.\<close>

definition Atoi :: "string \<Rightarrow> int option" where
  "Atoi s =
     (let neg = (s \<noteq> [] \<and> hd s = CHR ''-'');
          body = (if s \<noteq> [] \<and> (hd s = CHR ''-'' \<or> hd s = CHR ''+'') then tl s else s)
      in if body = [] \<or> \<not> list_all is_digit body then None
         else let v = (if neg then - digits_val 0 body else digits_val 0 body)
              in if MinInt64 \<le> v \<and> v \<le> MaxInt64 then Some v else None)"

text \<open>The value a Go \<open>int\<close> or \<open>int64\<close> holds after arithmetic whose exact result is \<open>x\<close>.\<close>

definition wrap64 :: "int \<Rightarrow> int" where
  "wrap64 x = signed_take_bit 63 x"

fun show_nat :: "nat \<Rightarrow> string" where
  "show_nat n = (if n < 10 then [char_of (48 + n)] else show_nat (n div 10) @ [char_of (48 + n mod 10)])"

declare show_nat.simps [simp del]

text \<open>The \<open>%d\<close> verb.\<close>

definition show_int :: "int \<Rightarrow> string" where
  "show_int i = (if i < 0 then CHR ''-'' # show_nat (nat (- i)) else show_nat (nat i))"

subsection \<open>Quoting\<close>

definition hex_digit :: "nat \<Rightarrow> char" where
  "hex_digit n = (if n < 10 then char_of (48 + n) else char_of (87 + n))"

fun hex_pad :: "nat \<Rightarrow> nat \<Rightarrow> string" where
  "hex_pad 0 n = []"
| "hex_pad (Suc w) n = hex_pad w (n div 16) @ [hex_digit (n mod 16)]"

text \<open>
  \<open>strconv.Quote\<close>, the \<open>%q\<close> verb. Which runes outside ASCII are printable is Unicode's table,
  passed as \<open>isPrint\<close>.
\<close>

definition quote_rune :: "(string \<Rightarrow> bool) \<Rightarrow> string \<Rightarrow> string" where
  "quote_rune isPrint r =
     (if \<not> rune_valid r then [CHR 0x5C, CHR ''x''] @ hex_pad 2 (byte (hd r))
      else if r = [CHR 0x22] \<or> r = [CHR 0x5C] then CHR 0x5C # r
      else if length r = 1 \<and> 32 \<le> byte (hd r) \<and> byte (hd r) < 127 \<or> 2 \<le> length r \<and> isPrint r then r
      else if r = [CHR 0x07] then [CHR 0x5C, CHR ''a''] else if r = [CHR 0x08] then [CHR 0x5C, CHR ''b'']
      else if r = [CHR 0x0C] then [CHR 0x5C, CHR ''f''] else if r = [CHR 0x0A] then [CHR 0x5C, CHR ''n'']
      else if r = [CHR 0x0D] then [CHR 0x5C, CHR ''r''] else if r = [CHR 0x09] then [CHR 0x5C, CHR ''t'']
      else if r = [CHR 0x0B] then [CHR 0x5C, CHR ''v'']
      else if rune_value r < 128 then [CHR 0x5C, CHR ''x''] @ hex_pad 2 (rune_value r)
      else if rune_value r < 65536 then [CHR 0x5C, CHR ''u''] @ hex_pad 4 (rune_value r)
      else [CHR 0x5C, CHR ''U''] @ hex_pad 8 (rune_value r))"

definition Quote :: "(string \<Rightarrow> bool) \<Rightarrow> string \<Rightarrow> string" where
  "Quote isPrint s = [CHR 0x22] @ concat (map (quote_rune isPrint) (runes s)) @ [CHR 0x22]"

section \<open>Lemmas\<close>

lemma byte_less [simp]: "byte c < 256"
  by (simp add: byte_def)

lemma byte_inj: "byte c = byte d \<longleftrightarrow> c = d"
  by (simp add: byte_def)

lemma HasPrefix_iff: "HasPrefix s p \<longleftrightarrow> (\<exists>t. s = p @ t)"
  unfolding HasPrefix_def by (metis append_eq_conv_conj append_take_drop_id)

lemma HasPrefix_append [simp]: "HasPrefix (p @ s) p"
  by (simp add: HasPrefix_def)

lemma HasSuffix_iff: "HasSuffix s p \<longleftrightarrow> (\<exists>t. s = t @ p)"
proof
  assume "HasSuffix s p"
  then show "\<exists>t. s = t @ p"
    unfolding HasSuffix_def by (metis append_take_drop_id)
qed (auto simp: HasSuffix_def)

lemma TrimPrefix_append [simp]: "TrimPrefix (p @ s) p = s"
  by (simp add: TrimPrefix_def)

lemma CutPrefix_append [simp]: "CutPrefix (p @ s) p = (s, True)"
  by (simp add: CutPrefix_def)

lemma Cut_append: "c \<notin> set b \<Longrightarrow> Cut (b @ c # k) c = (b, k, True)"
proof -
  assume "c \<notin> set b"
  then have "takeWhile (\<lambda>x. x \<noteq> c) (b @ c # k) = b" "dropWhile (\<lambda>x. x \<noteq> c) (b @ c # k) = c # k"
    by (induction b) auto
  then show ?thesis by (simp add: Cut_def)
qed

lemma Cut_found: "Cut s c = (b, k, True) \<Longrightarrow> s = b @ c # k \<and> c \<notin> set b"
proof -
  assume a: "Cut s c = (b, k, True)"
  then have c: "c \<in> set s" and b: "b = takeWhile (\<lambda>x. x \<noteq> c) s"
    and k: "k = tl (dropWhile (\<lambda>x. x \<noteq> c) s)"
    by (auto simp: Cut_def split: if_splits)
  from c have "dropWhile (\<lambda>x. x \<noteq> c) s \<noteq> []" and "hd (dropWhile (\<lambda>x. x \<noteq> c) s) = c"
    by (auto simp: dropWhile_eq_Nil_conv dest: hd_dropWhile)
       (metis (mono_tags) dropWhile_eq_Nil_conv hd_dropWhile)
  then have "dropWhile (\<lambda>x. x \<noteq> c) s = c # k"
    by (metis k list.collapse)
  then show ?thesis
    by (metis (mono_tags, lifting) b set_takeWhileD takeWhile_dropWhile_id)
qed

lemma Cut_not_found: "Cut s c = (b, k, False) \<Longrightarrow> b = s \<and> k = [] \<and> c \<notin> set s"
  by (auto simp: Cut_def split: if_splits)

lemma Split_nonempty [simp]: "Split s c \<noteq> []"
  by (induction s) (auto split: list.splits)

lemma Split_no_sep: "p \<in> set (Split s c) \<Longrightarrow> c \<notin> set p"
  by (induction s arbitrary: p) (auto split: if_splits list.splits)

lemma Split_append_sep: "c \<notin> set p \<Longrightarrow> Split (p @ c # s) c = p # Split s c"
  by (induction p) auto

lemma Split_single: "c \<notin> set p \<Longrightarrow> Split p c = [p]"
  by (induction p) auto

subsection \<open>Wrap-around\<close>

lemma wrap64_range: "MinInt64 \<le> wrap64 x \<and> wrap64 x \<le> MaxInt64"
proof -
  have "- (2 ^ 63) \<le> signed_take_bit 63 x"
    by (rule signed_take_bit_int_greater_eq_minus_exp)
  moreover have "signed_take_bit 63 x < 2 ^ 63"
    by (rule signed_take_bit_int_less_exp)
  ultimately show ?thesis
    unfolding wrap64_def MinInt64_def MaxInt64_def by linarith
qed

lemma wrap64_id: "MinInt64 \<le> x \<Longrightarrow> x \<le> MaxInt64 \<Longrightarrow> wrap64 x = x"
  unfolding wrap64_def MinInt64_def MaxInt64_def
  by (rule signed_take_bit_int_eq_self) simp_all

subsection \<open>Decimal numbers\<close>

lemma digits_val_append: "digits_val acc (xs @ ys) = digits_val (digits_val acc xs) ys"
  by (induction xs arbitrary: acc) auto

lemma byte_char_of: "n < 256 \<Longrightarrow> byte (char_of n) = n"
  by (simp add: byte_def)

lemma show_nat_digits: "list_all is_digit (show_nat n)"
proof (induction n rule: show_nat.induct)
  case (1 n)
  show ?case
  proof (cases "n < 10")
    case True
    then show ?thesis by (subst show_nat.simps) (simp add: is_digit_def byte_char_of)
  next
    case False
    moreover have "is_digit (char_of (48 + n mod 10))"
    proof -
      have "n mod 10 \<le> 9" by presburger
      then show ?thesis by (simp add: is_digit_def byte_char_of)
    qed
    ultimately show ?thesis
      using 1 by (subst show_nat.simps) simp
  qed
qed

lemma show_nat_nonempty [simp]: "show_nat n \<noteq> []"
  by (subst show_nat.simps) simp

lemma digits_val_show_nat: "digits_val 0 (show_nat n) = int n"
proof (induction n rule: show_nat.induct)
  case (1 n)
  show ?case
  proof (cases "n < 10")
    case True
    then show ?thesis by (subst show_nat.simps) (simp add: digit_val_def byte_char_of)
  next
    case False
    moreover have "48 + n mod 10 < 256" by (simp add: less_imp_le)
    ultimately have "digits_val 0 (show_nat n) = int (n div 10) * 10 + int (n mod 10)"
      using 1 by (subst show_nat.simps) (simp add: digit_val_def digits_val_append byte_char_of)
    then show ?thesis by presburger
  qed
qed

text \<open>The \<open>%d\<close> rendering of any 64-bit integer is read back by \<open>Atoi\<close>.\<close>

lemma Atoi_show_int:
  assumes "MinInt64 \<le> i" and "i \<le> MaxInt64"
  shows "Atoi (show_int i) = Some i"
proof (cases "i < 0")
  case True
  then show ?thesis
    using assms by (simp add: Atoi_def show_int_def show_nat_digits digits_val_show_nat)
next
  case False
  have "is_digit (hd (show_nat (nat i)))"
    using show_nat_digits [of "nat i"] by (metis list.pred_set hd_in_set show_nat_nonempty)
  then have "hd (show_nat (nat i)) \<noteq> CHR ''-''" "hd (show_nat (nat i)) \<noteq> CHR ''+''"
    by (auto simp: is_digit_def byte_def)
  then show ?thesis
    using False assms by (simp add: Atoi_def show_int_def show_nat_digits digits_val_show_nat)
qed

lemma Atoi_range: "Atoi s = Some i \<Longrightarrow> MinInt64 \<le> i \<and> i \<le> MaxInt64"
  by (auto simp: Atoi_def Let_def split: if_splits)

subsection \<open>Base names\<close>

lemma path_Base_no_slash: "path_Base p = ''/'' \<or> CHR ''/'' \<notin> set (path_Base p)"
  unfolding path_Base_def Let_def by (auto dest: set_takeWhileD)

lemma path_Base_nonempty: "path_Base p \<noteq> []"
  by (simp add: path_Base_def Let_def)

lemma runes_nonempty: "r \<in> set (runes s) \<Longrightarrow> r \<noteq> []"
proof (induction s rule: runes.induct)
  case (1 s)
  show ?case
  proof (cases "s = []")
    case True
    with 1 show ?thesis by (simp add: runes.simps)
  next
    case False
    with 1 rune_width_pos [of s] show ?thesis by (auto simp: runes.simps [of s])
  qed
qed

lemma concat_runes: "concat (runes s) = s"
proof (induction s rule: runes.induct)
  case (1 s)
  then show ?case by (cases "s = []") (simp_all add: runes.simps [of s] runes.simps [of "[]"])
qed

lemma runes_eq_Nil [simp]: "runes s = [] \<longleftrightarrow> s = []"
  by (subst runes.simps) simp

end
