(* ===== verification/GoJson.thy ===== *)
theory GoJson
  imports GoStrings
begin

text \<open>
  JSON values and the rules by which \<open>encoding/json\<close> decodes one into a Go value: field matching,
  \<open>null\<close>, type mismatches, integer ranges. A number is kept as its literal. Reading the value from a
  text and writing it are in theory GoJsonText.
\<close>

section \<open>Definitions\<close>

datatype json =
    JNull
  | JBool bool
  | JNum string
  | JStr string
  | JArr "json list"
  | JObj "(string \<times> json) list"

text \<open>
  Field names match exactly or, failing that, up to case. The only runes outside ASCII that fold
  to an ASCII letter are U+017F (to \<open>s\<close>) and U+212A (to \<open>k\<close>).
\<close>

definition fold_rune :: "string \<Rightarrow> string" where
  "fold_rune r =
     (if r = [CHR 0xC5, CHR 0xBF] then ''s''
      else if r = [CHR 0xE2, CHR 0x84, CHR 0xAA] then ''k''
      else map lower r)"

definition foldName :: "string \<Rightarrow> string" where
  "foldName s = concat (map fold_rune (runes s))"

definition field_of :: "string list \<Rightarrow> string \<Rightarrow> string option" where
  "field_of fields key =
     (case find (\<lambda>f. f = key) fields of
        Some f \<Rightarrow> Some f
      | None \<Rightarrow> find (\<lambda>f. foldName f = foldName key) fields)"

text \<open>
  Decoding into a value that already holds something: \<open>null\<close> leaves a string, struct or number
  as it is, resets a pointer, slice or map; a value of another type is an error (\<open>None\<close>).
\<close>

definition decode_string :: "json \<Rightarrow> string \<Rightarrow> string option" where
  "decode_string j old = (case j of JNull \<Rightarrow> Some old | JStr s \<Rightarrow> Some s | _ \<Rightarrow> None)"

definition decode_int_ptr :: "json \<Rightarrow> int option \<Rightarrow> int option option" where
  "decode_int_ptr j old =
     (case j of JNull \<Rightarrow> Some None | JNum lit \<Rightarrow> map_option Some (Atoi lit) | _ \<Rightarrow> None)"

text \<open>\<open>json.RawMessage\<close> keeps the text of any value, \<open>null\<close> included; empty when the field is absent.\<close>

definition decode_raw :: "json \<Rightarrow> json option \<Rightarrow> json option option" where
  "decode_raw j old = Some (Some j)"

text \<open>
  A struct: members in order, each decoded into its field by \<open>put\<close>; unknown members are skipped.
\<close>

fun decode_members ::
  "string list \<Rightarrow> (string \<Rightarrow> json \<Rightarrow> 'r \<Rightarrow> 'r option) \<Rightarrow> (string \<times> json) list \<Rightarrow> 'r \<Rightarrow> 'r option" where
  "decode_members fields put [] r = Some r"
| "decode_members fields put ((k, v) # ms) r =
     (case field_of fields k of
        None \<Rightarrow> decode_members fields put ms r
      | Some f \<Rightarrow> (case put f v r of None \<Rightarrow> None | Some r' \<Rightarrow> decode_members fields put ms r'))"

definition decode_struct ::
  "string list \<Rightarrow> (string \<Rightarrow> json \<Rightarrow> 'r \<Rightarrow> 'r option) \<Rightarrow> json \<Rightarrow> 'r \<Rightarrow> 'r option" where
  "decode_struct fields put j r =
     (case j of JNull \<Rightarrow> Some r | JObj ms \<Rightarrow> decode_members fields put ms r | _ \<Rightarrow> None)"

text \<open>A slice of structs: element \<open>i\<close> is decoded over the old element \<open>i\<close> where there is one.\<close>

fun decode_elems :: "(json \<Rightarrow> 'r \<Rightarrow> 'r option) \<Rightarrow> 'r \<Rightarrow> json list \<Rightarrow> 'r list \<Rightarrow> 'r list option" where
  "decode_elems dec zero [] old = Some []"
| "decode_elems dec zero (j # js) old =
     (case dec j (case old of [] \<Rightarrow> zero | x # _ \<Rightarrow> x) of
        None \<Rightarrow> None
      | Some r \<Rightarrow> map_option (\<lambda>rs. r # rs) (decode_elems dec zero js (tl old)))"

definition decode_slice :: "(json \<Rightarrow> 'r \<Rightarrow> 'r option) \<Rightarrow> 'r \<Rightarrow> json \<Rightarrow> 'r list \<Rightarrow> 'r list option" where
  "decode_slice dec zero j old =
     (case j of JNull \<Rightarrow> Some [] | JArr js \<Rightarrow> decode_elems dec zero js old | _ \<Rightarrow> None)"

section \<open>Lemmas\<close>

lemma field_of_exact [go_simps]: "f \<in> set fields \<Longrightarrow> field_of fields f = Some f"
proof -
  assume "f \<in> set fields"
  then have "find (\<lambda>g. g = f) fields = Some f" by (induction fields) auto
  then show ?thesis by (simp add: field_of_def)
qed

lemma field_of_in: "field_of fields k = Some f \<Longrightarrow> f \<in> set fields"
  by (auto simp: field_of_def find_Some_iff split: option.splits)

lemma decode_int_ptr_range:
  "decode_int_ptr j old = Some (Some i) \<Longrightarrow> MinInt64 \<le> i \<and> i \<le> MaxInt64"
  by (auto simp: decode_int_ptr_def split: json.splits dest: Atoi_range)

text \<open>
  A list of structs encoded member by member decodes to itself when each element does.
\<close>

lemma decode_elems_map:
  "(\<And>x. x \<in> set xs \<Longrightarrow> dec (enc x) zero = Some x) \<Longrightarrow> decode_elems dec zero (map enc xs) [] = Some xs"
  by (induction xs) auto

lemma length_decode_elems: "decode_elems dec zero js old = Some rs \<Longrightarrow> length rs = length js"
  by (induction js arbitrary: old rs) (auto split: option.splits)

end
