(* ===== verification/Schema.thy ===== *)
theory Schema
  imports GoJson "HOL-Library.Product_Lexorder" "HOL-Library.List_Lexorder"
begin

text \<open>
  The Postgres side of the program (\<open>db/migrations/*.sql\<close>): the rows of the \<open>app\<close> schema, the
  batch rollup trigger \<open>app.sync_batch_counts\<close> (migration 0004), the claim predicate
  \<open>app.eligible_simulations\<close> (0006) and the guarded lifecycle functions \<open>claim_simulation\<close>,
  \<open>renew_lease\<close>, \<open>finish_simulation\<close> and \<open>reap_expired_leases\<close> (0007), which the Go code calls
  or relies on. A table is the list of its rows; one SQL statement, with the row triggers it
  fires, is one function on the database. Timestamps are microseconds; a \<open>uuid\<close> is its canonical
  text; a nullable column is an option.
\<close>

section \<open>Tables\<close>

record users_row =
  u_id :: string
  u_email :: string

record api_keys_row =
  k_id :: string
  k_user_id :: string
  k_key_hash :: string
  k_name :: string
  k_created_at :: int
  k_revoked_at :: "int option"

record batches_row =
  b_id :: string
  b_user_id :: string
  b_state :: string
  b_total :: int
  b_succeeded :: int
  b_failed :: int
  b_idempotency_key :: "string option"
  b_created_at :: int

record results_row =
  r_content_hash :: string
  r_verdict :: string
  r_metrics :: json
  r_artifact_uri :: "string option"
  r_artifact_expires_at :: "int option"
  r_created_at :: int

record simulations_row =
  s_id :: string
  s_batch_id :: "string option"
  s_user_id :: string
  s_engine_version :: string
  s_priority :: int
  s_model_ref :: string
  s_weather_ref :: string
  s_model_sha256 :: "string option"
  s_weather_sha256 :: "string option"
  s_extraction_spec :: "json option"
  s_content_hash :: "string option"
  s_state :: string
  s_runner_id :: "string option"
  s_lease_expires_at :: "int option"
  s_attempts :: int
  s_max_attempts :: int
  s_error :: "string option"
  s_created_at :: int
  s_started_at :: "int option"
  s_finished_at :: "int option"

record db =
  users :: "users_row list"
  api_keys :: "api_keys_row list"
  batches :: "batches_row list"
  results :: "results_row list"
  simulations :: "simulations_row list"

definition empty_db :: db where
  "empty_db = \<lparr> users = [], api_keys = [], batches = [], results = [], simulations = [] \<rparr>"

section \<open>The rollup trigger\<close>

text \<open>
  The new row \<open>sync_batch_counts\<close> writes for a batch: counts recomputed from the batch's
  simulations, state from the counts and the fixed \<open>total\<close>.
\<close>

definition batch_sims :: "string \<Rightarrow> simulations_row list \<Rightarrow> simulations_row list" where
  "batch_sims bid t = filter (\<lambda>s. s_batch_id s = Some bid) t"

definition rollup :: "simulations_row list \<Rightarrow> batches_row \<Rightarrow> batches_row" where
  "rollup t b =
     (let sub = batch_sims (b_id b) t;
          inserted = int (length sub);
          succeeded = int (count_where (\<lambda>s. s_state s = ''succeeded'') sub);
          failed = int (count_where (\<lambda>s. s_state s = ''failed'') sub);
          fin = int (count_where (\<lambda>s. s_state s = ''succeeded'' \<or> s_state s = ''failed'') sub);
          running = int (count_where (\<lambda>s. s_state s = ''running'') sub)
      in b\<lparr> b_succeeded := succeeded, b_failed := failed,
            b_state := (if inserted < b_total b then ''expanding''
                        else if b_total b > 0 \<and> fin \<ge> b_total b then ''done''
                        else if running > 0 then ''running''
                        else ''queued'') \<rparr>)"

definition sync_batch_counts :: "string option \<Rightarrow> db \<Rightarrow> db" where
  "sync_batch_counts bid d =
     (case bid of
        None \<Rightarrow> d
      | Some i \<Rightarrow> d\<lparr> batches := upd_where (\<lambda>b. b_id b = i) (rollup (simulations d)) (batches d) \<rparr>)"

text \<open>
  The trigger is \<open>AFTER INSERT OR UPDATE OF state ... FOR EACH ROW\<close>: it fires once per row of a
  statement that assigns \<open>state\<close>, after all the statement's row changes.
\<close>

definition update_state_where ::
  "(simulations_row \<Rightarrow> bool) \<Rightarrow> (simulations_row \<Rightarrow> simulations_row) \<Rightarrow> db \<Rightarrow> db" where
  "update_state_where P f d =
     fold sync_batch_counts (map s_batch_id (filter P (simulations d)))
       (d\<lparr> simulations := upd_where P f (simulations d) \<rparr>)"

definition insert_row :: "simulations_row \<Rightarrow> db \<Rightarrow> db" where
  "insert_row r d = sync_batch_counts (s_batch_id r) (d\<lparr> simulations := simulations d @ [r] \<rparr>)"

section \<open>Claiming\<close>

definition running_count :: "string \<Rightarrow> db \<Rightarrow> nat" where
  "running_count u d = count_where (\<lambda>r. s_user_id r = u \<and> s_state r = ''running'') (simulations d)"

definition eligible :: "string \<Rightarrow> int \<Rightarrow> db \<Rightarrow> simulations_row \<Rightarrow> bool" where
  "eligible ver cap d s \<longleftrightarrow>
     s_state s = ''queued'' \<and> s_engine_version s = ver \<and> int (running_count (s_user_id s) d) < cap"

definition eligible_simulations :: "string \<Rightarrow> int \<Rightarrow> db \<Rightarrow> simulations_row list" where
  "eligible_simulations ver cap d =
     sort_key (\<lambda>s. (- s_priority s, s_created_at s)) (filter (eligible ver cap d) (simulations d))"

definition usec :: "int \<Rightarrow> int" where
  "usec secs = secs * 1000000"

definition claim_row :: "string \<Rightarrow> int \<Rightarrow> int \<Rightarrow> simulations_row \<Rightarrow> simulations_row" where
  "claim_row runner lease t s =
     s\<lparr> s_state := ''running'', s_runner_id := Some runner, s_started_at := Some t,
        s_lease_expires_at := Some (t + usec lease), s_attempts := s_attempts s + 1 \<rparr>"

text \<open>
  \<open>locked\<close> are the rows other transactions hold, which \<open>SKIP LOCKED\<close> passes over. The advisory
  lock makes count and claim one atomic step.
\<close>

definition claim_simulation ::
  "string \<Rightarrow> string \<Rightarrow> int \<Rightarrow> int \<Rightarrow> string list \<Rightarrow> int \<Rightarrow> db \<Rightarrow> simulations_row option \<times> db" where
  "claim_simulation runner ver cap lease locked t d =
     (case filter (\<lambda>s. \<not> List.member locked (s_id s)) (eligible_simulations ver cap d) of
        [] \<Rightarrow> (None, d)
      | s2 # _ \<Rightarrow>
          (Some (claim_row runner lease t s2),
           update_state_where (\<lambda>s. s_id s = s_id s2) (claim_row runner lease t) d))"

section \<open>Lease renewal, finishing and reaping\<close>

definition owned_by :: "string \<Rightarrow> string \<Rightarrow> simulations_row \<Rightarrow> bool" where
  "owned_by sid runner s \<longleftrightarrow> s_id s = sid \<and> s_runner_id s = Some runner \<and> s_state s = ''running''"

definition renew_lease :: "string \<Rightarrow> string \<Rightarrow> int \<Rightarrow> int \<Rightarrow> db \<Rightarrow> nat \<times> db" where
  "renew_lease sid runner lease t d =
     (count_where (owned_by sid runner) (simulations d),
      d\<lparr> simulations := upd_where (owned_by sid runner)
           (\<lambda>s. s\<lparr> s_lease_expires_at := Some (t + usec lease) \<rparr>) (simulations d) \<rparr>)"

definition finish_row :: "bool \<Rightarrow> string option \<Rightarrow> int \<Rightarrow> simulations_row \<Rightarrow> simulations_row" where
  "finish_row ok err t s =
     s\<lparr> s_state := (if ok then ''succeeded'' else ''failed''), s_finished_at := Some t,
        s_error := err, s_lease_expires_at := None \<rparr>"

definition finish_simulation :: "string \<Rightarrow> string \<Rightarrow> bool \<Rightarrow> string option \<Rightarrow> int \<Rightarrow> db \<Rightarrow> nat \<times> db" where
  "finish_simulation sid runner ok err t d =
     (count_where (owned_by sid runner) (simulations d),
      update_state_where (owned_by sid runner) (finish_row ok err t) d)"

definition expired :: "int \<Rightarrow> simulations_row \<Rightarrow> bool" where
  "expired t s \<longleftrightarrow> s_state s = ''running'' \<and> (case s_lease_expires_at s of None \<Rightarrow> False | Some l \<Rightarrow> l < t)"

definition requeue_row :: "simulations_row \<Rightarrow> simulations_row" where
  "requeue_row s = s\<lparr> s_state := ''queued'', s_runner_id := None, s_lease_expires_at := None \<rparr>"

definition expire_row :: "int \<Rightarrow> simulations_row \<Rightarrow> simulations_row" where
  "expire_row t s =
     s\<lparr> s_state := ''failed'', s_error := Some ''lease expired'', s_finished_at := Some t \<rparr>"

definition reap_expired_leases :: "int \<Rightarrow> db \<Rightarrow> (nat \<times> nat) \<times> db" where
  "reap_expired_leases t d =
     (let P = (\<lambda>s. expired t s \<and> s_attempts s < s_max_attempts s);
          Q = (\<lambda>s. expired t s \<and> s_attempts s \<ge> s_max_attempts s);
          n_requeued = count_where P (simulations d);
          d1 = update_state_where P requeue_row d;
          n_failed = count_where Q (simulations d1);
          d2 = update_state_where Q (expire_row t) d1
      in ((n_requeued, n_failed), d2))"

section \<open>Well-formedness of rows\<close>

definition sim_states :: "string list" where
  "sim_states = [''queued'', ''running'', ''succeeded'', ''failed'']"

text \<open>
  What the lifecycle functions keep true of every simulation: a queued row is unowned, holds no
  lease and has an attempt left; a running row has an owner and a lease; attempts never exceed
  the maximum.
\<close>

definition lifecycle_ok :: "simulations_row \<Rightarrow> bool" where
  "lifecycle_ok s \<longleftrightarrow>
     s_state s \<in> set sim_states \<and> 0 \<le> s_attempts s \<and> s_attempts s \<le> s_max_attempts s \<and>
     (s_state s = ''queued'' \<longrightarrow>
        s_runner_id s = None \<and> s_lease_expires_at s = None \<and> s_attempts s < s_max_attempts s) \<and>
     (s_state s = ''running'' \<longrightarrow>
        s_runner_id s \<noteq> None \<and> s_lease_expires_at s \<noteq> None \<and> 1 \<le> s_attempts s)"

definition rollup_ok :: "db \<Rightarrow> bool" where
  "rollup_ok d \<longleftrightarrow> (\<forall>b \<in> set (batches d). rollup (simulations d) b = b)"

section \<open>Lemmas on the trigger\<close>

lemma rollup_frame [simp]:
  "b_id (rollup t b) = b_id b" "b_user_id (rollup t b) = b_user_id b"
  "b_total (rollup t b) = b_total b" "b_idempotency_key (rollup t b) = b_idempotency_key b"
  "b_created_at (rollup t b) = b_created_at b"
  by (simp_all add: rollup_def Let_def)

lemma rollup_idem [simp]: "rollup t (rollup t b) = rollup t b"
  by (simp add: rollup_def Let_def)

lemma rollup_cong: "batch_sims (b_id b) t = batch_sims (b_id b) t' \<Longrightarrow> rollup t b = rollup t' b"
  by (simp add: rollup_def)

lemma sync_batch_counts_frame [simp]:
  "simulations (sync_batch_counts i d) = simulations d" "users (sync_batch_counts i d) = users d"
  "api_keys (sync_batch_counts i d) = api_keys d" "results (sync_batch_counts i d) = results d"
  by (auto simp: sync_batch_counts_def split: option.splits)

text \<open>Firing the trigger for a list of batches recomputes exactly those batches, once.\<close>

lemma fold_sync_batch_counts:
  "fold sync_batch_counts is d =
     d\<lparr> batches := upd_where (\<lambda>b. Some (b_id b) \<in> set is) (rollup (simulations d)) (batches d) \<rparr>"
proof (induction "is" arbitrary: d)
  case Nil
  then show ?case by (simp add: upd_where_none)
next
  case (Cons i "is")
  show ?case
  proof (cases i)
    case None
    with Cons show ?thesis by (simp add: sync_batch_counts_def)
  next
    case (Some v)
    have "upd_where (\<lambda>b. Some (b_id b) \<in> set is) (rollup t) (upd_where (\<lambda>b. b_id b = v) (rollup t) bs)
        = upd_where (\<lambda>b. Some (b_id b) \<in> set (i # is)) (rollup t) bs" for t bs
      using Some by (induction bs) auto
    with Cons Some show ?thesis by (simp add: sync_batch_counts_def)
  qed
qed

lemma update_state_where_frame [simp]:
  "simulations (update_state_where P f d) = upd_where P f (simulations d)"
  "users (update_state_where P f d) = users d" "api_keys (update_state_where P f d) = api_keys d"
  "results (update_state_where P f d) = results d"
  by (simp_all add: update_state_where_def fold_sync_batch_counts)

lemma batches_update_state_where:
  "batches (update_state_where P f d) =
     upd_where (\<lambda>b. \<exists>s \<in> set (simulations d). P s \<and> s_batch_id s = Some (b_id b))
       (rollup (upd_where P f (simulations d))) (batches d)"
  unfolding update_state_where_def fold_sync_batch_counts
  by simp (rule upd_where_cong, auto simp: image_iff)

lemma insert_row_frame [simp]:
  "simulations (insert_row r d) = simulations d @ [r]"
  "users (insert_row r d) = users d" "api_keys (insert_row r d) = api_keys d"
  "results (insert_row r d) = results d"
  by (simp_all add: insert_row_def)

lemma batches_insert_row:
  "batches (insert_row r d) =
     upd_where (\<lambda>b. s_batch_id r = Some (b_id b)) (rollup (simulations d @ [r])) (batches d)"
  by (cases "s_batch_id r")
     (auto simp: insert_row_def sync_batch_counts_def upd_where_none intro!: upd_where_cong)

lemma batch_keys_update_state_where [simp]:
  "map b_id (batches (update_state_where P f d)) = map b_id (batches d)"
  "map (\<lambda>b. (b_user_id b, b_idempotency_key b)) (batches (update_state_where P f d)) =
     map (\<lambda>b. (b_user_id b, b_idempotency_key b)) (batches d)"
  by (simp_all add: batches_update_state_where map_upd_where)

lemma batch_keys_insert_row [simp]:
  "map b_id (batches (insert_row r d)) = map b_id (batches d)"
  "map (\<lambda>b. (b_user_id b, b_idempotency_key b)) (batches (insert_row r d)) =
     map (\<lambda>b. (b_user_id b, b_idempotency_key b)) (batches d)"
  by (simp_all add: batches_insert_row map_upd_where)

lemma batch_sims_append [simp]: "batch_sims i (t @ t') = batch_sims i t @ batch_sims i t'"
  by (simp add: batch_sims_def)

lemma batch_sims_upd_other:
  "(\<And>s. s \<in> set t \<Longrightarrow> P s \<Longrightarrow> s_batch_id s \<noteq> Some i \<and> s_batch_id (f s) \<noteq> Some i) \<Longrightarrow>
     batch_sims i (upd_where P f t) = batch_sims i t"
  by (induction t) (auto simp: batch_sims_def)

lemma update_state_where_rollup_ok [inv_intros]:
  assumes "rollup_ok d" and "\<And>s. s_batch_id (f s) = s_batch_id s"
  shows "rollup_ok (update_state_where P f d)"
  unfolding rollup_ok_def
proof
  let ?t = "upd_where P f (simulations d)"
  fix b assume b: "b \<in> set (batches (update_state_where P f d))"
  show "rollup (simulations (update_state_where P f d)) b = b"
  proof (cases "b \<in> rollup ?t ` UNIV")
    case True
    then show ?thesis by auto
  next
    case False
    with b have b0: "b \<in> set (batches d)"
      and no: "\<not> (\<exists>s \<in> set (simulations d). P s \<and> s_batch_id s = Some (b_id b))"
      by (auto simp: batches_update_state_where elim!: in_upd_whereE)
    have "batch_sims (b_id b) ?t = batch_sims (b_id b) (simulations d)"
      using no assms(2) by (intro batch_sims_upd_other) auto
    then have "rollup ?t b = rollup (simulations d) b" by (rule rollup_cong)
    with assms(1) b0 show ?thesis by (simp add: rollup_ok_def)
  qed
qed

lemma insert_row_rollup_ok [inv_intros]:
  assumes "rollup_ok d"
  shows "rollup_ok (insert_row r d)"
  unfolding rollup_ok_def
proof
  fix b assume b: "b \<in> set (batches (insert_row r d))"
  show "rollup (simulations (insert_row r d)) b = b"
  proof (cases "b \<in> rollup (simulations d @ [r]) ` UNIV")
    case True
    then show ?thesis by auto
  next
    case False
    with b have b0: "b \<in> set (batches d)" and no: "s_batch_id r \<noteq> Some (b_id b)"
      by (auto simp: batches_insert_row elim!: in_upd_whereE)
    then have "rollup (simulations d @ [r]) b = rollup (simulations d) b"
      by (intro rollup_cong) (simp add: batch_sims_def)
    with assms b0 show ?thesis by (simp add: rollup_ok_def)
  qed
qed

lemma rollup_ok_simulations_cong:
  assumes "rollup_ok d" and "\<And>i. map s_state (batch_sims i t) = map s_state (batch_sims i (simulations d))"
  shows "rollup_ok (d\<lparr> simulations := t \<rparr>)"
proof -
  have "count_where (\<lambda>s. Q (s_state s)) xs = count_where Q (map s_state xs)" for Q xs
    by (induction xs) auto
  note c = this
  have "length xs = length (map s_state xs)" for xs by simp
  note l = this
  have "rollup t b = rollup (simulations d) b" for b
    unfolding rollup_def Let_def
    by (subst (1 2) l, subst (1 2 3 4 5 6 7 8) c, simp only: assms(2))
  with assms(1) show ?thesis by (simp add: rollup_ok_def)
qed

end
