(* ===== verification/Lifecycle.thy ===== *)
theory Lifecycle
  imports Schema
begin

text \<open>
  The life of one simulation row as a step relation, and the lifecycle functions of migration
  0007 as implementations of it: whatever statement runs, every existing row makes one step of
  \<open>sim_step\<close> (possibly none). Facts about a row over any history then come from rule induction on
  \<open>sim_step\<close>. The second half states what each function guarantees: the claim order and the
  per-user cap, the runner fence, and the reaper.
\<close>

section \<open>The row-level state machine\<close>

definition backfill_row :: "string \<Rightarrow> string \<Rightarrow> string \<Rightarrow> simulations_row \<Rightarrow> simulations_row" where
  "backfill_row m w h s =
     s\<lparr> s_model_sha256 := Some m, s_weather_sha256 := Some w, s_content_hash := Some h \<rparr>"

text \<open>The Runner's unfenced digest back-fill (\<open>runner/synergy_runner/db.py\<close>); it assigns no state.\<close>

definition backfill_hashes :: "string \<Rightarrow> string \<Rightarrow> string \<Rightarrow> string \<Rightarrow> db \<Rightarrow> db" where
  "backfill_hashes sid m w h d =
     d\<lparr> simulations := upd_where (\<lambda>s. s_id s = sid) (backfill_row m w h) (simulations d) \<rparr>"

inductive sim_step :: "simulations_row \<Rightarrow> simulations_row \<Rightarrow> bool" where
  stay: "sim_step s s"
| claim: "s_state s = ''queued'' \<Longrightarrow> sim_step s (claim_row runner lease t s)"
| renew: "s_state s = ''running'' \<Longrightarrow> sim_step s (s\<lparr> s_lease_expires_at := Some l \<rparr>)"
| finish: "s_state s = ''running'' \<Longrightarrow> sim_step s (finish_row ok err t s)"
| requeue: "expired t s \<Longrightarrow> s_attempts s < s_max_attempts s \<Longrightarrow> sim_step s (requeue_row s)"
| expire: "expired t s \<Longrightarrow> s_attempts s \<ge> s_max_attempts s \<Longrightarrow> sim_step s (expire_row t s)"
| backfill: "sim_step s (backfill_row m w h s)"

inductive_cases sim_stepE: "sim_step s s'"

lemmas row_defs = claim_row_def finish_row_def requeue_row_def expire_row_def backfill_row_def

lemma expired_running: "expired t s \<Longrightarrow> s_state s = ''running''"
  by (simp add: expired_def)

lemma sim_step_frame:
  "sim_step s s' \<Longrightarrow>
     s_id s' = s_id s \<and> s_batch_id s' = s_batch_id s \<and> s_user_id s' = s_user_id s \<and>
     s_engine_version s' = s_engine_version s \<and> s_priority s' = s_priority s \<and>
     s_model_ref s' = s_model_ref s \<and> s_weather_ref s' = s_weather_ref s \<and>
     s_max_attempts s' = s_max_attempts s \<and> s_created_at s' = s_created_at s"
  by (induction rule: sim_step.induct) (auto simp: row_defs)

lemma sim_step_lifecycle_ok [inv_intros]: "sim_step s s' \<Longrightarrow> lifecycle_ok s \<Longrightarrow> lifecycle_ok s'"
  by (induction rule: sim_step.induct)
     (auto simp: row_defs lifecycle_ok_def sim_states_def dest: expired_running)

definition terminal :: "simulations_row \<Rightarrow> bool" where
  "terminal s \<longleftrightarrow> s_state s = ''succeeded'' \<or> s_state s = ''failed''"

lemma sim_step_terminal:
  "sim_step s s' \<Longrightarrow> terminal s \<Longrightarrow>
     s_state s' = s_state s \<and> s_error s' = s_error s \<and> s_finished_at s' = s_finished_at s \<and>
     s_runner_id s' = s_runner_id s \<and> s_attempts s' = s_attempts s"
  by (induction rule: sim_step.induct) (auto simp: row_defs terminal_def dest: expired_running)

lemma sim_step_attempts:
  "sim_step s s' \<Longrightarrow>
     s_attempts s' = s_attempts s + (if s_state s = ''queued'' \<and> s_state s' = ''running'' then 1 else 0)"
  by (induction rule: sim_step.induct) (auto simp: row_defs dest: expired_running)

text \<open>Steps of all rows of a table at once; new rows may follow.\<close>

definition sims_step :: "simulations_row list \<Rightarrow> simulations_row list \<Rightarrow> bool" where
  "sims_step t t' \<longleftrightarrow> length t \<le> length t' \<and> list_all2 sim_step t (take (length t) t')"

lemma sims_stepI: "list_all2 sim_step t t' \<Longrightarrow> sims_step t t'"
  using list_all2_lengthD [of sim_step t t'] by (simp add: sims_step_def)

lemma sims_step_refl [simp]: "sims_step t t"
  by (auto simp: sims_step_def intro: list_all2_refl sim_step.stay)

lemma sims_step_append: "sims_step t (t @ t')"
  by (auto simp: sims_step_def intro: list_all2_refl sim_step.stay)

lemma sims_step_upd_where:
  "(\<And>s. s \<in> set t \<Longrightarrow> P s \<Longrightarrow> sim_step s (f s)) \<Longrightarrow> sims_step t (upd_where P f t)"
  by (rule sims_stepI) (auto simp: upd_where_def list_all2_conv_all_nth intro: sim_step.stay)

section \<open>What each function does to the rows\<close>

lemma in_eligible_simulations:
  "s \<in> set (eligible_simulations ver cap d) \<longleftrightarrow> s \<in> set (simulations d) \<and> eligible ver cap d s"
  by (auto simp: eligible_simulations_def)

lemma claim_cases:
  obtains "claim_simulation runner ver cap lease locked t d = (None, d)"
    and "\<forall>s \<in> set (simulations d). eligible ver cap d s \<longrightarrow> s_id s \<in> set locked"
  | s2 where "s2 \<in> set (simulations d)" and "eligible ver cap d s2" and "s_id s2 \<notin> set locked"
    and "claim_simulation runner ver cap lease locked t d =
           (Some (claim_row runner lease t s2),
            update_state_where (\<lambda>s. s_id s = s_id s2) (claim_row runner lease t) d)"
    and "\<forall>s \<in> set (simulations d). eligible ver cap d s \<longrightarrow> s_id s \<notin> set locked \<longrightarrow>
           (- s_priority s2, s_created_at s2) \<le> (- s_priority s, s_created_at s)"
proof (cases "filter (\<lambda>s. \<not> List.member locked (s_id s)) (eligible_simulations ver cap d)")
  case Nil
  then have "\<forall>s \<in> set (simulations d). eligible ver cap d s \<longrightarrow> s_id s \<in> set locked"
    by (auto simp: filter_empty_conv in_eligible_simulations)
  with Nil show ?thesis by (intro that(1)) (auto simp: claim_simulation_def)
next
  case (Cons s2 rest)
  let ?k = "\<lambda>s. (- s_priority s, s_created_at s)"
  have "s2 \<in> set (filter (\<lambda>s. \<not> List.member locked (s_id s)) (eligible_simulations ver cap d))"
    unfolding Cons by simp
  then have s2: "s2 \<in> set (simulations d)" "eligible ver cap d s2" "s_id s2 \<notin> set locked"
    by (auto simp: in_eligible_simulations)
  have "sorted (map ?k (eligible_simulations ver cap d))"
    by (simp add: eligible_simulations_def)
  then have "sorted (map ?k (s2 # rest))"
    unfolding Cons [symmetric] by (rule sorted_filter)
  then have least: "\<forall>s \<in> set (s2 # rest). ?k s2 \<le> ?k s" by auto
  have "\<forall>s \<in> set (simulations d). eligible ver cap d s \<longrightarrow> s_id s \<notin> set locked \<longrightarrow> ?k s2 \<le> ?k s"
    using least unfolding Cons [symmetric] by (auto simp: in_eligible_simulations)
  with s2 Cons show ?thesis by (intro that(2) [of s2]) (auto simp: claim_simulation_def)
qed

lemma claim_sims_step:
  assumes "distinct (map s_id (simulations d))"
  shows "sims_step (simulations d) (simulations (snd (claim_simulation runner ver cap lease locked t d)))"
proof (cases rule: claim_cases [where runner = runner and ver = ver and cap = cap and lease = lease
      and locked = locked and t = t and d = d])
  case (2 s2)
  have "s = s2" if "s \<in> set (simulations d)" "s_id s = s_id s2" for s
    using distinct_map_eqD [OF assms that(1) 2(1) that(2)] .
  with 2 show ?thesis
    by (auto intro!: sims_step_upd_where sim_step.claim simp: eligible_def)
qed simp

lemma renew_sims_step:
  "sims_step (simulations d) (simulations (snd (renew_lease sid runner lease t d)))"
  by (auto simp: renew_lease_def owned_by_def intro!: sims_step_upd_where sim_step.renew)

lemma finish_sims_step:
  "sims_step (simulations d) (simulations (snd (finish_simulation sid runner ok err t d)))"
  by (auto simp: finish_simulation_def owned_by_def intro!: sims_step_upd_where sim_step.finish)

lemma backfill_sims_step: "sims_step (simulations d) (simulations (backfill_hashes sid m w h d))"
  by (auto simp: backfill_hashes_def intro!: sims_step_upd_where sim_step.backfill)

text \<open>
  The reaper's two statements touch disjoint sets of rows, so together they are one update.
\<close>

definition reap_row :: "int \<Rightarrow> simulations_row \<Rightarrow> simulations_row" where
  "reap_row t s = (if s_attempts s < s_max_attempts s then requeue_row s else expire_row t s)"

lemma simulations_reap:
  "simulations (snd (reap_expired_leases t d)) = upd_where (expired t) (reap_row t) (simulations d)"
proof -
  have "upd_where (\<lambda>s. expired t s \<and> s_attempts s \<ge> s_max_attempts s) (expire_row t)
          (upd_where (\<lambda>s. expired t s \<and> s_attempts s < s_max_attempts s) requeue_row xs) =
        upd_where (expired t) (reap_row t) xs" for xs
    by (induction xs) (auto simp: reap_row_def requeue_row_def expired_def)
  then show ?thesis by (simp add: reap_expired_leases_def Let_def)
qed

lemma reap_frame [simp]:
  "users (snd (reap_expired_leases t d)) = users d" "results (snd (reap_expired_leases t d)) = results d"
  "api_keys (snd (reap_expired_leases t d)) = api_keys d"
  by (simp_all add: reap_expired_leases_def Let_def)

lemma sim_step_reap_row: "expired t s \<Longrightarrow> sim_step s (reap_row t s)"
  by (auto simp: reap_row_def intro: sim_step.requeue sim_step.expire)

lemma reap_sims_step: "sims_step (simulations d) (simulations (snd (reap_expired_leases t d)))"
  unfolding simulations_reap by (rule sims_step_upd_where) (rule sim_step_reap_row)

lemma fst_reap:
  "fst (reap_expired_leases t d) =
     (count_where (\<lambda>s. expired t s \<and> s_attempts s < s_max_attempts s) (simulations d),
      count_where (\<lambda>s. expired t s \<and> s_attempts s \<ge> s_max_attempts s) (simulations d))"
proof -
  have "count_where (\<lambda>s. expired t s \<and> s_attempts s \<ge> s_max_attempts s)
          (upd_where (\<lambda>s. expired t s \<and> s_attempts s < s_max_attempts s) requeue_row xs) =
        count_where (\<lambda>s. expired t s \<and> s_attempts s \<ge> s_max_attempts s) xs" for xs
    by (induction xs) (auto simp: requeue_row_def expired_def)
  then show ?thesis by (simp add: reap_expired_leases_def Let_def)
qed

lemma row_fun_batch_id [simp]:
  "s_batch_id (claim_row r l t s) = s_batch_id s" "s_batch_id (finish_row ok e t s) = s_batch_id s"
  "s_batch_id (requeue_row s) = s_batch_id s" "s_batch_id (expire_row t s) = s_batch_id s"
  by (simp_all add: row_defs)

lemma claim_rollup_ok [inv_intros]:
  "rollup_ok d \<Longrightarrow> rollup_ok (snd (claim_simulation runner ver cap lease locked t d))"
  by (auto simp: claim_simulation_def intro!: update_state_where_rollup_ok split: list.splits)

lemma finish_rollup_ok [inv_intros]:
  "rollup_ok d \<Longrightarrow> rollup_ok (snd (finish_simulation sid runner ok err t d))"
  by (auto simp: finish_simulation_def intro!: update_state_where_rollup_ok)

lemma reap_rollup_ok [inv_intros]: "rollup_ok d \<Longrightarrow> rollup_ok (snd (reap_expired_leases t d))"
  by (auto simp: reap_expired_leases_def Let_def intro!: update_state_where_rollup_ok)

lemma batch_sims_upd_where:
  "(\<And>s. s_batch_id (f s) = s_batch_id s) \<Longrightarrow>
     batch_sims i (upd_where P f t) = upd_where P f (batch_sims i t)"
  by (induction t) (auto simp: batch_sims_def)

lemma renew_rollup_ok [inv_intros]: "rollup_ok d \<Longrightarrow> rollup_ok (snd (renew_lease sid runner lease t d))"
  unfolding renew_lease_def snd_conv
  by (rule rollup_ok_simulations_cong) (simp_all add: batch_sims_upd_where map_upd_where)

lemma backfill_rollup_ok [inv_intros]: "rollup_ok d \<Longrightarrow> rollup_ok (backfill_hashes sid m w h d)"
  unfolding backfill_hashes_def
  by (rule rollup_ok_simulations_cong)
     (simp_all add: batch_sims_upd_where map_upd_where backfill_row_def)

section \<open>The per-user cap\<close>

definition cap_ok :: "int \<Rightarrow> db \<Rightarrow> bool" where
  "cap_ok cap d \<longleftrightarrow> (\<forall>u. int (running_count u d) \<le> cap)"

lemma claim_cap_ok [inv_intros]:
  assumes "cap_ok c d" and "cap \<le> c" and "distinct (map s_id (simulations d))"
  shows "cap_ok c (snd (claim_simulation runner ver cap lease locked t d))"
proof (cases rule: claim_cases [where runner = runner and ver = ver and cap = cap and lease = lease
      and locked = locked and t = t and d = d])
  case 1
  with assms show ?thesis by simp
next
  case (2 s2)
  have uniq: "s = s2" if "s \<in> set (simulations d)" "s_id s = s_id s2" for s
    using distinct_map_eqD [OF assms(3) that(1) 2(1) that(2)] .
  have "int (running_count u (snd (claim_simulation runner ver cap lease locked t d))) \<le> c" for u
  proof (cases "u = s_user_id s2")
    case True
    have "count_where (\<lambda>r. s_user_id r = u \<and> s_state r = ''running'')
            (upd_where (\<lambda>r. s_id r = s_id s2 \<and> True) (claim_row runner lease t) (simulations d))
          \<le> Suc (count_where (\<lambda>r. s_user_id r = u \<and> s_state r = ''running'') (simulations d))"
      using assms(3) 2(2) by (intro count_where_upd_key_le) (auto dest!: uniq simp: eligible_def)
    moreover have "int (running_count u d) < cap"
      using 2(2) True by (simp add: eligible_def)
    ultimately show ?thesis
      using 2(4) assms(2) by (simp add: running_count_def)
  next
    case False
    have "running_count u (snd (claim_simulation runner ver cap lease locked t d)) = running_count u d"
      unfolding running_count_def using 2(4) False
      by (auto simp: claim_row_def dest!: uniq intro!: count_where_upd_same)
    with assms(1) show ?thesis by (simp add: cap_ok_def)
  qed
  then show ?thesis by (simp add: cap_ok_def)
qed

lemma cap_ok_upd_where:
  "cap_ok c d \<Longrightarrow>
   (\<And>s. P s \<Longrightarrow> s_state (f s) = ''running'' \<Longrightarrow> s_state s = ''running'' \<and> s_user_id (f s) = s_user_id s) \<Longrightarrow>
   simulations d' = upd_where P f (simulations d) \<Longrightarrow> cap_ok c d'"
proof -
  assume c: "cap_ok c d" and d': "simulations d' = upd_where P f (simulations d)"
    and f: "\<And>s. P s \<Longrightarrow> s_state (f s) = ''running'' \<Longrightarrow> s_state s = ''running'' \<and> s_user_id (f s) = s_user_id s"
  have "running_count u d' \<le> running_count u d" for u
    unfolding running_count_def d' using f by (intro count_where_upd_le) auto
  with c show ?thesis
    unfolding cap_ok_def by (meson of_nat_mono order_trans)
qed


section \<open>The runner fence\<close>

lemma update_state_where_none:
  "(\<And>s. s \<in> set (simulations d) \<Longrightarrow> \<not> P s) \<Longrightarrow> update_state_where P f d = d"
proof -
  assume "\<And>s. s \<in> set (simulations d) \<Longrightarrow> \<not> P s"
  then have "filter P (simulations d) = []" and "upd_where P f (simulations d) = simulations d"
    by (auto simp: filter_empty_conv intro: upd_where_none)
  then show ?thesis by (simp add: update_state_where_def)
qed

lemma owned_by_unique:
  "distinct (map s_id (simulations d)) \<Longrightarrow> s \<in> set (simulations d) \<Longrightarrow> owned_by (s_id s) runner s \<Longrightarrow>
     count_where (owned_by (s_id s) runner) (simulations d) = 1"
proof -
  assume d: "distinct (map s_id (simulations d))" and s: "s \<in> set (simulations d)"
    and o: "owned_by (s_id s) runner s"
  have "count_where (owned_by (s_id s) runner) (simulations d) = count_where (\<lambda>r. s_id r = s_id s) (simulations d)"
    using distinct_map_eqD [OF d _ s] o by (intro count_where_cong) (auto simp: owned_by_def)
  with d s show ?thesis by (simp add: count_where_key)
qed

text \<open>Rows a statement skips are kept as they are.\<close>

lemma in_claim_kept:
  "s \<in> set (simulations (snd (claim_simulation runner ver cap lease locked t d))) \<Longrightarrow>
     s \<in> set (simulations d) \<or> (s_state s = ''running'' \<and> s_runner_id s = Some runner)"
  by (cases rule: claim_cases [where runner = runner and ver = ver and cap = cap and lease = lease
        and locked = locked and t = t and d = d])
     (auto simp: claim_row_def elim!: in_upd_whereE)

lemma in_reap_cases:
  assumes "s \<in> set (simulations (snd (reap_expired_leases t d)))"
  obtains "s \<in> set (simulations d)" and "\<not> expired t s"
  | s0 where "s0 \<in> set (simulations d)" and "expired t s0" and "s = reap_row t s0"
  using assms unfolding simulations_reap by (auto elim!: in_upd_whereE)

section \<open>Properties\<close>

text \<open>
  C31. The claim takes a row that is queued, of the asked engine version, of a user under the cap
  and not locked by another transaction, and no such row has a higher priority or, at the same
  priority, an older creation time. The row returned is the claimed row: running, owned by the
  caller, one more attempt.
\<close>

theorem claim_takes_best:
  assumes "claim_simulation runner ver cap lease locked t d = (Some r, d')"
  shows "\<exists>s \<in> set (simulations d). r = claim_row runner lease t s \<and> eligible ver cap d s \<and>
           s_id s \<notin> set locked \<and>
           (\<forall>s' \<in> set (simulations d). eligible ver cap d s' \<longrightarrow> s_id s' \<notin> set locked \<longrightarrow>
              s_priority s' < s_priority s \<or>
              s_priority s' = s_priority s \<and> s_created_at s \<le> s_created_at s')"
proof (cases rule: claim_cases [where runner = runner and ver = ver and cap = cap and lease = lease
      and locked = locked and t = t and d = d])
  case 1
  with assms show ?thesis by simp
next
  case (2 s2)
  have "s_priority s' < s_priority s2 \<or> s_priority s' = s_priority s2 \<and> s_created_at s2 \<le> s_created_at s'"
    if "s' \<in> set (simulations d)" "eligible ver cap d s'" "s_id s' \<notin> set locked" for s'
    using 2(5) that by (auto simp: less_eq_prod_def)
  with 2 assms show ?thesis by auto
qed

text \<open>
  The autoscaler and the claim agree: the eligible depth the KEDA trigger counts is positive
  exactly when a claim made at that moment (with no row locked) gets a simulation.
\<close>

lemma eligible_depth_iff_claim:
  "0 < length (eligible_simulations ver cap d) \<longleftrightarrow>
     fst (claim_simulation runner ver cap lease [] t d) \<noteq> None"
  by (auto simp: claim_simulation_def split: list.splits)

text \<open>
  The reaper handles exactly the expired leases: the two counts it returns add up to the
  number of running rows whose lease has passed; afterwards none is left; a row with an attempt
  left is queued again without owner or lease, a row without one is failed with the reason.
\<close>

lemma reap_handles_all_expired:
  "fst (fst (reap_expired_leases t d)) + snd (fst (reap_expired_leases t d)) =
     count_where (expired t) (simulations d) \<and>
   count_where (expired t) (simulations (snd (reap_expired_leases t d))) = 0 \<and>
   simulations (snd (reap_expired_leases t d)) =
     map (\<lambda>s. if \<not> expired t s then s
              else if s_attempts s < s_max_attempts s
              then s\<lparr> s_state := ''queued'', s_runner_id := None, s_lease_expires_at := None \<rparr>
              else s\<lparr> s_state := ''failed'', s_error := Some ''lease expired'', s_finished_at := Some t \<rparr>)
       (simulations d)"
proof (intro conjI)
  show "fst (fst (reap_expired_leases t d)) + snd (fst (reap_expired_leases t d)) =
     count_where (expired t) (simulations d)"
    unfolding fst_reap fst_conv snd_conv
    by (subst count_where_disj [symmetric]) (auto intro: count_where_cong)
  have "\<not> expired t (reap_row t s)" for s
    by (simp add: expired_def reap_row_def requeue_row_def expire_row_def)
  then show "count_where (expired t) (simulations (snd (reap_expired_leases t d))) = 0"
    by (auto simp: count_where_eq_0 elim!: in_reap_cases)
  show "simulations (snd (reap_expired_leases t d)) =
     map (\<lambda>s. if \<not> expired t s then s
              else if s_attempts s < s_max_attempts s
              then s\<lparr> s_state := ''queued'', s_runner_id := None, s_lease_expires_at := None \<rparr>
              else s\<lparr> s_state := ''failed'', s_error := Some ''lease expired'', s_finished_at := Some t \<rparr>)
       (simulations d)"
    unfolding simulations_reap upd_where_def
    by (rule map_cong) (simp_all add: reap_row_def requeue_row_def expire_row_def)
qed

text \<open>
  C30. The fence: once the reaper has taken a simulation back from a runner and another runner
  has claimed work, the first runner's late heartbeat and its late finish change nothing and
  report zero rows.
\<close>

theorem reaped_runner_is_fenced:
  assumes "s \<in> set (simulations d)" and "distinct (map s_id (simulations d))"
    and "expired t s" and "r1 \<noteq> r2"
    and "d2 = snd (claim_simulation r2 ver cap lease locked t2 (snd (reap_expired_leases t d)))"
  shows "finish_simulation (s_id s) r1 ok err t3 d2 = (0, d2) \<and>
         renew_lease (s_id s) r1 lease3 t3 d2 = (0, d2)"
proof -
  have no: "\<not> owned_by (s_id s) r1 x" if x: "x \<in> set (simulations d2)" for x
  proof
    assume o: "owned_by (s_id s) r1 x"
    with x assms(4,5) have "x \<in> set (simulations (snd (reap_expired_leases t d)))"
      by (auto dest!: in_claim_kept simp: owned_by_def)
    then show False
    proof (cases rule: in_reap_cases)
      case 1
      with o distinct_map_eqD [OF assms(2) _ assms(1)] assms(3) show False
        by (auto simp: owned_by_def)
    next
      case (2 s0)
      with o show False
        by (simp add: owned_by_def reap_row_def requeue_row_def expire_row_def split: if_splits)
    qed
  qed
  then have "count_where (owned_by (s_id s) r1) (simulations d2) = 0"
    by (simp add: count_where_eq_0)
  with no show ?thesis
    by (simp add: finish_simulation_def renew_lease_def update_state_where_none upd_where_none)
qed

end
