(* ===== verification/Store.thy ===== *)
theory Store
  imports Lifecycle
begin

text \<open>
  \<open>internal/store/store.go\<close>: the row types the API surfaces and the SQL statements behind the
  methods of \<open>Store\<close>, each a function from the statement's context and the database to a result
  and the database after it. The methods themselves, which run one or more of these statements
  over a connection that can fail, are in theory Connection.
\<close>

section \<open>Statement context\<close>

text \<open>
  What a statement draws from Postgres: the transaction time \<open>now()\<close>, a value of
  \<open>gen_random_uuid()\<close>, and the input syntax of type \<open>uuid\<close>, which maps an accepted spelling to
  its canonical text.
\<close>

record stmt_ctx =
  x_now :: int
  x_uuid :: string
  x_uuid_in :: "string \<Rightarrow> string option"

definition int4 :: "int \<Rightarrow> bool" where
  "int4 i \<longleftrightarrow> - (2 ^ 31) \<le> i \<and> i < 2 ^ 31"

section \<open>Row types\<close>

record Result =
  res_ContentHash :: string
  res_Verdict :: string
  res_Metrics :: "json option"
  res_ArtifactURI :: "string option"
  res_ArtifactExpiresAt :: "int option"
  res_CreatedAt :: int

record Simulation =
  sim_ID :: string
  sim_BatchID :: "string option"
  sim_UserID :: string
  sim_EngineVersion :: string
  sim_Priority :: int
  sim_ModelRef :: string
  sim_WeatherRef :: string
  sim_ModelSHA256 :: "string option"
  sim_WeatherSHA256 :: "string option"
  sim_ExtractionSpec :: "json option"
  sim_ContentHash :: "string option"
  sim_State :: string
  sim_RunnerID :: "string option"
  sim_Attempts :: int
  sim_Error :: "string option"
  sim_CreatedAt :: int
  sim_StartedAt :: "int option"
  sim_FinishedAt :: "int option"

record InsertSimulationParams =
  p_BatchID :: "string option"
  p_UserID :: string
  p_EngineVersion :: string
  p_Priority :: int
  p_ModelRef :: string
  p_WeatherRef :: string
  p_ModelSHA256 :: "string option"
  p_WeatherSHA256 :: "string option"
  p_ExtractionSpec :: "json option"
  p_ContentHash :: string
  p_State :: string

record Batch =
  bat_ID :: string
  bat_UserID :: string
  bat_State :: string
  bat_Total :: int
  bat_Succeeded :: int
  bat_Failed :: int
  bat_IdempotencyKey :: "string option"
  bat_CreatedAt :: int

text \<open>The projections \<open>simulationColumns\<close> and \<open>batchColumns\<close> scanned into the row types.\<close>

definition scanSimulation :: "simulations_row \<Rightarrow> Simulation" where
  "scanSimulation s =
     \<lparr> sim_ID = s_id s, sim_BatchID = s_batch_id s, sim_UserID = s_user_id s,
       sim_EngineVersion = s_engine_version s, sim_Priority = s_priority s,
       sim_ModelRef = s_model_ref s, sim_WeatherRef = s_weather_ref s,
       sim_ModelSHA256 = s_model_sha256 s, sim_WeatherSHA256 = s_weather_sha256 s,
       sim_ExtractionSpec = s_extraction_spec s, sim_ContentHash = s_content_hash s,
       sim_State = s_state s, sim_RunnerID = s_runner_id s, sim_Attempts = s_attempts s,
       sim_Error = s_error s, sim_CreatedAt = s_created_at s, sim_StartedAt = s_started_at s,
       sim_FinishedAt = s_finished_at s \<rparr>"

definition scanBatch :: "batches_row \<Rightarrow> Batch" where
  "scanBatch b =
     \<lparr> bat_ID = b_id b, bat_UserID = b_user_id b, bat_State = b_state b, bat_Total = b_total b,
       bat_Succeeded = b_succeeded b, bat_Failed = b_failed b,
       bat_IdempotencyKey = b_idempotency_key b, bat_CreatedAt = b_created_at b \<rparr>"

definition scanResult :: "results_row \<Rightarrow> Result" where
  "scanResult r =
     \<lparr> res_ContentHash = r_content_hash r, res_Verdict = r_verdict r, res_Metrics = Some (r_metrics r),
       res_ArtifactURI = r_artifact_uri r, res_ArtifactExpiresAt = r_artifact_expires_at r,
       res_CreatedAt = r_created_at r \<rparr>"

section \<open>Statements\<close>

definition bad_uuid :: error where
  "bad_uuid = ErrMsg ''invalid input syntax for type uuid''"

definition select_key :: "string \<Rightarrow> stmt_ctx \<Rightarrow> db \<Rightarrow> string res \<times> db" where
  "select_key keyHash x d =
     (case query_row (\<lambda>k. k_key_hash k = keyHash \<and> k_revoked_at k = None) (api_keys d) of
        None \<Rightarrow> (Inl ErrNotFound, d)
      | Some k \<Rightarrow> (Inr (k_user_id k), d))"

definition select_result :: "string \<Rightarrow> stmt_ctx \<Rightarrow> db \<Rightarrow> Result res \<times> db" where
  "select_result hash x d =
     (case query_row (\<lambda>r. r_content_hash r = hash) (results d) of
        None \<Rightarrow> (Inl ErrNotFound, d)
      | Some r \<Rightarrow> (Inr (scanResult r), d))"

definition exists_result :: "string \<Rightarrow> stmt_ctx \<Rightarrow> db \<Rightarrow> bool res \<times> db" where
  "exists_result hash x d = (Inr (query_row (\<lambda>r. r_content_hash r = hash) (results d) \<noteq> None), d)"

definition select_simulation :: "string \<Rightarrow> stmt_ctx \<Rightarrow> db \<Rightarrow> Simulation res \<times> db" where
  "select_simulation sid x d =
     (case x_uuid_in x sid of
        None \<Rightarrow> (Inl bad_uuid, d)
      | Some u \<Rightarrow>
          (case query_row (\<lambda>s. s_id s = u) (simulations d) of
             None \<Rightarrow> (Inl ErrNotFound, d)
           | Some s \<Rightarrow> (Inr (scanSimulation s), d)))"

definition nullableJSON :: "json option \<Rightarrow> json option" where
  "nullableJSON b = (case b of None \<Rightarrow> None | Some j \<Rightarrow> Some j)"

text \<open>
  The row an \<open>INSERT\<close> writes: the given columns, defaults for the rest. \<open>u\<close> and \<open>b\<close> are the
  canonical user and batch ids, \<open>fin\<close> the \<open>finished_at\<close> argument.
\<close>

definition new_sim_row ::
  "InsertSimulationParams \<Rightarrow> string \<Rightarrow> string option \<Rightarrow> int option \<Rightarrow> stmt_ctx \<Rightarrow> simulations_row" where
  "new_sim_row p u b fin x =
     \<lparr> s_id = x_uuid x, s_batch_id = b, s_user_id = u, s_engine_version = p_EngineVersion p,
       s_priority = p_Priority p, s_model_ref = p_ModelRef p, s_weather_ref = p_WeatherRef p,
       s_model_sha256 = p_ModelSHA256 p, s_weather_sha256 = p_WeatherSHA256 p,
       s_extraction_spec = nullableJSON (p_ExtractionSpec p), s_content_hash = Some (p_ContentHash p),
       s_state = p_State p, s_runner_id = None, s_lease_expires_at = None, s_attempts = 0,
       s_max_attempts = 3, s_error = None, s_created_at = x_now x, s_started_at = None,
       s_finished_at = fin \<rparr>"

text \<open>
  The \<open>INSERT\<close> with the table's constraints: argument types, the state \<open>CHECK\<close>, the primary key
  and the two foreign keys. A violated constraint leaves the table as it was.
\<close>

definition insert_simulation ::
  "InsertSimulationParams \<Rightarrow> int option \<Rightarrow> stmt_ctx \<Rightarrow> db \<Rightarrow> string res \<times> db" where
  "insert_simulation p fin x d =
     (case x_uuid_in x (p_UserID p) of
        None \<Rightarrow> (Inl bad_uuid, d)
      | Some u \<Rightarrow>
          (case (case p_BatchID p of None \<Rightarrow> Some None | Some b \<Rightarrow> map_option Some (x_uuid_in x b)) of
             None \<Rightarrow> (Inl bad_uuid, d)
           | Some b \<Rightarrow>
               if \<not> int4 (p_Priority p) then (Inl (ErrMsg ''integer out of range''), d)
               else if \<not> List.member sim_states (p_State p)
                 then (Inl (ErrMsg ''violates check constraint''), d)
               else if query_row (\<lambda>s. s_id s = x_uuid x) (simulations d) \<noteq> None
                 then (Inl (ErrMsg ''duplicate key value violates unique constraint''), d)
               else if query_row (\<lambda>r. u_id r = u) (users d) = None \<or>
                       (case b of None \<Rightarrow> False | Some i \<Rightarrow> query_row (\<lambda>r. b_id r = i) (batches d) = None)
                 then (Inl (ErrMsg ''violates foreign key constraint''), d)
               else (Inr (x_uuid x), insert_row (new_sim_row p u b fin x) d)))"

definition count_batch_sims :: "string \<Rightarrow> stmt_ctx \<Rightarrow> db \<Rightarrow> int res \<times> db" where
  "count_batch_sims batchID x d =
     (case x_uuid_in x batchID of
        None \<Rightarrow> (Inl bad_uuid, d)
      | Some i \<Rightarrow> (Inr (int (count_where (\<lambda>s. s_batch_id s = Some i) (simulations d))), d))"

definition ordered_batch_sims :: "string \<Rightarrow> db \<Rightarrow> simulations_row list" where
  "ordered_batch_sims i d = sort_key (\<lambda>s. (s_created_at s, s_id s)) (batch_sims i (simulations d))"

definition select_batch_sims :: "string \<Rightarrow> int \<Rightarrow> int \<Rightarrow> stmt_ctx \<Rightarrow> db \<Rightarrow> Simulation list res \<times> db" where
  "select_batch_sims batchID limit offset x d =
     (case x_uuid_in x batchID of
        None \<Rightarrow> (Inl bad_uuid, d)
      | Some i \<Rightarrow>
          if limit < 0 \<or> offset < 0 then (Inl (ErrMsg ''LIMIT or OFFSET must not be negative''), d)
          else (Inr (map scanSimulation (take (nat limit) (drop (nat offset) (ordered_batch_sims i d)))), d))"

definition select_batch :: "(batches_row \<Rightarrow> bool) \<Rightarrow> db \<Rightarrow> Batch res \<times> db" where
  "select_batch P d =
     (case query_row P (batches d) of None \<Rightarrow> (Inl ErrNotFound, d) | Some b \<Rightarrow> (Inr (scanBatch b), d))"

definition select_batch_by_id :: "string \<Rightarrow> stmt_ctx \<Rightarrow> db \<Rightarrow> Batch res \<times> db" where
  "select_batch_by_id bid x d =
     (case x_uuid_in x bid of None \<Rightarrow> (Inl bad_uuid, d) | Some i \<Rightarrow> select_batch (\<lambda>b. b_id b = i) d)"

definition select_batch_by_key :: "string \<Rightarrow> string \<Rightarrow> stmt_ctx \<Rightarrow> db \<Rightarrow> Batch res \<times> db" where
  "select_batch_by_key userID key x d =
     (case x_uuid_in x userID of
        None \<Rightarrow> (Inl bad_uuid, d)
      | Some u \<Rightarrow> select_batch (\<lambda>b. b_user_id b = u \<and> b_idempotency_key b = Some key) d)"

definition insert_batch ::
  "string \<Rightarrow> int \<Rightarrow> string option \<Rightarrow> stmt_ctx \<Rightarrow> db \<Rightarrow> string res \<times> db" where
  "insert_batch userID n key x d =
     (case x_uuid_in x userID of
        None \<Rightarrow> (Inl bad_uuid, d)
      | Some u \<Rightarrow>
          if \<not> int4 n then (Inl (ErrMsg ''integer out of range''), d)
          else if query_row (\<lambda>b. b_id b = x_uuid x) (batches d) \<noteq> None \<or>
                  key \<noteq> None \<and>
                  query_row (\<lambda>b. b_user_id b = u \<and> b_idempotency_key b = key) (batches d) \<noteq> None
            then (Inl (ErrMsg ''duplicate key value violates unique constraint''), d)
          else if query_row (\<lambda>r. u_id r = u) (users d) = None
            then (Inl (ErrMsg ''violates foreign key constraint''), d)
          else (Inr (x_uuid x),
                d\<lparr> batches := batches d @
                     [\<lparr> b_id = x_uuid x, b_user_id = u, b_state = ''expanding'', b_total = n,
                        b_succeeded = 0, b_failed = 0, b_idempotency_key = key, b_created_at = x_now x \<rparr>] \<rparr>))"

text \<open>
  \<open>ResyncStuckBatches\<close>: the sub-select groups the simulations that belong to a batch; a batch
  with no simulation has no group and is never updated.
\<close>

definition stuck :: "simulations_row list \<Rightarrow> batches_row \<Rightarrow> bool" where
  "stuck t b \<longleftrightarrow>
     (let sub = batch_sims (b_id b) t in
      sub \<noteq> [] \<and>
      (b_state b = ''expanding'' \<or> b_state b = ''queued'' \<or> b_state b = ''running'') \<and>
      b_total b > 0 \<and> int (length sub) \<ge> b_total b \<and>
      count_where (\<lambda>s. s_state s = ''queued'' \<or> s_state s = ''running'') sub = 0)"

definition resync_row :: "simulations_row list \<Rightarrow> batches_row \<Rightarrow> batches_row" where
  "resync_row t b =
     (let sub = batch_sims (b_id b) t in
      b\<lparr> b_succeeded := int (count_where (\<lambda>s. s_state s = ''succeeded'') sub),
         b_failed := int (count_where (\<lambda>s. s_state s = ''failed'') sub),
         b_state := ''done'' \<rparr>)"

definition resync_stuck_batches :: "db \<Rightarrow> nat \<times> db" where
  "resync_stuck_batches d =
     (count_where (stuck (simulations d)) (batches d),
      d\<lparr> batches := upd_where (stuck (simulations d)) (resync_row (simulations d)) (batches d) \<rparr>)"

section \<open>Lemmas\<close>

lemmas select_defs =
  select_key_def select_result_def exists_result_def select_simulation_def count_batch_sims_def
  select_batch_sims_def select_batch_def select_batch_by_id_def select_batch_by_key_def

text \<open>Queries leave the database alone.\<close>

lemma select_frame [simp]:
  "snd (select_key h x d) = d" "snd (select_result h x d) = d" "snd (exists_result h x d) = d"
  "snd (select_simulation i x d) = d" "snd (count_batch_sims i x d) = d"
  "snd (select_batch_sims i l ofs x d) = d" "snd (select_batch_by_id i x d) = d"
  "snd (select_batch_by_key u k x d) = d"
  by (auto simp: select_defs split: option.splits)

lemma insert_simulation_cases:
  obtains e where "insert_simulation p fin x d = (Inl e, d)" and "e \<noteq> ErrNotFound"
  | u b where "insert_simulation p fin x d = (Inr (x_uuid x), insert_row (new_sim_row p u b fin x) d)"
    and "x_uuid_in x (p_UserID p) = Some u"
    and "(case p_BatchID p of None \<Rightarrow> b = None | Some i \<Rightarrow> \<exists>j. x_uuid_in x i = Some j \<and> b = Some j)"
    and "p_State p \<in> set sim_states" and "x_uuid x \<notin> s_id ` set (simulations d)"
    and "u \<in> u_id ` set (users d)" and "\<forall>i. b = Some i \<longrightarrow> i \<in> b_id ` set (batches d)"
proof -
  let ?bc = "case p_BatchID p of None \<Rightarrow> Some None | Some b \<Rightarrow> map_option Some (x_uuid_in x b)"
  consider "x_uuid_in x (p_UserID p) = None"
    | u where "x_uuid_in x (p_UserID p) = Some u" "?bc = None"
    | u b where "x_uuid_in x (p_UserID p) = Some u" "?bc = Some b"
    by (cases "x_uuid_in x (p_UserID p)"; cases ?bc) auto
  then show ?thesis
  proof cases
    case 1
    then show ?thesis using that(1) [of bad_uuid] by (simp add: insert_simulation_def bad_uuid_def)
  next
    case 2
    then show ?thesis using that(1) [of bad_uuid] by (simp add: insert_simulation_def bad_uuid_def)
  next
    case (3 u b)
    let ?ok = "int4 (p_Priority p) \<and> p_State p \<in> set sim_states \<and>
      query_row (\<lambda>s. s_id s = x_uuid x) (simulations d) = None \<and>
      query_row (\<lambda>r. u_id r = u) (users d) \<noteq> None \<and>
      (\<forall>i. b = Some i \<longrightarrow> query_row (\<lambda>r. b_id r = i) (batches d) \<noteq> None)"
    show ?thesis
    proof (cases ?ok)
      case True
      then have "insert_simulation p fin x d = (Inr (x_uuid x), insert_row (new_sim_row p u b fin x) d)"
        using 3 by (auto simp: insert_simulation_def split: option.splits)
      then show ?thesis
        using 3 True by (intro that(2) [of u b]) (auto simp: query_row_None split: option.splits)
    next
      case False
      then have "\<exists>m. insert_simulation p fin x d = (Inl (ErrMsg m), d)"
        using 3 by (auto simp: insert_simulation_def split: option.splits)
      then show ?thesis using that(1) by blast
    qed
  qed
qed

lemma insert_batch_cases:
  obtains e where "insert_batch userID n key x d = (Inl e, d)" and "e \<noteq> ErrNotFound"
  | u where "insert_batch userID n key x d =
       (Inr (x_uuid x),
        d\<lparr> batches := batches d @
             [\<lparr> b_id = x_uuid x, b_user_id = u, b_state = ''expanding'', b_total = n,
                b_succeeded = 0, b_failed = 0, b_idempotency_key = key, b_created_at = x_now x \<rparr>] \<rparr>)"
    and "x_uuid_in x userID = Some u" and "x_uuid x \<notin> b_id ` set (batches d)"
    and "key = None \<or> (\<forall>b \<in> set (batches d). \<not> (b_user_id b = u \<and> b_idempotency_key b = key))"
    and "u \<in> u_id ` set (users d)"
proof (cases "x_uuid_in x userID")
  case None
  then show ?thesis using that(1) [of bad_uuid] by (simp add: insert_batch_def bad_uuid_def)
next
  case (Some u)
  show ?thesis
  proof (cases "int4 n \<and> query_row (\<lambda>b. b_id b = x_uuid x) (batches d) = None \<and>
      (key = None \<or> query_row (\<lambda>b. b_user_id b = u \<and> b_idempotency_key b = key) (batches d) = None) \<and>
      query_row (\<lambda>r. u_id r = u) (users d) \<noteq> None")
    case True
    then show ?thesis
      using Some by (intro that(2) [of u]) (auto simp: insert_batch_def query_row_None)
  next
    case False
    then have "\<exists>m. insert_batch userID n key x d = (Inl (ErrMsg m), d)"
      using Some by (auto simp: insert_batch_def)
    then show ?thesis using that(1) by blast
  qed
qed


subsection \<open>The resync sweep\<close>

lemma pending_eq_0_done:
  assumes "\<forall>s \<in> set t. s_state s \<in> set sim_states"
    and "count_where (\<lambda>s. s_state s = ''queued'' \<or> s_state s = ''running'') t = 0"
  shows "count_where (\<lambda>s. s_state s = ''succeeded'' \<or> s_state s = ''failed'') t = length t"
  using assms by (induction t) (auto simp: sim_states_def split: if_splits)

lemma stuck_resync_eq_rollup:
  assumes "\<forall>s \<in> set t. s_state s \<in> set sim_states" and "stuck t b"
  shows "resync_row t b = rollup t b"
proof -
  have "\<forall>s \<in> set (batch_sims (b_id b) t). s_state s \<in> set sim_states"
    using assms(1) by (simp add: batch_sims_def)
  moreover have "count_where (\<lambda>s. s_state s = ''queued'' \<or> s_state s = ''running'') (batch_sims (b_id b) t) = 0"
    and le: "b_total b \<le> int (length (batch_sims (b_id b) t))" "0 < b_total b"
    using assms(2) by (auto simp: stuck_def Let_def)
  ultimately have "count_where (\<lambda>s. s_state s = ''succeeded'' \<or> s_state s = ''failed'') (batch_sims (b_id b) t)
      = length (batch_sims (b_id b) t)"
    by (intro pending_eq_0_done)
  with le show ?thesis by (simp add: resync_row_def rollup_def Let_def)
qed

lemma rolled_up_not_stuck:
  assumes "\<forall>s \<in> set t. s_state s \<in> set sim_states" and "rollup t b = b"
  shows "\<not> stuck t b"
proof
  assume s: "stuck t b"
  then have "b_state (rollup t b) = ''done''"
    using stuck_resync_eq_rollup [OF assms(1) s, symmetric] by (simp add: resync_row_def Let_def)
  with assms(2) s show False by (simp add: stuck_def Let_def)
qed

lemma resync_frame [simp]:
  "simulations (snd (resync_stuck_batches d)) = simulations d"
  "users (snd (resync_stuck_batches d)) = users d" "results (snd (resync_stuck_batches d)) = results d"
  "api_keys (snd (resync_stuck_batches d)) = api_keys d"
  by (simp_all add: resync_stuck_batches_def)

subsection \<open>The superseded trigger\<close>

text \<open>
  \<open>Migrate\<close> runs every script at every start, so from the end of script 0003 to the end of script
  0004 the trigger of 0003 is the one that fires. It writes the true counts, but keeps a batch
  \<open>expanding\<close> (a complete one too) and keeps its state while simulations wait. Its traces do not
  last: the next firing of the present trigger forgets them, and a finished batch it left behind is
  put right by one sweep.
\<close>

definition rollup_0003 :: "simulations_row list \<Rightarrow> batches_row \<Rightarrow> batches_row" where
  "rollup_0003 t b =
     (let sub = batch_sims (b_id b) t;
          total = int (length sub);
          succeeded = int (count_where (\<lambda>s. s_state s = ''succeeded'') sub);
          failed = int (count_where (\<lambda>s. s_state s = ''failed'') sub);
          fin = int (count_where (\<lambda>s. s_state s = ''succeeded'' \<or> s_state s = ''failed'') sub);
          running = int (count_where (\<lambda>s. s_state s = ''running'') sub)
      in b\<lparr> b_succeeded := succeeded, b_failed := failed,
            b_state := (if b_state b = ''expanding'' then ''expanding''
                        else if total > 0 \<and> fin \<ge> total then ''done''
                        else if running > 0 then ''running''
                        else b_state b) \<rparr>)"

lemma superseded_trigger_forgotten: "rollup t' (rollup_0003 t b) = rollup t' b"
  by (simp add: rollup_def rollup_0003_def Let_def)

lemma superseded_trigger_stale:
  assumes "b_state b = ''expanding''" and "b_total b \<le> int (length (batch_sims (b_id b) t))"
  shows "b_state (rollup_0003 t b) = ''expanding'' \<and> b_state (rollup t b) \<noteq> ''expanding''"
  using assms by (simp add: rollup_def rollup_0003_def Let_def)

lemma superseded_trigger_repaired:
  assumes "0 < b_total b" and "b_total b \<le> int (length (batch_sims (b_id b) t))"
    and "\<forall>s \<in> set (batch_sims (b_id b) t). terminal s"
  shows "(if stuck t (rollup_0003 t b) then resync_row t (rollup_0003 t b) else rollup_0003 t b) = rollup t b"
proof -
  let ?m = "batch_sims (b_id b) t"
  have "count_where (\<lambda>s. s_state s = ''queued'' \<or> s_state s = ''running'') ?m = 0"
    using assms(3) by (auto simp: count_where_eq_0 terminal_def)
  moreover have "count_where (\<lambda>s. s_state s = ''succeeded'' \<or> s_state s = ''failed'') ?m = length ?m"
    using assms(3) by (simp add: count_where_def filter_id_conv terminal_def)
  moreover have "?m \<noteq> []" using assms(1,2) by auto
  ultimately show ?thesis
    using assms(1,2) by (auto simp: rollup_0003_def rollup_def resync_row_def stuck_def Let_def)
qed

section \<open>Properties\<close>

text \<open>
  The resync sweep never disagrees with the trigger: every row it rewrites becomes what the
  trigger would have computed, and where the trigger has kept the batches up to date the sweep
  rewrites nothing at all.
\<close>

lemma resync_agrees_with_trigger:
  assumes "\<forall>s \<in> set (simulations d). s_state s \<in> set sim_states"
  shows "batches (snd (resync_stuck_batches d)) =
           map (\<lambda>b. if stuck (simulations d) b then rollup (simulations d) b else b) (batches d) \<and>
         (rollup_ok d \<longrightarrow> resync_stuck_batches d = (0, d))"
proof (intro conjI impI)
  show "batches (snd (resync_stuck_batches d)) =
          map (\<lambda>b. if stuck (simulations d) b then rollup (simulations d) b else b) (batches d)"
    using stuck_resync_eq_rollup [OF assms] by (auto simp: resync_stuck_batches_def upd_where_def)
next
  assume "rollup_ok d"
  then have "\<not> stuck (simulations d) b" if "b \<in> set (batches d)" for b
    using rolled_up_not_stuck [OF assms] that by (auto simp: rollup_ok_def)
  then show "resync_stuck_batches d = (0, d)"
    by (simp add: resync_stuck_batches_def count_where_eq_0 upd_where_none)
qed

text \<open>
  The sweep repairs a missed rollup whatever the counters say: a batch with a positive total
  whose simulations are all present and all finished is \<open>done\<close> after one sweep, its counts are
  the real ones if it was not \<open>done\<close> before, and no stuck batch is left.
\<close>

lemma resync_repairs_stuck:
  assumes "b \<in> set (batches d)"
    and "b_state b \<in> {''expanding'', ''queued'', ''running'', ''done''}" and "b_total b > 0"
    and "int (length (batch_sims (b_id b) (simulations d))) \<ge> b_total b"
    and "\<forall>s \<in> set (batch_sims (b_id b) (simulations d)). terminal s"
  shows "(\<exists>b' \<in> set (batches (snd (resync_stuck_batches d))).
            b_id b' = b_id b \<and> b_state b' = ''done'' \<and>
            (b_state b \<noteq> ''done'' \<longrightarrow>
              b_succeeded b' + b_failed b' = int (length (batch_sims (b_id b) (simulations d))))) \<and>
         count_where (stuck (simulations d)) (batches (snd (resync_stuck_batches d))) = 0"
proof (intro conjI)
  let ?t = "simulations d"
  let ?sub = "batch_sims (b_id b) ?t"
  have pend: "count_where (\<lambda>s. s_state s = ''queued'' \<or> s_state s = ''running'') ?sub = 0"
    using assms(5) by (auto simp: count_where_eq_0 terminal_def)
  have len: "count_where (\<lambda>s. s_state s = ''succeeded'') ?sub + count_where (\<lambda>s. s_state s = ''failed'') ?sub
      = length ?sub"
    using assms(5) by (induction ?sub rule: rev_induct; subst count_where_disj [symmetric])
      (auto simp: terminal_def count_where_def filter_id_conv)
  show "\<exists>b' \<in> set (batches (snd (resync_stuck_batches d))).
          b_id b' = b_id b \<and> b_state b' = ''done'' \<and>
          (b_state b \<noteq> ''done'' \<longrightarrow> b_succeeded b' + b_failed b' = int (length ?sub))"
  proof (cases "b_state b = ''done''")
    case True
    then have "\<not> stuck ?t b" by (simp add: stuck_def Let_def)
    with assms(1) True show ?thesis
      by (intro bexI [of _ b]) (auto simp: resync_stuck_batches_def set_upd_where image_iff)
  next
    case False
    have "?sub \<noteq> []" using assms(3,4) by auto
    with False assms(2,3,4) pend have "stuck ?t b" by (auto simp: stuck_def Let_def)
    then have "resync_row ?t b \<in> set (batches (snd (resync_stuck_batches d)))"
      using assms(1) by (auto simp: resync_stuck_batches_def set_upd_where)
    with len show ?thesis
      by (intro bexI [of _ "resync_row ?t b"]) (auto simp: resync_row_def Let_def)
  qed
  have "\<not> stuck ?t (resync_row ?t b')" for b'
    by (simp add: stuck_def resync_row_def Let_def)
  then show "count_where (stuck ?t) (batches (snd (resync_stuck_batches d))) = 0"
    by (auto simp: count_where_eq_0 resync_stuck_batches_def elim!: in_upd_whereE)
qed

end
