(* ===== verification/System.thy ===== *)
theory System
  imports Store
begin

text \<open>
  The database as the apiserver lives with it: every participant that writes to it (runners,
  other API requests, the reaper, the portal) as an \<open>action\<close>, the databases these reach from the
  empty one, the invariant all of them keep, and what follows from it about batch counts.
\<close>

section \<open>Actions on the database\<close>

datatype action =
    AClaim string string int int "string list"
  | ARenew string string int
  | AFinish string string bool "string option"
  | ABackfill string string string string
  | AUpsert string string json "string option" "int option"
  | AReap
  | AResync
  | AInsert InsertSimulationParams "int option"
  | ACreate string int "string option"
  | ANewUser string
  | ANewKey string string string
  | ARevoke string

text \<open>The Runner's result upsert (\<open>runner/synergy_runner/db.py\<close>); \<open>ttl\<close> in days.\<close>

definition upsert_result ::
  "string \<Rightarrow> string \<Rightarrow> json \<Rightarrow> string option \<Rightarrow> int option \<Rightarrow> int \<Rightarrow> db \<Rightarrow> db" where
  "upsert_result h v m uri ttl t d =
     (let expires = map_option (\<lambda>days. t + usec (days * 86400)) ttl in
      if query_row (\<lambda>r. r_content_hash r = h) (results d) \<noteq> None
      then d\<lparr> results := upd_where (\<lambda>r. r_content_hash r = h)
               (\<lambda>r. r\<lparr> r_verdict := v, r_metrics := m, r_artifact_uri := uri,
                       r_artifact_expires_at := expires \<rparr>) (results d) \<rparr>
      else d\<lparr> results := results d @
               [\<lparr> r_content_hash = h, r_verdict = v, r_metrics = m, r_artifact_uri = uri,
                  r_artifact_expires_at = expires, r_created_at = t \<rparr>] \<rparr>)"

text \<open>
  A simulation of a batch is inserted for the batch's own user, and a batch is created with a
  positive total: what \<open>handleCreateBatch\<close> and the expander ensure for every request.
\<close>

definition insert_ok :: "InsertSimulationParams \<Rightarrow> stmt_ctx \<Rightarrow> db \<Rightarrow> bool" where
  "insert_ok p x d \<longleftrightarrow>
     (p_State p = ''queued'' \<or> p_State p = ''succeeded'') \<and>
     (case p_BatchID p of
        None \<Rightarrow> True
      | Some i \<Rightarrow> list_ex (\<lambda>b. x_uuid_in x i = Some (b_id b) \<and> x_uuid_in x (p_UserID p) = Some (b_user_id b))
                   (batches d))"

fun perform :: "stmt_ctx \<Rightarrow> action \<Rightarrow> db \<Rightarrow> db" where
  "perform x (AClaim runner ver cap lease locked) d =
     snd (claim_simulation runner ver cap lease locked (x_now x) d)"
| "perform x (ARenew sid runner lease) d = snd (renew_lease sid runner lease (x_now x) d)"
| "perform x (AFinish sid runner ok err) d = snd (finish_simulation sid runner ok err (x_now x) d)"
| "perform x (ABackfill sid m w h) d = backfill_hashes sid m w h d"
| "perform x (AUpsert h v m uri ttl) d = upsert_result h v m uri ttl (x_now x) d"
| "perform x AReap d = snd (reap_expired_leases (x_now x) d)"
| "perform x AResync d = snd (resync_stuck_batches d)"
| "perform x (AInsert p fin) d = (if insert_ok p x d then snd (insert_simulation p fin x d) else d)"
| "perform x (ACreate u n key) d = (if 0 < n then snd (insert_batch u n key x d) else d)"
| "perform x (ANewUser email) d =
     (if query_row (\<lambda>r. u_id r = x_uuid x \<or> u_email r = email) (users d) \<noteq> None then d
      else d\<lparr> users := users d @ [\<lparr> u_id = x_uuid x, u_email = email \<rparr>] \<rparr>)"
| "perform x (ANewKey u h name) d =
     (if query_row (\<lambda>r. u_id r = u) (users d) = None \<or>
         query_row (\<lambda>k. k_id k = x_uuid x \<or> k_key_hash k = h) (api_keys d) \<noteq> None then d
      else d\<lparr> api_keys := api_keys d @
               [\<lparr> k_id = x_uuid x, k_user_id = u, k_key_hash = h, k_name = name,
                  k_created_at = x_now x, k_revoked_at = None \<rparr>] \<rparr>)"
| "perform x (ARevoke i) d =
     d\<lparr> api_keys := upd_where (\<lambda>k. k_id k = i \<and> k_revoked_at k = None)
          (\<lambda>k. k\<lparr> k_revoked_at := Some (x_now x) \<rparr>) (api_keys d) \<rparr>"

inductive reachable :: "db \<Rightarrow> bool" where
  reachable_init: "reachable empty_db"
| reachable_step: "reachable d \<Longrightarrow> reachable (perform x a d)"

section \<open>The invariant\<close>

definition keys_ok :: "db \<Rightarrow> bool" where
  "keys_ok d \<longleftrightarrow>
     distinct (map u_id (users d)) \<and> distinct (map k_key_hash (api_keys d)) \<and>
     distinct (map b_id (batches d)) \<and> distinct (map r_content_hash (results d)) \<and>
     distinct (map s_id (simulations d))"

definition refs_ok :: "db \<Rightarrow> bool" where
  "refs_ok d \<longleftrightarrow>
     (\<forall>k \<in> set (api_keys d). k_user_id k \<in> u_id ` set (users d)) \<and>
     (\<forall>b \<in> set (batches d). b_user_id b \<in> u_id ` set (users d) \<and> 0 < b_total b) \<and>
     (\<forall>s \<in> set (simulations d). s_user_id s \<in> u_id ` set (users d) \<and>
        (\<forall>i. s_batch_id s = Some i \<longrightarrow> (i, s_user_id s) \<in> (\<lambda>b. (b_id b, b_user_id b)) ` set (batches d)))"

text \<open>Migration 0005: an idempotency key is unique per user.\<close>

definition idem_ok :: "db \<Rightarrow> bool" where
  "idem_ok d \<longleftrightarrow>
     distinct (map (\<lambda>b. (b_user_id b, b_idempotency_key b)) (filter (\<lambda>b. b_idempotency_key b \<noteq> None) (batches d)))"

definition db_inv :: "db \<Rightarrow> bool" where
  "db_inv d \<longleftrightarrow> keys_ok d \<and> refs_ok d \<and> idem_ok d \<and> (\<forall>s \<in> set (simulations d). lifecycle_ok s) \<and> rollup_ok d"

section \<open>Lemmas: every action keeps the invariant\<close>

definition batch_frame :: "batches_row \<Rightarrow> string \<times> string \<times> int \<times> string option" where
  "batch_frame b = (b_id b, b_user_id b, b_total b, b_idempotency_key b)"

lemma batch_frame_rollup [simp]: "batch_frame (rollup t b) = batch_frame b"
  by (simp add: batch_frame_def)

lemma batch_frame_resync [simp]: "batch_frame (resync_row t b) = batch_frame b"
  by (simp add: batch_frame_def resync_row_def Let_def)

lemma via_batch_frame:
  "map b_id bs = map fst (map batch_frame bs)"
  "(\<lambda>b. (b_id b, b_user_id b)) ` set bs = (\<lambda>f. (fst f, fst (snd f))) ` set (map batch_frame bs)"
  "(\<forall>b \<in> set bs. b_user_id b \<in> U \<and> 0 < b_total b) =
     (\<forall>f \<in> set (map batch_frame bs). fst (snd f) \<in> U \<and> 0 < fst (snd (snd f)))"
  "map (\<lambda>b. (b_user_id b, b_idempotency_key b)) (filter (\<lambda>b. b_idempotency_key b \<noteq> None) bs) =
     map (\<lambda>f. (fst (snd f), snd (snd (snd f)))) (filter (\<lambda>f. snd (snd (snd f)) \<noteq> None) (map batch_frame bs))"
  by (simp_all add: batch_frame_def filter_map comp_def image_image)

definition sim_frame :: "simulations_row \<Rightarrow> string \<times> string \<times> string option" where
  "sim_frame s = (s_id s, s_user_id s, s_batch_id s)"

lemma sims_ids_via_frame: "map s_id t = map fst (map sim_frame t)"
  by (simp add: sim_frame_def)

lemma sims_refs_via_frame:
  "(\<forall>s \<in> set t. s_user_id s \<in> U \<and> (\<forall>i. s_batch_id s = Some i \<longrightarrow> (i, s_user_id s) \<in> B)) =
   (\<forall>f \<in> set (map sim_frame t). fst (snd f) \<in> U \<and> (\<forall>i. snd (snd f) = Some i \<longrightarrow> (i, fst (snd f)) \<in> B))"
  by (simp add: sim_frame_def)

lemma sim_frame_steps: "list_all2 sim_step t t' \<Longrightarrow> map sim_frame t' = map sim_frame t"
  by (induction rule: list_all2_induct) (auto simp: sim_frame_def dest: sim_step_frame)

text \<open>
  A statement that only moves simulations along their life cycle and recomputes batches keeps
  the invariant.
\<close>

lemma db_inv_transfer:
  assumes inv: "db_inv d" and sims: "list_all2 sim_step (simulations d) (simulations d')"
    and bs: "map batch_frame (batches d') = map batch_frame (batches d)"
    and same: "users d' = users d" "api_keys d' = api_keys d" "results d' = results d"
    and roll: "rollup_ok d'"
  shows "db_inv d'"
proof -
  note sf = sim_frame_steps [OF sims]
  have "keys_ok d'"
    using inv unfolding db_inv_def keys_ok_def sims_ids_via_frame via_batch_frame(1) same sf bs by blast
  moreover have "refs_ok d'"
    using inv unfolding db_inv_def refs_ok_def sims_refs_via_frame via_batch_frame(2,3) same sf bs by blast
  moreover have "idem_ok d'"
    using inv unfolding db_inv_def idem_ok_def via_batch_frame(4) bs by blast
  moreover have "\<forall>s' \<in> set (simulations d'). lifecycle_ok s'"
  proof
    fix s' assume "s' \<in> set (simulations d')"
    then obtain s where "s \<in> set (simulations d)" and "sim_step s s'"
      using sims by (metis list_all2_conv_all_nth in_set_conv_nth)
    with inv show "lifecycle_ok s'" by (auto simp: db_inv_def intro: sim_step_lifecycle_ok)
  qed
  ultimately show ?thesis using roll by (simp add: db_inv_def)
qed

lemma sims_step_same_length: "sims_step t t' \<Longrightarrow> length t' = length t \<Longrightarrow> list_all2 sim_step t t'"
  by (simp add: sims_step_def)

lemma claim_inv [inv_intros]:
  assumes "db_inv d"
  shows "db_inv (snd (claim_simulation runner ver cap lease locked t d))"
proof (rule db_inv_transfer [OF assms])
  let ?d' = "snd (claim_simulation runner ver cap lease locked t d)"
  have ids: "distinct (map s_id (simulations d))" using assms by (simp add: db_inv_def keys_ok_def)
  show "list_all2 sim_step (simulations d) (simulations ?d')"
    by (rule sims_step_same_length [OF claim_sims_step [OF ids]])
       (auto simp: claim_simulation_def split: list.splits)
  show "rollup_ok ?d'" using assms by (auto simp: db_inv_def intro: claim_rollup_ok)
qed (auto simp: claim_simulation_def batches_update_state_where map_upd_where split: list.splits)

lemma renew_inv [inv_intros]: "db_inv d \<Longrightarrow> db_inv (snd (renew_lease sid runner lease t d))"
  by (rule db_inv_transfer, assumption)
     (auto simp: db_inv_def renew_rollup_ok intro!: sims_step_same_length [OF renew_sims_step],
      auto simp: renew_lease_def)

lemma finish_inv [inv_intros]: "db_inv d \<Longrightarrow> db_inv (snd (finish_simulation sid runner ok err t d))"
  by (rule db_inv_transfer, assumption)
     (auto simp: db_inv_def finish_rollup_ok intro!: sims_step_same_length [OF finish_sims_step],
      auto simp: finish_simulation_def batches_update_state_where map_upd_where)

lemma backfill_inv [inv_intros]: "db_inv d \<Longrightarrow> db_inv (backfill_hashes sid m w h d)"
  by (rule db_inv_transfer, assumption)
     (auto simp: db_inv_def backfill_rollup_ok intro!: sims_step_same_length [OF backfill_sims_step],
      auto simp: backfill_hashes_def)

lemma reap_inv [inv_intros]: "db_inv d \<Longrightarrow> db_inv (snd (reap_expired_leases t d))"
  by (rule db_inv_transfer, assumption)
     (auto simp: db_inv_def reap_rollup_ok intro!: sims_step_same_length [OF reap_sims_step],
      auto simp: simulations_reap reap_expired_leases_def Let_def batches_update_state_where map_upd_where)

lemma lifecycle_ok_state: "lifecycle_ok s \<Longrightarrow> s_state s \<in> set sim_states"
  by (simp add: lifecycle_ok_def)

lemma rolled_up_resync: "db_inv d \<Longrightarrow> resync_stuck_batches d = (0, d)"
proof -
  assume inv: "db_inv d"
  then have "\<forall>s \<in> set (simulations d). s_state s \<in> set sim_states"
    by (simp add: db_inv_def lifecycle_ok_state)
  from rolled_up_not_stuck [OF this] inv
  have "\<not> stuck (simulations d) b" if "b \<in> set (batches d)" for b
    using that by (auto simp: db_inv_def rollup_ok_def)
  then show ?thesis
    by (simp add: resync_stuck_batches_def count_where_eq_0 upd_where_none)
qed

lemma new_sim_row_lifecycle_ok:
  "p_State p \<in> {''queued'', ''succeeded''} \<Longrightarrow> lifecycle_ok (new_sim_row p u b fin x)"
  by (auto simp: lifecycle_ok_def new_sim_row_def sim_states_def)

lemma insert_row_inv:
  assumes inv: "db_inv d" and row: "lifecycle_ok r" "s_id r \<notin> s_id ` set (simulations d)"
    and user: "s_user_id r \<in> u_id ` set (users d)"
    and batch: "\<And>i. s_batch_id r = Some i \<Longrightarrow> (i, s_user_id r) \<in> (\<lambda>b. (b_id b, b_user_id b)) ` set (batches d)"
  shows "db_inv (insert_row r d)"
proof -
  let ?d = "insert_row r d"
  have bs: "map batch_frame (batches ?d) = map batch_frame (batches d)"
    by (simp add: batches_insert_row map_upd_where)
  have "keys_ok ?d"
    using inv row(2) unfolding db_inv_def keys_ok_def via_batch_frame(1) bs by auto
  moreover have "refs_ok ?d"
    using inv user batch unfolding db_inv_def refs_ok_def via_batch_frame(2,3) bs by auto
  moreover have "idem_ok ?d"
    using inv unfolding db_inv_def idem_ok_def via_batch_frame(4) bs by auto
  moreover have "rollup_ok ?d"
    using inv by (auto simp: db_inv_def intro: insert_row_rollup_ok)
  ultimately show ?thesis using inv row(1) by (auto simp: db_inv_def)
qed

lemma insert_ok_batch:
  assumes "insert_ok p x d" and "p_BatchID p = Some i" and "x_uuid_in x i = Some j"
    and "x_uuid_in x (p_UserID p) = Some u"
  shows "(j, u) \<in> (\<lambda>b. (b_id b, b_user_id b)) ` set (batches d)"
  using assms by (auto simp: insert_ok_def list_ex_iff)

lemma insert_simulation_inv [inv_intros]:
  assumes "db_inv d" and "insert_ok p x d"
  shows "db_inv (snd (insert_simulation p fin x d))"
proof (cases rule: insert_simulation_cases [where p = p and fin = fin and x = x and d = d])
  case 1
  with assms show ?thesis by simp
next
  case (2 u b)
  have "db_inv (insert_row (new_sim_row p u b fin x) d)"
  proof (rule insert_row_inv [OF assms(1)])
    show "lifecycle_ok (new_sim_row p u b fin x)"
      using assms(2) by (intro new_sim_row_lifecycle_ok) (auto simp: insert_ok_def)
    show "(i, s_user_id (new_sim_row p u b fin x)) \<in> (\<lambda>b. (b_id b, b_user_id b)) ` set (batches d)"
      if "s_batch_id (new_sim_row p u b fin x) = Some i" for i
      using that 2 insert_ok_batch [OF assms(2)] by (auto simp: new_sim_row_def split: option.splits)
  qed (use 2 in \<open>auto simp: new_sim_row_def\<close>)
  with 2 show ?thesis by simp
qed

lemma insert_batch_inv [inv_intros]:
  assumes inv: "db_inv d" and n: "0 < n"
  shows "db_inv (snd (insert_batch userID n key x d))"
proof (cases rule: insert_batch_cases [where userID = userID and n = n and key = key and x = x and d = d])
  case 1
  with inv show ?thesis by simp
next
  case (2 u)
  let ?b = "\<lparr> b_id = x_uuid x, b_user_id = u, b_state = ''expanding'', b_total = n,
                b_succeeded = 0, b_failed = 0, b_idempotency_key = key, b_created_at = x_now x \<rparr>"
  let ?d = "d\<lparr> batches := batches d @ [?b] \<rparr>"
  have none: "batch_sims (x_uuid x) (simulations d) = []"
    using inv 2(3) by (fastforce simp: db_inv_def refs_ok_def batch_sims_def filter_empty_conv)
  then have "rollup (simulations d) ?b = ?b"
    using n by (simp add: rollup_def Let_def)
  with inv have "rollup_ok ?d" by (simp add: db_inv_def rollup_ok_def)
  moreover have "keys_ok ?d" using inv 2(3) by (auto simp: db_inv_def keys_ok_def)
  moreover have "refs_ok ?d" using inv 2(5) n by (auto simp: db_inv_def refs_ok_def)
  moreover have "idem_ok ?d" using inv 2(4) by (auto simp: db_inv_def idem_ok_def)
  ultimately have "db_inv ?d" using inv by (auto simp: db_inv_def)
  with 2(1) show ?thesis by simp
qed

lemma upsert_result_inv [inv_intros]: "db_inv d \<Longrightarrow> db_inv (upsert_result h v m uri ttl t d)"
  by (auto simp: db_inv_def upsert_result_def Let_def keys_ok_def refs_ok_def idem_ok_def rollup_ok_def
        map_upd_where query_row_None)

lemma perform_inv [inv_intros]: "db_inv d \<Longrightarrow> db_inv (perform x a d)"
proof (cases a)
  case (ANewUser email)
  assume "db_inv d"
  then show ?thesis unfolding ANewUser
    by (auto simp: db_inv_def keys_ok_def refs_ok_def idem_ok_def rollup_ok_def query_row_None)
next
  case (ANewKey u h name)
  assume "db_inv d"
  then show ?thesis unfolding ANewKey
    by (auto simp: db_inv_def keys_ok_def refs_ok_def idem_ok_def rollup_ok_def query_row_None
        dest!: query_row_Some)
next
  case (ARevoke i)
  assume "db_inv d"
  then show ?thesis unfolding ARevoke
    by (auto simp: db_inv_def keys_ok_def refs_ok_def idem_ok_def rollup_ok_def map_upd_where elim!: in_upd_whereE)
qed (auto simp: inv_intros rolled_up_resync)

lemma db_inv_empty: "db_inv empty_db"
  by (simp add: db_inv_def keys_ok_def refs_ok_def idem_ok_def rollup_ok_def empty_db_def)

interpretation db_system: labelled_invariant empty_db "\<lambda>(x, a). perform x a" db_inv
  by unfold_locales (auto simp: db_inv_empty intro: perform_inv)

lemma reachable_inv: "reachable d \<Longrightarrow> db_inv d"
  by (induction rule: reachable.induct) (auto simp: db_inv_empty intro: perform_inv)


section \<open>Runs\<close>

text \<open>
  A run is a list of actions, each with the time and the fresh id Postgres gives it. Rows keep
  their position, so a simulation is followed through a run by its index.
\<close>

definition run :: "(stmt_ctx \<times> action) list \<Rightarrow> db \<Rightarrow> db" where
  "run ls d = fold (\<lambda>(x, a). perform x a) ls d"

lemma run_Nil [simp]: "run [] d = d"
  by (simp add: run_def)

lemma run_Cons [simp]: "run ((x, a) # ls) d = run ls (perform x a d)"
  by (simp add: run_def)

lemma run_inv: "db_inv d \<Longrightarrow> db_inv (run ls d)"
  unfolding run_def by (rule db_system.inv_run)

lemma run_reachable: "reachable d \<Longrightarrow> reachable (run ls d)"
  by (induction ls arbitrary: d) (auto simp: reachable_step)

lemma reachable_iff_run: "reachable d \<longleftrightarrow> (\<exists>ls. d = run ls empty_db)"
proof
  assume "reachable d"
  then show "\<exists>ls. d = run ls empty_db"
  proof (induction rule: reachable.induct)
    case reachable_init
    show ?case by (rule exI [of _ "[]"]) simp
  next
    case (reachable_step d x a)
    then obtain ls where "d = run ls empty_db" by blast
    then have "perform x a d = run (ls @ [(x, a)]) empty_db" by (simp add: run_def)
    then show ?case by blast
  qed
qed (auto intro: run_reachable reachable_init)

lemma perform_sims_step:
  assumes "db_inv d"
  shows "sims_step (simulations d) (simulations (perform x a d))"
proof (cases a)
  case (AClaim runner ver cap lease locked)
  with assms show ?thesis by (auto intro: claim_sims_step simp: db_inv_def keys_ok_def)
next
  case (AInsert p fin)
  show ?thesis
    by (cases rule: insert_simulation_cases [where p = p and fin = fin and x = x and d = d])
       (simp_all add: AInsert sims_step_append)
next
  case (ACreate u n key)
  show ?thesis
    by (cases rule: insert_batch_cases [where userID = u and n = n and key = key and x = x and d = d])
       (simp_all add: ACreate)
qed (simp_all add: renew_sims_step finish_sims_step backfill_sims_step reap_sims_step upsert_result_def Let_def)

lemma sims_step_nth: "sims_step t t' \<Longrightarrow> i < length t \<Longrightarrow> i < length t' \<and> sim_step (t ! i) (t' ! i)"
  by (auto simp: sims_step_def list_all2_conv_all_nth)

subsection \<open>The rows of a batch along runs\<close>

text \<open>Rows of a batch are only ever added, and only by inserts for that batch.\<close>

definition rows_of :: "string \<Rightarrow> db \<Rightarrow> nat" where
  "rows_of j d = length (batch_sims j (simulations d))"

lemma sim_steps_batch_ids: "list_all2 sim_step t t' \<Longrightarrow> map s_batch_id t' = map s_batch_id t"
  by (induction rule: list_all2_induct) (auto dest: sim_step_frame)

lemma length_batch_sims: "length (batch_sims j t) = length (filter (\<lambda>i. i = Some j) (map s_batch_id t))"
  by (simp add: batch_sims_def filter_map comp_def)

lemma sims_step_rows:
  assumes "sims_step t t'"
  shows "length (batch_sims j t') = length (batch_sims j t) + length (batch_sims j (drop (length t) t'))"
proof -
  have "length (batch_sims j (take (length t) t')) = length (batch_sims j t)"
    using assms sim_steps_batch_ids [of t "take (length t) t'"] by (simp add: sims_step_def length_batch_sims)
  moreover have "batch_sims j t' = batch_sims j (take (length t) t') @ batch_sims j (drop (length t) t')"
    by (simp add: batch_sims_append [symmetric] del: batch_sims_append)
  ultimately show ?thesis by simp
qed

lemma perform_rows_mono: "db_inv d \<Longrightarrow> rows_of j d \<le> rows_of j (perform x a d)"
  by (simp add: rows_of_def sims_step_rows [OF perform_sims_step])

lemma run_rows_mono: "db_inv d \<Longrightarrow> rows_of j d \<le> rows_of j (run ls d)"
proof (induction ls arbitrary: d)
  case (Cons l ls)
  obtain x a where l: "l = (x, a)" by (cases l)
  from perform_rows_mono [OF Cons.prems, of j x a] Cons.IH [OF perform_inv [OF Cons.prems, of x a]]
  show ?case by (simp add: l)
qed simp

definition inserts_into :: "string \<Rightarrow> stmt_ctx \<times> action \<Rightarrow> bool" where
  "inserts_into j l =
     (case snd l of
        AInsert p fin \<Rightarrow> (case p_BatchID p of None \<Rightarrow> False | Some i \<Rightarrow> x_uuid_in (fst l) i = Some j)
      | _ \<Rightarrow> False)"

lemma perform_rows_same:
  assumes "db_inv d" and "\<not> inserts_into j (x, a)"
  shows "rows_of j (perform x a d) = rows_of j d"
proof (cases a)
  case (AInsert p fin)
  show ?thesis
    by (cases rule: insert_simulation_cases [where p = p and fin = fin and x = x and d = d])
       (use assms(2) in \<open>auto simp: AInsert rows_of_def batch_sims_def new_sim_row_def inserts_into_def
          split: option.splits\<close>)
next
  case (ACreate u n key)
  show ?thesis
    by (cases rule: insert_batch_cases [where userID = u and n = n and key = key and x = x and d = d])
       (simp_all add: ACreate rows_of_def)
qed (use sims_step_rows [OF perform_sims_step [OF assms(1), of x a], of j] in
      \<open>simp_all add: rows_of_def claim_simulation_def renew_lease_def finish_simulation_def
        backfill_hashes_def upsert_result_def reap_expired_leases_def Let_def batch_sims_def split: list.splits\<close>)

lemma run_rows_same:
  "db_inv d \<Longrightarrow> list_all (\<lambda>l. \<not> inserts_into j l) ls \<Longrightarrow> rows_of j (run ls d) = rows_of j d"
proof (induction ls arbitrary: d)
  case (Cons l ls)
  then show ?case by (cases l) (simp add: perform_rows_same perform_inv)
qed simp

lemma batch_expanding_iff:
  assumes "db_inv d" and "b \<in> set (batches d)"
  shows "b_state b = ''expanding'' \<longleftrightarrow> int (rows_of (b_id b) d) < b_total b"
proof -
  from assms have "b_state b = b_state (rollup (simulations d) b)" by (simp add: db_inv_def rollup_ok_def)
  then show ?thesis by (simp add: rollup_def Let_def rows_of_def)
qed

section \<open>Properties\<close>

lemma db_inv_same_owner:
  assumes "db_inv d" and "s \<in> set (simulations d)" and "b \<in> set (batches d)" and "s_batch_id s = Some (b_id b)"
  shows "s_user_id s = b_user_id b"
proof -
  from assms have "(b_id b, s_user_id s) \<in> (\<lambda>b. (b_id b, b_user_id b)) ` set (batches d)"
    by (simp add: db_inv_def refs_ok_def)
  then obtain b' where "b' \<in> set (batches d)" "b_id b' = b_id b" "b_user_id b' = s_user_id s" by auto
  moreover have "distinct (map b_id (batches d))" using assms(1) by (simp add: db_inv_def keys_ok_def)
  ultimately show ?thesis using assms(3) by (metis distinct_map_eqD)
qed

text \<open>A batch row that is rolled up carries the true counts of its simulations.\<close>

definition counts_exact :: "db \<Rightarrow> batches_row \<Rightarrow> bool" where
  "counts_exact d b \<longleftrightarrow>
     b_succeeded b = int (count_where (\<lambda>s. s_batch_id s = Some (b_id b) \<and> s_state s = ''succeeded'') (simulations d)) \<and>
     b_failed b = int (count_where (\<lambda>s. s_batch_id s = Some (b_id b) \<and> s_state s = ''failed'') (simulations d)) \<and>
     (b_state b = ''expanding'' \<longleftrightarrow>
        int (count_where (\<lambda>s. s_batch_id s = Some (b_id b)) (simulations d)) < b_total b) \<and>
     (b_state b = ''done'' \<longleftrightarrow>
        b_total b \<le> int (count_where (\<lambda>s. s_batch_id s = Some (b_id b) \<and> terminal s) (simulations d)))"

lemma db_inv_counts_exact:
  assumes "db_inv d" and "b \<in> set (batches d)"
  shows "counts_exact d b"
proof -
  let ?t = "simulations d"
  from assms have roll: "rollup ?t b = b" and pos: "0 < b_total b"
    by (auto simp: db_inv_def rollup_ok_def refs_ok_def)
  have cnt: "count_where P (batch_sims i t) = count_where (\<lambda>s. s_batch_id s = Some i \<and> P s) t" for P i t
    by (induction t) (auto simp: batch_sims_def)
  have len: "length (batch_sims i t) = count_where (\<lambda>s. s_batch_id s = Some i) t" for i t
    by (simp add: batch_sims_def count_where_def)
  have le: "count_where (\<lambda>s. s_batch_id s = Some (b_id b) \<and> terminal s) ?t
      \<le> count_where (\<lambda>s. s_batch_id s = Some (b_id b)) ?t"
    by (rule count_where_mono) simp
  have "b_succeeded b = b_succeeded (rollup ?t b)" "b_failed b = b_failed (rollup ?t b)"
    "b_state b = b_state (rollup ?t b)"
    by (simp_all add: roll)
  with pos le show ?thesis
    unfolding counts_exact_def rollup_def Let_def cnt len terminal_def [symmetric] by simp
qed

text \<open>
  In every reachable database the counters of every batch are exact: \<open>succeeded\<close> and
  \<open>failed\<close> are the numbers of its simulations in those states, the state is \<open>expanding\<close>
  exactly while rows are missing, and \<open>done\<close> exactly when all rows are present and at least
  \<open>total\<close> of them are finished.
\<close>

lemma reachable_batch_counts_exact:
  assumes "reachable d" and "b \<in> set (batches d)"
  shows "b_succeeded b =
           int (count_where (\<lambda>s. s_batch_id s = Some (b_id b) \<and> s_state s = ''succeeded'') (simulations d)) \<and>
         b_failed b =
           int (count_where (\<lambda>s. s_batch_id s = Some (b_id b) \<and> s_state s = ''failed'') (simulations d)) \<and>
         (b_state b = ''expanding'' \<longleftrightarrow>
           int (count_where (\<lambda>s. s_batch_id s = Some (b_id b)) (simulations d)) < b_total b) \<and>
         (b_state b = ''done'' \<longleftrightarrow>
           b_total b \<le> int (count_where (\<lambda>s. s_batch_id s = Some (b_id b) \<and> terminal s) (simulations d)))"
  using db_inv_counts_exact [OF reachable_inv [OF assms(1)] assms(2)] by (simp add: counts_exact_def)

end
