(* ===== verification/Connection.thy ===== *)
theory Connection
  imports System
begin

text \<open>
  The connection between the Go code and Postgres, the methods of \<open>store.Store\<close> over it, and the
  interface \<open>dataStore\<close> (\<open>internal/api/server.go\<close>) with its contract. A request's statements are
  separated by whatever the other participants committed in between, so every method is correct
  for arbitrary interleavings of statements.
\<close>

section \<open>The environment and the world\<close>

text \<open>
  The statement with number \<open>n\<close> can succeed, be lost before it reaches the server, or take effect
  with its reply lost: the caller sees the same error in the last two cases.
\<close>

datatype fault = NoFault | Lost | LostReply

record env =
  e_other :: "nat \<Rightarrow> (int \<times> string \<times> action) list"
  e_now :: "nat \<Rightarrow> int"
  e_uuid :: "nat \<Rightarrow> string"
  e_uuid_in :: "string \<Rightarrow> string option"
  e_fault :: "nat \<Rightarrow> fault"
  e_gonow :: "nat \<Rightarrow> int"

text \<open>The work a batch submission hands to the expander (\<open>internal/queue/queue.go\<close>).\<close>

record Variant =
  v_ModelRef :: string
  v_ModelSHA256 :: string
  v_Name :: string

record ExpandSpec =
  sp_BatchID :: string
  sp_UserID :: string
  sp_EngineVersion :: string
  sp_WeatherRef :: string
  sp_WeatherSHA256 :: string
  sp_Priority :: int
  sp_ExtractionSpec :: "json option"
  sp_Variants :: "Variant list"

text \<open>The database, the number of statements issued so far, and the goroutines started.\<close>

record world =
  w_db :: db
  w_tick :: nat
  w_jobs :: "ExpandSpec list"

definition ctx :: "env \<Rightarrow> int \<Rightarrow> string \<Rightarrow> stmt_ctx" where
  "ctx e t u = \<lparr> x_now = t, x_uuid = u, x_uuid_in = e_uuid_in e \<rparr>"

definition others :: "env \<Rightarrow> nat \<Rightarrow> db \<Rightarrow> db" where
  "others e n d = run (map (\<lambda>(t, u, a). (ctx e t u, a)) (e_other e n)) d"

definition conn_err :: error where
  "conn_err = ErrMsg ''connection lost''"

definition db_call :: "env \<Rightarrow> (stmt_ctx \<Rightarrow> db \<Rightarrow> 'a res \<times> db) \<Rightarrow> world \<Rightarrow> 'a res \<times> world" where
  "db_call e stmt w =
     (let n = w_tick w;
          d = others e n (w_db w);
          (r, d') = stmt (ctx e (e_now e n) (e_uuid e n)) d
      in case e_fault e n of
           NoFault \<Rightarrow> (r, w\<lparr> w_db := d', w_tick := Suc n \<rparr>)
         | Lost \<Rightarrow> (Inl conn_err, w\<lparr> w_db := d, w_tick := Suc n \<rparr>)
         | LostReply \<Rightarrow> (Inl conn_err, w\<lparr> w_db := d', w_tick := Suc n \<rparr>))"

section \<open>The methods of Store\<close>

definition UserIDForKeyHash :: "env \<Rightarrow> string \<Rightarrow> world \<Rightarrow> string res \<times> world" where
  "UserIDForKeyHash e keyHash w = db_call e (select_key keyHash) w"

definition GetResult :: "env \<Rightarrow> string \<Rightarrow> world \<Rightarrow> Result res \<times> world" where
  "GetResult e contentHash w = db_call e (select_result contentHash) w"

definition HasResult :: "env \<Rightarrow> string \<Rightarrow> world \<Rightarrow> bool res \<times> world" where
  "HasResult e contentHash w = db_call e (exists_result contentHash) w"

definition InsertSimulation :: "env \<Rightarrow> InsertSimulationParams \<Rightarrow> world \<Rightarrow> string res \<times> world" where
  "InsertSimulation e p w =
     (let finished = (if p_State p = ''succeeded'' then Some (e_gonow e (w_tick w)) else None)
      in db_call e (insert_simulation p finished) w)"

definition GetSimulation :: "env \<Rightarrow> string \<Rightarrow> world \<Rightarrow> Simulation res \<times> world" where
  "GetSimulation e sid w = db_call e (select_simulation sid) w"

definition ListBatchSimulations ::
  "env \<Rightarrow> string \<Rightarrow> int \<Rightarrow> int \<Rightarrow> world \<Rightarrow> (Simulation list \<times> int) res \<times> world" where
  "ListBatchSimulations e batchID limit offset w =
     (case db_call e (count_batch_sims batchID) w of
        (Inl err, w1) \<Rightarrow> (Inl err, w1)
      | (Inr n, w1) \<Rightarrow>
          (case db_call e (select_batch_sims batchID limit offset) w1 of
             (Inl err, w2) \<Rightarrow> (Inl err, w2)
           | (Inr out, w2) \<Rightarrow> (Inr (out, n), w2)))"

definition CreateBatch :: "env \<Rightarrow> string \<Rightarrow> int \<Rightarrow> string option \<Rightarrow> world \<Rightarrow> string res \<times> world" where
  "CreateBatch e userID n key w = db_call e (insert_batch userID n key) w"

definition GetBatch :: "env \<Rightarrow> string \<Rightarrow> world \<Rightarrow> Batch res \<times> world" where
  "GetBatch e bid w = db_call e (select_batch_by_id bid) w"

definition FindBatchByIdempotencyKey :: "env \<Rightarrow> string \<Rightarrow> string \<Rightarrow> world \<Rightarrow> Batch res \<times> world" where
  "FindBatchByIdempotencyKey e userID key w = db_call e (select_batch_by_key userID key) w"

definition ResyncStuckBatches :: "env \<Rightarrow> world \<Rightarrow> int res \<times> world" where
  "ResyncStuckBatches e w = db_call e (\<lambda>x d. (Inr (int (fst (resync_stuck_batches d))), snd (resync_stuck_batches d))) w"

section \<open>The interface of the HTTP layer and its contract\<close>

record 'w dataStore =
  ds_UserIDForKeyHash :: "string \<Rightarrow> 'w \<Rightarrow> string res \<times> 'w"
  ds_GetSimulation :: "string \<Rightarrow> 'w \<Rightarrow> Simulation res \<times> 'w"
  ds_GetResult :: "string \<Rightarrow> 'w \<Rightarrow> Result res \<times> 'w"
  ds_HasResult :: "string \<Rightarrow> 'w \<Rightarrow> bool res \<times> 'w"
  ds_InsertSimulation :: "InsertSimulationParams \<Rightarrow> 'w \<Rightarrow> string res \<times> 'w"
  ds_ListBatchSimulations :: "string \<Rightarrow> int \<Rightarrow> int \<Rightarrow> 'w \<Rightarrow> (Simulation list \<times> int) res \<times> 'w"
  ds_CreateBatch :: "string \<Rightarrow> int \<Rightarrow> string option \<Rightarrow> 'w \<Rightarrow> string res \<times> 'w"
  ds_GetBatch :: "string \<Rightarrow> 'w \<Rightarrow> Batch res \<times> 'w"
  ds_FindBatchByIdempotencyKey :: "string \<Rightarrow> string \<Rightarrow> 'w \<Rightarrow> Batch res \<times> 'w"

definition pgStore :: "env \<Rightarrow> world dataStore" where
  "pgStore e =
     \<lparr> ds_UserIDForKeyHash = UserIDForKeyHash e, ds_GetSimulation = GetSimulation e,
       ds_GetResult = GetResult e, ds_HasResult = HasResult e, ds_InsertSimulation = InsertSimulation e,
       ds_ListBatchSimulations = ListBatchSimulations e, ds_CreateBatch = CreateBatch e,
       ds_GetBatch = GetBatch e, ds_FindBatchByIdempotencyKey = FindBatchByIdempotencyKey e \<rparr>"

lemma pgStore_simps [simp]:
  "ds_UserIDForKeyHash (pgStore e) = UserIDForKeyHash e" "ds_GetSimulation (pgStore e) = GetSimulation e"
  "ds_GetResult (pgStore e) = GetResult e" "ds_HasResult (pgStore e) = HasResult e"
  "ds_InsertSimulation (pgStore e) = InsertSimulation e"
  "ds_ListBatchSimulations (pgStore e) = ListBatchSimulations e"
  "ds_CreateBatch (pgStore e) = CreateBatch e" "ds_GetBatch (pgStore e) = GetBatch e"
  "ds_FindBatchByIdempotencyKey (pgStore e) = FindBatchByIdempotencyKey e"
  by (simp_all add: pgStore_def)

text \<open>
  The contract: every operation keeps the invariant \<open>I\<close> and never takes a batch from its owner
  (\<open>owns i u\<close>: batch \<open>i\<close> belongs to user \<open>u\<close>); authentication yields a canonical user id
  (\<open>canon\<close>); a created batch belongs to its creator; a batch that was read belongs to the user it
  names; and the simulations listed for a batch belong to the batch's owner.
\<close>

locale data_store =
  fixes ds :: "'w dataStore"
    and I :: "'w \<Rightarrow> bool"
    and owns :: "string \<Rightarrow> string \<Rightarrow> 'w \<Rightarrow> bool"
    and canon :: "string \<Rightarrow> bool"
  assumes auth_keeps: "I w \<Longrightarrow> I (snd (ds_UserIDForKeyHash ds h w))"
    and getsim_keeps: "I w \<Longrightarrow> I (snd (ds_GetSimulation ds i w))"
    and getres_keeps: "I w \<Longrightarrow> I (snd (ds_GetResult ds h w))"
    and hasres_keeps: "I w \<Longrightarrow> I (snd (ds_HasResult ds h w))"
    and insert_keeps: "I w \<Longrightarrow> p_State p = ''queued'' \<or> p_State p = ''succeeded'' \<Longrightarrow>
      (\<And>i. p_BatchID p = Some i \<Longrightarrow> owns i (p_UserID p) w) \<Longrightarrow> I (snd (ds_InsertSimulation ds p w))"
    and list_keeps: "I w \<Longrightarrow> I (snd (ds_ListBatchSimulations ds i l ofs w))"
    and create_keeps: "I w \<Longrightarrow> 0 < n \<Longrightarrow> I (snd (ds_CreateBatch ds u n k w))"
    and getbatch_keeps: "I w \<Longrightarrow> I (snd (ds_GetBatch ds i w))"
    and find_keeps: "I w \<Longrightarrow> I (snd (ds_FindBatchByIdempotencyKey ds u k' w))"
    and hasres_owns: "I w \<Longrightarrow> owns i u w \<Longrightarrow> owns i u (snd (ds_HasResult ds h w))"
    and insert_owns: "I w \<Longrightarrow> owns i u w \<Longrightarrow> owns i u (snd (ds_InsertSimulation ds p w))"
    and auth_canon: "I w \<Longrightarrow> fst (ds_UserIDForKeyHash ds h w) = Inr u \<Longrightarrow> canon u"
    and create_owns: "I w \<Longrightarrow> canon u \<Longrightarrow> fst (ds_CreateBatch ds u n k w) = Inr i \<Longrightarrow>
      owns i u (snd (ds_CreateBatch ds u n k w))"
    and getbatch_owns: "I w \<Longrightarrow> fst (ds_GetBatch ds i w) = Inr b \<Longrightarrow>
      owns i (bat_UserID b) (snd (ds_GetBatch ds i w))"
    and list_owned: "I w \<Longrightarrow> owns i u w \<Longrightarrow> fst (ds_ListBatchSimulations ds i l ofs w) = Inr (ss, n) \<Longrightarrow>
      s \<in> set ss \<Longrightarrow> sim_UserID s = u"

section \<open>The methods satisfy the contract\<close>

text \<open>
  What the model takes from Postgres about \<open>uuid\<close>: the canonical text of a uuid is a fixed point
  of the input syntax, and \<open>gen_random_uuid()\<close> is printed canonically.
\<close>

definition env_ok :: "env \<Rightarrow> bool" where
  "env_ok e \<longleftrightarrow>
     (\<forall>n. e_uuid_in e (e_uuid e n) = Some (e_uuid e n)) \<and>
     (\<forall>n t u a. (t, u, a) \<in> set (e_other e n) \<longrightarrow> e_uuid_in e u = Some u)"

definition canonical :: "env \<Rightarrow> string \<Rightarrow> bool" where
  "canonical e u \<longleftrightarrow> e_uuid_in e u = Some u"

definition users_canon :: "env \<Rightarrow> db \<Rightarrow> bool" where
  "users_canon e d \<longleftrightarrow> (\<forall>r \<in> set (users d). canonical e (u_id r))"

definition owns_batch :: "env \<Rightarrow> string \<Rightarrow> string \<Rightarrow> db \<Rightarrow> bool" where
  "owns_batch e i u d \<longleftrightarrow> (\<exists>b \<in> set (batches d). e_uuid_in e i = Some (b_id b) \<and> b_user_id b = u)"

definition world_inv :: "env \<Rightarrow> world \<Rightarrow> bool" where
  "world_inv e w \<longleftrightarrow>
     env_ok e \<and> db_inv (w_db w) \<and> users_canon e (w_db w) \<and>
     (\<forall>j \<in> set (w_jobs w). canonical e (sp_UserID j) \<and> owns_batch e (sp_BatchID j) (sp_UserID j) (w_db w))"

lemma ctx_simps [simp]: "x_now (ctx e t u) = t" "x_uuid (ctx e t u) = u" "x_uuid_in (ctx e t u) = e_uuid_in e"
  by (simp_all add: ctx_def)

text \<open>Batches are never removed and keep their id, owner, total and key.\<close>

definition extends :: "db \<Rightarrow> db \<Rightarrow> bool" where
  "extends d d' \<longleftrightarrow> batch_frame ` set (batches d) \<subseteq> batch_frame ` set (batches d')"

lemma extends_refl [simp]: "extends d d"
  by (simp add: extends_def)

lemma extends_trans: "extends d d' \<Longrightarrow> extends d' d'' \<Longrightarrow> extends d d''"
  by (auto simp: extends_def)

lemma extends_same_batches: "batches d' = batches d \<Longrightarrow> extends d d'"
  by (simp add: extends_def)

lemma extends_frame: "map batch_frame (batches d') = map batch_frame (batches d) \<Longrightarrow> extends d d'"
  unfolding extends_def set_map [symmetric] by simp

lemma extends_batch:
  assumes "extends d d'" and "b \<in> set (batches d)"
  obtains b' where "b' \<in> set (batches d')" and "batch_frame b' = batch_frame b"
proof -
  from assms have "batch_frame b \<in> batch_frame ` set (batches d')" by (auto simp: extends_def)
  then show thesis using that by auto
qed

lemma extends_owns:
  assumes "extends d d'" and "owns_batch e i u d"
  shows "owns_batch e i u d'"
proof -
  from assms(2) obtain b where b: "b \<in> set (batches d)" "e_uuid_in e i = Some (b_id b)" "b_user_id b = u"
    by (auto simp: owns_batch_def)
  from extends_batch [OF assms(1) b(1)] obtain b' where "b' \<in> set (batches d')" "batch_frame b' = batch_frame b" .
  with b show ?thesis unfolding owns_batch_def by (intro bexI [of _ b']) (simp_all add: batch_frame_def)
qed

lemma insert_simulation_extends: "extends d (snd (insert_simulation p fin x d))"
  by (cases rule: insert_simulation_cases [where p = p and fin = fin and x = x and d = d])
     (auto intro!: extends_frame simp: batches_insert_row map_upd_where)

lemma insert_batch_extends: "extends d (snd (insert_batch u n k x d))"
  by (cases rule: insert_batch_cases [where userID = u and n = n and key = k and x = x and d = d])
     (auto simp: extends_def)

lemma perform_extends: "extends d (perform x a d)"
proof (cases a)
  case (AClaim runner ver cap lease locked)
  then show ?thesis
    by (auto intro!: extends_frame simp: claim_simulation_def batches_update_state_where map_upd_where
        split: list.splits)
next
  case (AInsert p fin)
  then show ?thesis by (simp add: insert_simulation_extends)
next
  case (ACreate u n k)
  then show ?thesis by (simp add: insert_batch_extends)
qed (auto intro!: extends_frame simp: renew_lease_def finish_simulation_def backfill_hashes_def
      upsert_result_def Let_def reap_expired_leases_def resync_stuck_batches_def
      batches_update_state_where map_upd_where)

lemma run_extends: "extends d (run ls d)"
proof (induction ls arbitrary: d)
  case (Cons l ls)
  then show ?case by (cases l) (auto intro: extends_trans perform_extends)
qed simp

lemma users_insert [simp]:
  "users (snd (insert_simulation p fin x d)) = users d" "users (snd (insert_batch u n k x d)) = users d"
proof -
  show "users (snd (insert_simulation p fin x d)) = users d"
    by (cases rule: insert_simulation_cases [where p = p and fin = fin and x = x and d = d]) simp_all
  show "users (snd (insert_batch u n k x d)) = users d"
    by (cases rule: insert_batch_cases [where userID = u and n = n and key = k and x = x and d = d]) simp_all
qed

lemma perform_users_canon:
  "users_canon e d \<Longrightarrow> canonical e u \<Longrightarrow> users_canon e (perform (ctx e t u) a d)"
  by (cases a) (auto simp: users_canon_def claim_simulation_def renew_lease_def finish_simulation_def
      backfill_hashes_def upsert_result_def Let_def split: list.splits)

lemma others_inv: "db_inv d \<Longrightarrow> db_inv (others e n d)"
  by (simp add: others_def run_inv)

lemma others_extends: "extends d (others e n d)"
  by (simp add: others_def run_extends)

lemma others_users_canon:
  assumes "env_ok e" and "users_canon e d"
  shows "users_canon e (others e n d)"
proof -
  have "users_canon e (run (map (\<lambda>(t, u, a). (ctx e t u, a)) ls) d)"
    if "\<forall>(t, u, a) \<in> set ls. canonical e u" "users_canon e d" for ls d
    using that by (induction ls arbitrary: d) (auto simp: perform_users_canon)
  moreover have "\<forall>(t, u, a) \<in> set (e_other e n). canonical e u"
    using assms(1) unfolding env_ok_def canonical_def by fast
  ultimately show ?thesis unfolding others_def using assms(2) by blast
qed

text \<open>
  The one lemma behind all methods: a statement that keeps the database invariant, the canonical
  users and the batches' owners keeps the world's invariant and ownership across a call.
\<close>

lemma db_call_cases:
  obtains r d' where "db_call e stmt w = (r, w\<lparr> w_db := d', w_tick := Suc (w_tick w) \<rparr>)"
    and "d' = others e (w_tick w) (w_db w) \<or>
         d' = snd (stmt (ctx e (e_now e (w_tick w)) (e_uuid e (w_tick w))) (others e (w_tick w) (w_db w)))"
    and "\<And>v. r = Inr v \<Longrightarrow>
         stmt (ctx e (e_now e (w_tick w)) (e_uuid e (w_tick w))) (others e (w_tick w) (w_db w)) = (Inr v, d')"
proof (cases "stmt (ctx e (e_now e (w_tick w)) (e_uuid e (w_tick w))) (others e (w_tick w) (w_db w))")
  case (Pair r d')
  show ?thesis
  proof (cases "e_fault e (w_tick w)")
    case NoFault
    with Pair show ?thesis by (intro that [of r d']) (auto simp: db_call_def)
  next
    case Lost
    with Pair show ?thesis
      by (intro that [of "Inl conn_err" "others e (w_tick w) (w_db w)"]) (auto simp: db_call_def Let_def)
  next
    case LostReply
    with Pair show ?thesis by (intro that [of "Inl conn_err" d']) (auto simp: db_call_def)
  qed
qed

lemma db_call_keeps:
  assumes w: "world_inv e w"
    and stmt: "\<And>x d. db_inv d \<Longrightarrow> x_uuid_in x = e_uuid_in e \<Longrightarrow> extends (w_db w) d \<Longrightarrow>
      db_inv (snd (stmt x d)) \<and> users (snd (stmt x d)) = users d \<and> extends d (snd (stmt x d))"
  shows "world_inv e (snd (db_call e stmt w))"
    and "owns_batch e i u (w_db w) \<Longrightarrow> owns_batch e i u (w_db (snd (db_call e stmt w)))"
proof -
  let ?d = "others e (w_tick w) (w_db w)"
  have d: "db_inv ?d" "users_canon e ?d" "extends (w_db w) ?d"
    using w by (auto simp: world_inv_def others_inv others_users_canon others_extends)
  note after = stmt [OF d(1) ctx_simps(3) d(3)]
  obtain r d' where call: "db_call e stmt w = (r, w\<lparr> w_db := d', w_tick := Suc (w_tick w) \<rparr>)"
    and d': "d' = ?d \<or> d' = snd (stmt (ctx e (e_now e (w_tick w)) (e_uuid e (w_tick w))) ?d)"
    by (rule db_call_cases [of e stmt w])
  then have "db_inv d'" "users_canon e d'" "extends (w_db w) d'"
    using d after by (auto simp: users_canon_def intro: extends_trans)
  then show "world_inv e (snd (db_call e stmt w))"
    and "owns_batch e i u (w_db w) \<Longrightarrow> owns_batch e i u (w_db (snd (db_call e stmt w)))"
    using w call by (auto simp: world_inv_def intro: extends_owns)
qed

lemmas pg_method_defs =
  UserIDForKeyHash_def GetResult_def HasResult_def GetSimulation_def GetBatch_def
  FindBatchByIdempotencyKey_def CreateBatch_def InsertSimulation_def

lemma list_batch_keeps:
  "world_inv e w \<Longrightarrow> world_inv e (snd (ListBatchSimulations e i l ofs w))"
proof -
  assume w: "world_inv e w"
  have 1: "world_inv e (snd (db_call e (count_batch_sims i) w))"
    using w by (rule db_call_keeps) simp
  have 2: "world_inv e (snd (db_call e (select_batch_sims i l ofs) w1))" if "world_inv e w1" for w1
    using that by (rule db_call_keeps) simp
  from 1 2 show ?thesis
    by (auto simp: ListBatchSimulations_def split: prod.splits sum.splits)
       (metis snd_conv)+
qed

lemma owned_insert_ok:
  assumes "p_State p = ''queued'' \<or> p_State p = ''succeeded''" and "x_uuid_in x = e_uuid_in e"
    and "\<And>i. p_BatchID p = Some i \<Longrightarrow> canonical e (p_UserID p) \<and> owns_batch e i (p_UserID p) d"
  shows "insert_ok p x d"
proof (cases "p_BatchID p")
  case (Some i)
  from assms(3) [OF Some] obtain b where "b \<in> set (batches d)" "e_uuid_in e i = Some (b_id b)"
    "b_user_id b = p_UserID p" "e_uuid_in e (p_UserID p) = Some (p_UserID p)"
    by (auto simp: owns_batch_def canonical_def)
  then have "list_ex (\<lambda>b. e_uuid_in e i = Some (b_id b) \<and> e_uuid_in e (p_UserID p) = Some (b_user_id b)) (batches d)"
    by (auto simp: list_ex_iff)
  with assms(1) Some show ?thesis by (simp add: insert_ok_def assms(2))
qed (use assms(1) in \<open>simp add: insert_ok_def\<close>)

lemma insert_simulation_keeps:
  assumes "world_inv e w" and "p_State p = ''queued'' \<or> p_State p = ''succeeded''"
    and "\<And>i. p_BatchID p = Some i \<Longrightarrow> canonical e (p_UserID p) \<and> owns_batch e i (p_UserID p) (w_db w)"
  shows "world_inv e (snd (InsertSimulation e p w))"
  unfolding InsertSimulation_def Let_def
proof (rule db_call_keeps [OF assms(1)])
  fix x :: stmt_ctx and d assume d: "db_inv d" and x: "x_uuid_in x = e_uuid_in e" and ext: "extends (w_db w) d"
  have "insert_ok p x d"
    using assms(2) x by (rule owned_insert_ok) (use assms(3) extends_owns [OF ext] in blast)
  with d show "db_inv (snd (insert_simulation p fin x d)) \<and>
      users (snd (insert_simulation p fin x d)) = users d \<and> extends d (snd (insert_simulation p fin x d))" for fin
    by (simp add: insert_simulation_inv insert_simulation_extends)
qed

lemma db_call_extends:
  assumes "\<And>x d. extends d (snd (stmt x d))"
  shows "extends (w_db w) (w_db (snd (db_call e stmt w)))"
proof -
  obtain r d' where call: "db_call e stmt w = (r, w\<lparr> w_db := d', w_tick := Suc (w_tick w) \<rparr>)"
    and d': "d' = others e (w_tick w) (w_db w) \<or>
      d' = snd (stmt (ctx e (e_now e (w_tick w)) (e_uuid e (w_tick w))) (others e (w_tick w) (w_db w)))"
    by (rule db_call_cases [of e stmt w])
  have "extends (w_db w) d'"
    using d' others_extends [of "w_db w" e "w_tick w"] assms by (auto intro: extends_trans)
  with call show ?thesis by simp
qed

lemma db_call_Inr:
  "fst (db_call e stmt w) = Inr v \<Longrightarrow>
     stmt (ctx e (e_now e (w_tick w)) (e_uuid e (w_tick w))) (others e (w_tick w) (w_db w)) =
       (Inr v, w_db (snd (db_call e stmt w)))"
  by (auto simp: db_call_def Let_def split: prod.splits fault.splits)

lemma db_call_select_db:
  assumes "\<And>x d. snd (stmt x d) = d"
  shows "w_db (snd (db_call e stmt w)) = others e (w_tick w) (w_db w)"
proof -
  obtain r where "stmt (ctx e (e_now e (w_tick w)) (e_uuid e (w_tick w))) (others e (w_tick w) (w_db w)) =
      (r, others e (w_tick w) (w_db w))"
    using assms by (metis prod.collapse)
  then show ?thesis by (simp add: db_call_def Let_def split: fault.splits)
qed

lemma insert_simulation_owns:
  "owns_batch e i u (w_db w) \<Longrightarrow> owns_batch e i u (w_db (snd (InsertSimulation e p w)))"
  unfolding InsertSimulation_def Let_def
  by (rule extends_owns [OF db_call_extends]) (rule insert_simulation_extends)

lemma users_canonD: "users_canon e d \<Longrightarrow> u \<in> u_id ` set (users d) \<Longrightarrow> canonical e u"
  by (auto simp: users_canon_def)

lemma insert_batch_owned:
  assumes "insert_batch u n k x d = (Inr i, d')" and "x_uuid_in x u = Some u"
    and "x_uuid_in x (x_uuid x) = Some (x_uuid x)"
  shows "\<exists>b \<in> set (batches d'). x_uuid_in x i = Some (b_id b) \<and> b_user_id b = u"
  using assms
  by (cases rule: insert_batch_cases [where userID = u and n = n and key = k and x = x and d = d]) auto

lemma select_batch_by_id_Inr:
  "select_batch_by_id i x d = (Inr b, d') \<Longrightarrow>
     \<exists>row \<in> set (batches d). x_uuid_in x i = Some (b_id row) \<and> b = scanBatch row \<and> d' = d"
  by (auto simp: select_batch_by_id_def select_batch_def split: option.splits dest!: query_row_Some)

lemma user_id_for_key_canonical:
  assumes "world_inv e w" and "fst (UserIDForKeyHash e h w) = Inr u"
  shows "canonical e u"
proof -
  let ?d = "others e (w_tick w) (w_db w)"
  have d: "db_inv ?d" "users_canon e ?d"
    using assms(1) by (auto simp: world_inv_def others_inv others_users_canon)
  from db_call_Inr [OF assms(2) [unfolded UserIDForKeyHash_def]]
  obtain k where "query_row (\<lambda>k. k_key_hash k = h \<and> k_revoked_at k = None) (api_keys ?d) = Some k"
    and u: "u = k_user_id k"
    by (auto simp: select_key_def split: option.splits)
  then have "k \<in> set (api_keys ?d)" using query_row_Some by fastforce
  with d(1) u have "u \<in> u_id ` set (users ?d)" by (simp add: db_inv_def refs_ok_def)
  with d(2) show ?thesis by (rule users_canonD)
qed

lemma create_batch_owns:
  assumes "world_inv e w" and "canonical e u" and "fst (CreateBatch e u n k w) = Inr i"
  shows "owns_batch e i u (w_db (snd (CreateBatch e u n k w)))"
proof -
  let ?x = "ctx e (e_now e (w_tick w)) (e_uuid e (w_tick w))" and ?d = "others e (w_tick w) (w_db w)"
  have "insert_batch u n k ?x ?d = (Inr i, w_db (snd (CreateBatch e u n k w)))"
    using db_call_Inr [OF assms(3) [unfolded CreateBatch_def]] by (simp add: CreateBatch_def)
  moreover have "e_uuid_in e (e_uuid e (w_tick w)) = Some (e_uuid e (w_tick w))"
    using assms(1) by (simp add: world_inv_def env_ok_def)
  ultimately show ?thesis
    using insert_batch_owned [of u n k ?x ?d] assms(2) by (simp add: owns_batch_def canonical_def)
qed

lemma get_batch_owns:
  assumes "world_inv e w" and "fst (GetBatch e i w) = Inr b"
  shows "canonical e (bat_UserID b) \<and> owns_batch e i (bat_UserID b) (w_db (snd (GetBatch e i w)))"
proof -
  let ?x = "ctx e (e_now e (w_tick w)) (e_uuid e (w_tick w))" and ?d = "others e (w_tick w) (w_db w)"
  have d: "db_inv ?d" "users_canon e ?d"
    using assms(1) by (auto simp: world_inv_def others_inv others_users_canon)
  have "select_batch_by_id i ?x ?d = (Inr b, w_db (snd (GetBatch e i w)))"
    using db_call_Inr [OF assms(2) [unfolded GetBatch_def]] by (simp add: GetBatch_def)
  from select_batch_by_id_Inr [OF this]
  obtain row where row: "row \<in> set (batches ?d)" "e_uuid_in e i = Some (b_id row)"
    and b: "b = scanBatch row" "w_db (snd (GetBatch e i w)) = ?d"
    by auto
  with d(1) have "b_user_id row \<in> u_id ` set (users ?d)" by (simp add: db_inv_def refs_ok_def)
  with d(2) have "canonical e (b_user_id row)" by (rule users_canonD)
  moreover have "bat_UserID b = b_user_id row" by (simp add: b(1) scanBatch_def)
  ultimately show ?thesis using row unfolding b(2) owns_batch_def by auto
qed

lemma batch_sims_owned:
  assumes "db_inv d" and "owns_batch e i u d" and "e_uuid_in e i = Some j"
    and "s \<in> set (batch_sims j (simulations d))"
  shows "s_user_id s = u"
proof -
  from assms(2,3) obtain b where b: "b \<in> set (batches d)" "b_id b = j" "b_user_id b = u"
    by (auto simp: owns_batch_def)
  from assms(1,4) obtain b' where b': "b' \<in> set (batches d)" "b_id b' = j" "b_user_id b' = s_user_id s"
    by (fastforce simp: db_inv_def refs_ok_def batch_sims_def)
  have "distinct (map b_id (batches d))" using assms(1) by (simp add: db_inv_def keys_ok_def)
  from distinct_map_eqD [OF this b(1) b'(1)] b b' show ?thesis by simp
qed

lemma list_batch_owned:
  assumes w: "world_inv e w" and own: "owns_batch e i u (w_db w)"
    and res: "fst (ListBatchSimulations e i l ofs w) = Inr (ss, n)" and s: "s \<in> set ss"
  shows "sim_UserID s = u"
proof -
  let ?w = "snd (db_call e (count_batch_sims i) w)"
  let ?x = "ctx e (e_now e (w_tick ?w)) (e_uuid e (w_tick ?w))" and ?d = "others e (w_tick ?w) (w_db ?w)"
  have w1: "world_inv e ?w" "owns_batch e i u (w_db ?w)"
    using db_call_keeps [OF w, of "count_batch_sims i"] own by simp_all
  then have d: "db_inv ?d" "owns_batch e i u ?d"
    by (auto simp: world_inv_def others_inv intro: extends_owns [OF others_extends])
  from res have "fst (db_call e (select_batch_sims i l ofs) ?w) = Inr ss"
    by (auto simp: ListBatchSimulations_def split: prod.splits sum.splits)
  from db_call_Inr [OF this] obtain j where j: "e_uuid_in e i = Some j"
    and ss: "ss = map scanSimulation (take (nat l) (drop (nat ofs) (ordered_batch_sims j ?d)))"
    by (auto simp: select_batch_sims_def split: option.splits if_splits)
  from s ss obtain row where row: "row \<in> set (batch_sims j (simulations ?d))" "s = scanSimulation row"
    by (auto simp: ordered_batch_sims_def dest!: in_set_takeD in_set_dropD)
  with batch_sims_owned [OF d j row(1)] show ?thesis by (simp add: scanSimulation_def)
qed

definition owns_world :: "env \<Rightarrow> string \<Rightarrow> string \<Rightarrow> world \<Rightarrow> bool" where
  "owns_world e i u w \<longleftrightarrow> canonical e u \<and> owns_batch e i u (w_db w)"

lemma db_call_select_keeps:
  assumes "world_inv e w" and "\<And>x d. snd (stmt x d) = d"
  shows "world_inv e (snd (db_call e stmt w))"
    and "owns_world e i u w \<Longrightarrow> owns_world e i u (snd (db_call e stmt w))"
  using db_call_keeps [OF assms(1), of stmt] by (simp_all add: assms(2) owns_world_def)

lemma pg_create_batch_keeps:
  assumes "world_inv e w" and "0 < n"
  shows "world_inv e (snd (CreateBatch e u n k w))"
  unfolding CreateBatch_def using assms(1)
  by (rule db_call_keeps) (simp add: insert_batch_inv assms(2) insert_batch_extends)

interpretation pg: data_store "pgStore e" "world_inv e" "owns_world e" "canonical e" for e
proof
  fix w h i p l ofs n u k and k' :: string and b ss s
  note sel = db_call_select_keeps [where e = e and w = w]
  show "world_inv e w \<Longrightarrow> world_inv e (snd (ds_UserIDForKeyHash (pgStore e) h w))"
    "world_inv e w \<Longrightarrow> world_inv e (snd (ds_GetSimulation (pgStore e) i w))"
    "world_inv e w \<Longrightarrow> world_inv e (snd (ds_GetResult (pgStore e) h w))"
    "world_inv e w \<Longrightarrow> world_inv e (snd (ds_HasResult (pgStore e) h w))"
    "world_inv e w \<Longrightarrow> world_inv e (snd (ds_GetBatch (pgStore e) i w))"
    "world_inv e w \<Longrightarrow> world_inv e (snd (ds_FindBatchByIdempotencyKey (pgStore e) u k' w))"
    by (simp_all add: pg_method_defs sel(1))
  show "world_inv e w \<Longrightarrow> p_State p = ''queued'' \<or> p_State p = ''succeeded'' \<Longrightarrow>
      (\<And>i. p_BatchID p = Some i \<Longrightarrow> owns_world e i (p_UserID p) w) \<Longrightarrow>
      world_inv e (snd (ds_InsertSimulation (pgStore e) p w))"
    by (simp add: owns_world_def insert_simulation_keeps)
  show "world_inv e w \<Longrightarrow> world_inv e (snd (ds_ListBatchSimulations (pgStore e) i l ofs w))"
    by (simp add: list_batch_keeps)
  show "world_inv e w \<Longrightarrow> 0 < n \<Longrightarrow> world_inv e (snd (ds_CreateBatch (pgStore e) u n k w))"
    by (simp add: pg_create_batch_keeps)
  show "world_inv e w \<Longrightarrow> owns_world e i u w \<Longrightarrow> owns_world e i u (snd (ds_HasResult (pgStore e) h w))"
    by (simp add: pg_method_defs sel(2))
  show "world_inv e w \<Longrightarrow> owns_world e i u w \<Longrightarrow> owns_world e i u (snd (ds_InsertSimulation (pgStore e) p w))"
    by (simp add: owns_world_def insert_simulation_owns)
  show "world_inv e w \<Longrightarrow> fst (ds_UserIDForKeyHash (pgStore e) h w) = Inr u \<Longrightarrow> canonical e u"
    by (simp add: user_id_for_key_canonical)
  show "world_inv e w \<Longrightarrow> canonical e u \<Longrightarrow> fst (ds_CreateBatch (pgStore e) u n k w) = Inr i \<Longrightarrow>
      owns_world e i u (snd (ds_CreateBatch (pgStore e) u n k w))"
    by (simp add: owns_world_def create_batch_owns)
  show "world_inv e w \<Longrightarrow> fst (ds_GetBatch (pgStore e) i w) = Inr b \<Longrightarrow>
      owns_world e i (bat_UserID b) (snd (ds_GetBatch (pgStore e) i w))"
    by (simp add: owns_world_def get_batch_owns)
  show "world_inv e w \<Longrightarrow> owns_world e i u w \<Longrightarrow>
      fst (ds_ListBatchSimulations (pgStore e) i l ofs w) = Inr (ss, n) \<Longrightarrow> s \<in> set ss \<Longrightarrow> sim_UserID s = u"
    by (auto simp: owns_world_def dest: list_batch_owned)
qed

end
