(* ===== verification/GoSha256.thy ===== *)
theory GoSha256
  imports GoStrings "HOL-Library.Word"
begin

unbundle bit_operations_syntax

text \<open>
  \<open>crypto/sha256.Sum256\<close> followed by \<open>encoding/hex.EncodeToString\<close>, the digest both
  \<open>queue.ContentHash\<close> and \<open>api.HashAPIKey\<close> are built on: the FIPS 180-4 compression function on
  32-bit words, executable, so that the repository's shared test vectors can be checked by
  evaluation inside the kernel (theory Vectors).
\<close>

section \<open>Definitions\<close>

type_synonym u32 = "32 word"
type_synonym sha_state = "u32 list"

definition rotr :: "nat \<Rightarrow> u32 \<Rightarrow> u32" where
  "rotr n x = drop_bit n x OR push_bit (32 - n) x"

definition sha_k :: "u32 list" where
  "sha_k =
    [0x428a2f98, 0x71374491, 0xb5c0fbcf, 0xe9b5dba5, 0x3956c25b, 0x59f111f1, 0x923f82a4, 0xab1c5ed5,
     0xd807aa98, 0x12835b01, 0x243185be, 0x550c7dc3, 0x72be5d74, 0x80deb1fe, 0x9bdc06a7, 0xc19bf174,
     0xe49b69c1, 0xefbe4786, 0x0fc19dc6, 0x240ca1cc, 0x2de92c6f, 0x4a7484aa, 0x5cb0a9dc, 0x76f988da,
     0x983e5152, 0xa831c66d, 0xb00327c8, 0xbf597fc7, 0xc6e00bf3, 0xd5a79147, 0x06ca6351, 0x14292967,
     0x27b70a85, 0x2e1b2138, 0x4d2c6dfc, 0x53380d13, 0x650a7354, 0x766a0abb, 0x81c2c92e, 0x92722c85,
     0xa2bfe8a1, 0xa81a664b, 0xc24b8b70, 0xc76c51a3, 0xd192e819, 0xd6990624, 0xf40e3585, 0x106aa070,
     0x19a4c116, 0x1e376c08, 0x2748774c, 0x34b0bcb5, 0x391c0cb3, 0x4ed8aa4a, 0x5b9cca4f, 0x682e6ff3,
     0x748f82ee, 0x78a5636f, 0x84c87814, 0x8cc70208, 0x90befffa, 0xa4506ceb, 0xbef9a3f7, 0xc67178f2]"

definition sha_init :: sha_state where
  "sha_init = [0x6a09e667, 0xbb67ae85, 0x3c6ef372, 0xa54ff53a, 0x510e527f, 0x9b05688c, 0x1f83d9ab, 0x5be0cd19]"

definition ssig0 :: "u32 \<Rightarrow> u32" where
  "ssig0 x = rotr 7 x XOR rotr 18 x XOR drop_bit 3 x"
definition ssig1 :: "u32 \<Rightarrow> u32" where
  "ssig1 x = rotr 17 x XOR rotr 19 x XOR drop_bit 10 x"
definition bsig0 :: "u32 \<Rightarrow> u32" where
  "bsig0 x = rotr 2 x XOR rotr 13 x XOR rotr 22 x"
definition bsig1 :: "u32 \<Rightarrow> u32" where
  "bsig1 x = rotr 6 x XOR rotr 11 x XOR rotr 25 x"
definition ch :: "u32 \<Rightarrow> u32 \<Rightarrow> u32 \<Rightarrow> u32" where
  "ch x y z = (x AND y) XOR (NOT x AND z)"
definition maj :: "u32 \<Rightarrow> u32 \<Rightarrow> u32 \<Rightarrow> u32" where
  "maj x y z = (x AND y) XOR (x AND z) XOR (y AND z)"

text \<open>One message-schedule step on the last sixteen words, newest last.\<close>

fun sched_next :: "u32 list \<Rightarrow> u32" where
  "sched_next [w0, w1, w2, w3, w4, w5, w6, w7, w8, w9, w10, w11, w12, w13, w14, w15] =
     ssig1 w14 + w9 + ssig0 w1 + w0"
| "sched_next _ = 0"

fun sha_round :: "u32 \<Rightarrow> u32 \<Rightarrow> sha_state \<Rightarrow> sha_state" where
  "sha_round k w [a, b, c, d, e, f, g, h] =
     (let t1 = h + bsig1 e + ch e f g + k + w;
          t2 = bsig0 a + maj a b c
      in [t1 + t2, a, b, c, d + t1, e, f, g])"
| "sha_round k w st = st"

text \<open>
  The rounds of one block: the window holds the current word and the fifteen that follow it,
  so each round consumes its head and appends the next schedule word.
\<close>

fun sha_rounds :: "u32 list \<Rightarrow> u32 list \<Rightarrow> sha_state \<Rightarrow> sha_state" where
  "sha_rounds [] win st = st"
| "sha_rounds (k # ks) [] st = st"
| "sha_rounds (k # ks) (w # ws) st =
     (let st' = sha_round k w st; nxt = sched_next (w # ws)
      in sha_rounds ks (ws @ [nxt]) st')"

fun be_word :: "int list \<Rightarrow> u32" where
  "be_word [a, b, c, d] = word_of_int (a * 16777216 + b * 65536 + c * 256 + d)"
| "be_word _ = 0"

fun words_of :: "int list \<Rightarrow> u32 list" where
  "words_of (a # b # c # d # rest) = be_word [a, b, c, d] # words_of rest"
| "words_of _ = []"

definition sha_block :: "sha_state \<Rightarrow> int list \<Rightarrow> sha_state" where
  "sha_block st blk = map2 (+) st (sha_rounds sha_k (words_of blk) st)"

text \<open>Padding: a one bit, zeros up to 56 modulo 64, the bit length in eight bytes.\<close>

fun be_bytes :: "nat \<Rightarrow> int \<Rightarrow> int list" where
  "be_bytes 0 n = []"
| "be_bytes (Suc w) n = be_bytes w (n div 256) @ [n mod 256]"

definition sha_pad :: "int list \<Rightarrow> int list" where
  "sha_pad bs = bs @ [128] @ replicate ((119 - length bs mod 64) mod 64) 0 @ be_bytes 8 (8 * int (length bs))"

fun blocks :: "nat \<Rightarrow> int list \<Rightarrow> int list list" where
  "blocks 0 bs = []"
| "blocks (Suc n) bs = take 64 bs # blocks n (drop 64 bs)"

definition Sum256 :: "string \<Rightarrow> int list" where
  "Sum256 s =
     (let p = sha_pad (map (\<lambda>c. int (byte c)) s)
      in concat (map (\<lambda>w. be_bytes 4 (uint w)) (foldl sha_block sha_init (blocks (length p div 64) p))))"

definition EncodeToString :: "int list \<Rightarrow> string" where
  "EncodeToString bs = concat (map (\<lambda>b. [hex_digit (nat (b div 16)), hex_digit (nat (b mod 16))]) bs)"

definition sha256_hex :: "string \<Rightarrow> string" where
  "sha256_hex s = EncodeToString (Sum256 s)"

section \<open>Evaluation on unsigned values\<close>

text \<open>
  Each operation on 32-bit words is an operation on their unsigned values; the rounds written
  with these are the code equation of the digest, which makes evaluation inside the kernel take
  seconds instead of minutes.
\<close>

definition irotr :: "nat \<Rightarrow> int \<Rightarrow> int" where
  "irotr n x = (x div 2 ^ n) OR (x * 2 ^ (32 - n) mod 4294967296)"

fun isched :: "int list \<Rightarrow> int" where
  "isched [w0, w1, w2, w3, w4, w5, w6, w7, w8, w9, w10, w11, w12, w13, w14, w15] =
     ((irotr 17 w14 XOR irotr 19 w14 XOR w14 div 1024) + w9 + (irotr 7 w1 XOR irotr 18 w1 XOR w1 div 8) + w0)
       mod 4294967296"
| "isched _ = 0"

fun iround :: "int \<Rightarrow> int \<Rightarrow> int list \<Rightarrow> int list" where
  "iround k w [a, b, c, d, e, f, g, h] =
     (let t1 = (h + (irotr 6 e XOR irotr 11 e XOR irotr 25 e) +
               ((e AND f) XOR ((4294967295 - e) AND g)) + k + w) mod 4294967296;
         t2 = (irotr 2 a XOR irotr 13 a XOR irotr 22 a) + ((a AND b) XOR (a AND c) XOR (b AND c))
     in [(t1 + t2) mod 4294967296, a, b, c, (d + t1) mod 4294967296, e, f, g])"
| "iround k w st = st"

fun irounds :: "int list \<Rightarrow> int list \<Rightarrow> int list \<Rightarrow> int list" where
  "irounds [] win st = st"
| "irounds (k # ks) [] st = st"
| "irounds (k # ks) (w # ws) st =
     (let st' = iround k w st; nxt = isched (w # ws) in irounds ks (ws @ [nxt]) st')"

lemma uint_mod: "uint (x::u32) mod 4294967296 = uint x"
  using uint_lt2p [of x] uint_ge_0 [of x] by (intro mod_pos_pos_trivial) simp_all

lemma uint_not: "uint (NOT (x::u32)) = 4294967295 - uint x"
  unfolding unsigned_not_eq
  unfolding take_bit_not_eq_mask_diff
  by (simp add: mask_eq_exp_minus_1 take_bit_eq_mod uint_mod)

lemma uint_plus: "uint (x + y :: u32) = (uint x + uint y) mod 4294967296"
  by (simp add: uint_word_ariths)

lemma uint_drop: "uint (drop_bit n (x::u32)) = uint x div 2 ^ n"
  unfolding unsigned_drop_bit_eq by (simp add: drop_bit_eq_div take_bit_eq_mod uint_mod)

lemma uint_rotr: "uint (rotr n x) = irotr n (uint x)"
  unfolding rotr_def irotr_def unsigned_or_eq uint_drop unsigned_push_bit_eq
  by (simp only: push_bit_eq_mult take_bit_eq_mod) simp

lemmas uint_ops = uint_not uint_plus uint_rotr unsigned_and_eq unsigned_xor_eq uint_drop

lemma uint_sched_next: "uint (sched_next win) = isched (map uint win)"
  by (induction win rule: sched_next.induct)
    (simp_all add: uint_ops ssig0_def ssig1_def mod_simps)

lemma uint_sha_round: "map uint (sha_round k w st) = iround (uint k) (uint w) (map uint st)"
  by (induction k w st rule: sha_round.induct)
    (simp_all add: Let_def uint_ops bsig0_def bsig1_def ch_def maj_def mod_simps)

lemma uint_sha_rounds: "map uint (sha_rounds ks win st) = irounds (map uint ks) (map uint win) (map uint st)"
  by (induction ks win st rule: sha_rounds.induct)
    (simp_all add: Let_def uint_sha_round uint_sched_next del: iround.simps isched.simps sched_next.simps sha_round.simps)

definition iblock :: "int list \<Rightarrow> int list \<Rightarrow> int list" where
  "iblock st blk =
     map2 (\<lambda>x y. (x + y) mod 4294967296) st (irounds (map uint sha_k) (map uint (words_of blk)) st)"

lemma uint_sha_block: "map uint (sha_block st blk) = iblock (map uint st) blk"
  by (simp add: sha_block_def iblock_def uint_sha_rounds [symmetric] zip_map1 zip_map2 uint_plus split_def)

lemma uint_sha_blocks: "map uint (foldl sha_block st bs) = foldl iblock (map uint st) bs"
  by (induction bs arbitrary: st) (simp_all add: uint_sha_block)

lemma Sum256_unsigned [code]:
  "Sum256 s = (let p = sha_pad (map (\<lambda>c. int (byte c)) s)
     in concat (map (be_bytes 4) (foldl iblock (map uint sha_init) (blocks (length p div 64) p))))"
  by (simp add: Sum256_def Let_def uint_sha_blocks [symmetric] comp_def)

end
