(* ===== verification/Queue.thy ===== *)
theory Queue
  imports Connection GoSha256
begin

text \<open>
  \<open>internal/queue\<close>: the content hash, the batch expander (\<open>queue.go\<close>) and the reaper goroutine
  (\<open>reaper.go\<close>). The expander is written over the operations of a \<open>dataStore\<close>, so that what it
  keeps is proved once from the store's contract (locale \<open>expansion\<close>) and holds for the Postgres
  store by interpretation.
\<close>

section \<open>Content hash\<close>

definition ContentHash :: "string \<Rightarrow> string \<Rightarrow> string \<Rightarrow> string" where
  "ContentHash modelSHA256 weatherSHA256 engineVersion =
     sha256_hex (modelSHA256 @ '':'' @ weatherSHA256 @ '':'' @ engineVersion)"

section \<open>The expander\<close>

definition SyncExpandThreshold :: nat where
  "SyncExpandThreshold = 100"

definition strPtr :: "string \<Rightarrow> string option" where
  "strPtr s = (if s = [] then None else Some s)"

text \<open>
  \<open>ex_go\<close> starts a goroutine for a specification; the caller continues at once.
\<close>

record 'w Expander =
  ex_store :: "'w dataStore"
  ex_go :: "ExpandSpec \<Rightarrow> 'w \<Rightarrow> 'w"

definition NewExpander :: "'w dataStore \<Rightarrow> (ExpandSpec \<Rightarrow> 'w \<Rightarrow> 'w) \<Rightarrow> 'w Expander" where
  "NewExpander s go = \<lparr> ex_store = s, ex_go = go \<rparr>"

text \<open>The state a variant is inserted with: the cache is only asked when both digests are known.\<close>

definition variant_state :: "'w dataStore \<Rightarrow> ExpandSpec \<Rightarrow> Variant \<Rightarrow> 'w \<Rightarrow> string res \<times> 'w" where
  "variant_state ds spec v w =
     (if v_ModelSHA256 v \<noteq> [] \<and> sp_WeatherSHA256 spec \<noteq> [] then
        (case ds_HasResult ds (ContentHash (v_ModelSHA256 v) (sp_WeatherSHA256 spec) (sp_EngineVersion spec)) w of
           (Inl err, w1) \<Rightarrow> (Inl err, w1)
         | (Inr hit, w1) \<Rightarrow> (Inr (if hit then ''succeeded'' else ''queued''), w1))
      else (Inr ''queued'', w))"

definition variant_params :: "ExpandSpec \<Rightarrow> Variant \<Rightarrow> string \<Rightarrow> InsertSimulationParams" where
  "variant_params spec v state =
     \<lparr> p_BatchID = Some (sp_BatchID spec), p_UserID = sp_UserID spec,
       p_EngineVersion = sp_EngineVersion spec, p_Priority = sp_Priority spec,
       p_ModelRef = v_ModelRef v, p_WeatherRef = sp_WeatherRef spec,
       p_ModelSHA256 = strPtr (v_ModelSHA256 v), p_WeatherSHA256 = strPtr (sp_WeatherSHA256 spec),
       p_ExtractionSpec = sp_ExtractionSpec spec,
       p_ContentHash = ContentHash (v_ModelSHA256 v) (sp_WeatherSHA256 spec) (sp_EngineVersion spec),
       p_State = state \<rparr>"

fun expand_variants :: "'w dataStore \<Rightarrow> ExpandSpec \<Rightarrow> Variant list \<Rightarrow> 'w \<Rightarrow> unit res \<times> 'w" where
  "expand_variants ds spec [] w = (Inr (), w)"
| "expand_variants ds spec (v # vs) w =
     (case variant_state ds spec v w of
        (Inl err, w1) \<Rightarrow> (Inl err, w1)
      | (Inr state, w1) \<Rightarrow>
          (case ds_InsertSimulation ds (variant_params spec v state) w1 of
             (Inl err, w2) \<Rightarrow> (Inl err, w2)
           | (Inr sid, w2) \<Rightarrow> expand_variants ds spec vs w2))"

definition Expand :: "'w Expander \<Rightarrow> ExpandSpec \<Rightarrow> 'w \<Rightarrow> unit res \<times> 'w" where
  "Expand e spec w = expand_variants (ex_store e) spec (sp_Variants spec) w"

definition ExpandAsync :: "'w Expander \<Rightarrow> ExpandSpec \<Rightarrow> 'w \<Rightarrow> 'w" where
  "ExpandAsync e spec w = ex_go e spec w"

text \<open>
  Goroutines of the Postgres-backed expander: started ones wait in \<open>w_jobs\<close>; the scheduler runs
  one to its end, logging the outcome. The 30 minute deadline shows as a statement that fails.
\<close>

definition go_expand :: "ExpandSpec \<Rightarrow> world \<Rightarrow> world" where
  "go_expand spec w = w\<lparr> w_jobs := w_jobs w @ [spec] \<rparr>"

datatype expand_log = ExpansionFailed string error | BatchExpanded string nat

definition run_job :: "world Expander \<Rightarrow> world \<Rightarrow> expand_log option \<times> world" where
  "run_job e w =
     (case w_jobs w of
        [] \<Rightarrow> (None, w)
      | spec # js \<Rightarrow>
          (case Expand e spec (w\<lparr> w_jobs := js \<rparr>) of
             (Inl err, w1) \<Rightarrow> (Some (ExpansionFailed (sp_BatchID spec) err), w1)
           | (Inr _, w1) \<Rightarrow> (Some (BatchExpanded (sp_BatchID spec) (length (sp_Variants spec))), w1)))"

section \<open>The reaper\<close>

definition ReaperInterval :: int where
  "ReaperInterval = 15 * 1000000000"

definition reap_stmt :: "stmt_ctx \<Rightarrow> db \<Rightarrow> int res \<times> db" where
  "reap_stmt x d =
     (case reap_expired_leases (x_now x) d of
        ((requeued, failed), d') \<Rightarrow> (Inr (int requeued + int failed), d'))"

definition sweep :: "env \<Rightarrow> world \<Rightarrow> int res \<times> world" where
  "sweep e w = db_call e reap_stmt w"

datatype reaper_log = SweepFailed error | Swept int | ResyncFailed error | Resynced int

definition log_count :: "(error \<Rightarrow> reaper_log) \<Rightarrow> (int \<Rightarrow> reaper_log) \<Rightarrow> int res \<Rightarrow> reaper_log list" where
  "log_count bad good r = (case r of Inl err \<Rightarrow> [bad err] | Inr n \<Rightarrow> if n > 0 then [good n] else [])"

definition reaper_tick :: "env \<Rightarrow> world \<Rightarrow> reaper_log list \<times> world" where
  "reaper_tick e w =
     (let (r1, w1) = sweep e w;
          (r2, w2) = ResyncStuckBatches e w1
      in (log_count SweepFailed Swept r1 @ log_count ResyncFailed Resynced r2, w2))"

text \<open>What the \<open>select\<close> of \<open>Run\<close> receives, in order: ticks until the context is cancelled.\<close>

datatype reaper_event = Tick | Done

fun Run :: "env \<Rightarrow> reaper_event list \<Rightarrow> world \<Rightarrow> reaper_log list \<times> world" where
  "Run e [] w = ([], w)"
| "Run e (Done # evs) w = ([], w)"
| "Run e (Tick # evs) w =
     (let (l, w1) = reaper_tick e w; (ls, w2) = Run e evs w1 in (l @ ls, w2))"

section \<open>Expansion keeps the store's contract\<close>

lemma variant_params_simps [simp]:
  "p_BatchID (variant_params spec v st) = Some (sp_BatchID spec)"
  "p_UserID (variant_params spec v st) = sp_UserID spec" "p_State (variant_params spec v st) = st"
  "p_Priority (variant_params spec v st) = sp_Priority spec"
  by (simp_all add: variant_params_def)

locale expansion = data_store ds I owns canon
  for ds :: "'w dataStore" and I owns canon +
  fixes spawn :: "ExpandSpec \<Rightarrow> 'w \<Rightarrow> 'w"
  assumes spawn_keeps: "I w \<Longrightarrow> owns (sp_BatchID spec) (sp_UserID spec) w \<Longrightarrow> I (spawn spec w)"
begin

lemma variant_state_cases:
  assumes "I w" and "owns (sp_BatchID spec) (sp_UserID spec) w"
  shows "I (snd (variant_state ds spec v w)) \<and>
    owns (sp_BatchID spec) (sp_UserID spec) (snd (variant_state ds spec v w)) \<and>
    (\<forall>st. fst (variant_state ds spec v w) = Inr st \<longrightarrow> st = ''queued'' \<or> st = ''succeeded'')"
proof -
  let ?h = "ContentHash (v_ModelSHA256 v) (sp_WeatherSHA256 spec) (sp_EngineVersion spec)"
  have "I (snd (ds_HasResult ds ?h w))" "owns (sp_BatchID spec) (sp_UserID spec) (snd (ds_HasResult ds ?h w))"
    using hasres_keeps hasres_owns assms by blast+
  with assms show ?thesis
    by (cases "ds_HasResult ds ?h w") (auto simp: variant_state_def split: sum.splits)
qed

lemma expand_variants_keeps:
  assumes "I w" and "owns (sp_BatchID spec) (sp_UserID spec) w"
  shows "I (snd (expand_variants ds spec vs w)) \<and>
    owns (sp_BatchID spec) (sp_UserID spec) (snd (expand_variants ds spec vs w))"
  using assms
proof (induction vs arbitrary: w)
  case (Cons v vs)
  obtain r1 w1 where vs1: "variant_state ds spec v w = (r1, w1)" by fastforce
  note st = variant_state_cases [OF Cons.prems, of v, unfolded vs1]
  show ?case
  proof (cases r1)
    case (Inl err)
    with vs1 st show ?thesis by simp
  next
    case (Inr state)
    obtain r2 w2 where ins: "ds_InsertSimulation ds (variant_params spec v state) w1 = (r2, w2)" by fastforce
    have "I w2" "owns (sp_BatchID spec) (sp_UserID spec) w2"
      using insert_keeps [of w1 "variant_params spec v state"] st ins Inr
        insert_owns [of w1 "sp_BatchID spec" "sp_UserID spec" "variant_params spec v state"]
      by simp_all
    with Cons.IH [of w2] vs1 Inr ins show ?thesis by (cases r2) simp_all
  qed
qed simp

lemma Expand_keeps:
  "I w \<Longrightarrow> owns (sp_BatchID spec) (sp_UserID spec) w \<Longrightarrow> ex_store e = ds \<Longrightarrow> I (snd (Expand e spec w))"
  by (simp add: Expand_def expand_variants_keeps)

end

interpretation pgx: expansion "pgStore e" "world_inv e" "owns_world e" "canonical e" go_expand for e
  by unfold_locales (auto simp: world_inv_def go_expand_def owns_world_def)


section \<open>What an expansion inserts\<close>

text \<open>Rows of a batch and the batches themselves across one call of a store method.\<close>

lemma has_result_rows_mono:
  "world_inv e w \<Longrightarrow> rows_of j (w_db w) \<le> rows_of j (w_db (snd (HasResult e h w)))"
  by (simp add: HasResult_def db_call_select_db others_def run_rows_mono world_inv_def)

lemma insert_rows_Suc:
  assumes "world_inv e w" and "fst (InsertSimulation e p w) = Inr sid"
    and "p_BatchID p = Some i" and "e_uuid_in e i = Some j"
  shows "rows_of j (w_db w) < rows_of j (w_db (snd (InsertSimulation e p w)))"
proof -
  let ?d = "others e (w_tick w) (w_db w)" and ?w' = "snd (InsertSimulation e p w)"
  let ?x = "ctx e (e_now e (w_tick w)) (e_uuid e (w_tick w))"
  let ?fin = "if p_State p = ''succeeded'' then Some (e_gonow e (w_tick w)) else None"
  have le: "rows_of j (w_db w) \<le> rows_of j ?d"
    using assms(1) by (simp add: others_def run_rows_mono world_inv_def)
  have "insert_simulation p ?fin ?x ?d = (Inr sid, w_db ?w')"
    using db_call_Inr [OF assms(2) [unfolded InsertSimulation_def Let_def]]
    by (simp add: InsertSimulation_def)
  then have "rows_of j (w_db ?w') = Suc (rows_of j ?d)"
    by (cases rule: insert_simulation_cases [where p = p and fin = ?fin and x = ?x and d = ?d])
       (auto simp: assms(3,4) rows_of_def batch_sims_def new_sim_row_def dest!: sym [of "insert_row _ _"])
  with le show ?thesis by simp
qed

lemma variant_state_pg:
  assumes "variant_state (pgStore e) spec v w = (r, w1)" and "world_inv e w"
  shows "rows_of j (w_db w) \<le> rows_of j (w_db w1) \<and> extends (w_db w) (w_db w1)"
proof -
  let ?h = "ContentHash (v_ModelSHA256 v) (sp_WeatherSHA256 spec) (sp_EngineVersion spec)"
  have "w1 = w \<or> w1 = snd (HasResult e ?h w)"
    using assms(1) by (auto simp: variant_state_def split: if_splits prod.splits sum.splits)
  moreover have "extends (w_db w) (w_db (snd (HasResult e ?h w)))"
    unfolding HasResult_def by (rule db_call_extends) simp
  ultimately show ?thesis using has_result_rows_mono [OF assms(2)] by auto
qed

lemma expand_variants_rows:
  assumes "world_inv e w" and "owns_world e (sp_BatchID spec) (sp_UserID spec) w"
    and "e_uuid_in e (sp_BatchID spec) = Some j"
  shows "extends (w_db w) (w_db (snd (expand_variants (pgStore e) spec vs w))) \<and>
    (fst (expand_variants (pgStore e) spec vs w) = Inr () \<longrightarrow>
       rows_of j (w_db w) + length vs \<le> rows_of j (w_db (snd (expand_variants (pgStore e) spec vs w))))"
  using assms
proof (induction vs arbitrary: w)
  case (Cons v vs)
  obtain r1 w1 where vs1: "variant_state (pgStore e) spec v w = (r1, w1)" by fastforce
  note st = pgx.variant_state_cases [OF Cons.prems(1,2), of v, unfolded vs1]
  note st' = variant_state_pg [OF vs1 Cons.prems(1)]
  show ?case
  proof (cases r1)
    case (Inl err)
    with vs1 st' show ?thesis by simp
  next
    case (Inr state)
    let ?p = "variant_params spec v state"
    obtain r2 w2 where ins: "InsertSimulation e ?p w1 = (r2, w2)" by fastforce
    have inv: "world_inv e w2" and own: "owns_world e (sp_BatchID spec) (sp_UserID spec) w2"
      using pg.insert_keeps [of e w1 ?p] pg.insert_owns [of e w1 "sp_BatchID spec" "sp_UserID spec" ?p] st ins Inr
      by simp_all
    have ext: "extends (w_db w1) (w_db w2)"
      using db_call_extends [of "insert_simulation ?p _"] ins insert_simulation_extends
      by (metis InsertSimulation_def snd_conv)
    show ?thesis
    proof (cases r2)
      case (Inl err)
      with vs1 \<open>r1 = Inr state\<close> ins st' ext show ?thesis by (auto intro: extends_trans)
    next
      case (Inr sid)
      have "rows_of j (w_db w1) < rows_of j (w_db w2)"
        using insert_rows_Suc [of e w1 ?p sid "sp_BatchID spec" j] st ins Inr Cons.prems(3) by simp
      moreover have "extends (w_db w) (w_db w2)" using st' ext by (auto intro: extends_trans)
      moreover have "expand_variants (pgStore e) spec (v # vs) w = expand_variants (pgStore e) spec vs w2"
        using vs1 \<open>r1 = Inr state\<close> ins Inr by simp
      moreover note Cons.IH [OF inv own Cons.prems(3)]
      moreover have "rows_of j (w_db w) \<le> rows_of j (w_db w1)" using st' by simp
      ultimately show ?thesis using extends_trans [of "w_db w" "w_db w2"] by auto
    qed
  qed
qed simp

definition pgExpander :: "env \<Rightarrow> world Expander" where
  "pgExpander e = NewExpander (pgStore e) go_expand"

lemma pgExpander_simps [simp]: "ex_store (pgExpander e) = pgStore e" "ex_go (pgExpander e) = go_expand"
  by (simp_all add: pgExpander_def NewExpander_def)

lemma run_job_keeps: "world_inv e w \<Longrightarrow> world_inv e (snd (run_job (pgExpander e) w))"
proof (cases "w_jobs w")
  case (Cons spec js)
  assume w: "world_inv e w"
  with Cons have "world_inv e (w\<lparr> w_jobs := js \<rparr>)" "owns_world e (sp_BatchID spec) (sp_UserID spec) (w\<lparr> w_jobs := js \<rparr>)"
    by (auto simp: world_inv_def owns_world_def)
  then have "world_inv e (snd (Expand (pgExpander e) spec (w\<lparr> w_jobs := js \<rparr>)))"
    by (rule pgx.Expand_keeps) simp
  with Cons show ?thesis by (auto simp: run_job_def split: prod.splits sum.splits)
qed (simp add: run_job_def)

lemma snd_reap_stmt [simp]: "snd (reap_stmt x d) = snd (reap_expired_leases (x_now x) d)"
  by (auto simp: reap_stmt_def split: prod.splits)

lemma sweep_keeps: "world_inv e w \<Longrightarrow> world_inv e (snd (sweep e w))"
  unfolding sweep_def
proof (erule db_call_keeps)
  fix x :: stmt_ctx and d assume d: "db_inv d"
  from perform_extends [of d x AReap] reap_inv [OF d, of "x_now x"]
  show "db_inv (snd (reap_stmt x d)) \<and> users (snd (reap_stmt x d)) = users d \<and> extends d (snd (reap_stmt x d))"
    by (simp add: reap_expired_leases_def Let_def)
qed

lemma resync_keeps: "world_inv e w \<Longrightarrow> world_inv e (snd (ResyncStuckBatches e w))"
  unfolding ResyncStuckBatches_def by (erule db_call_keeps) (simp add: rolled_up_resync)

lemma reaper_tick_keeps: "world_inv e w \<Longrightarrow> world_inv e (snd (reaper_tick e w))"
  using sweep_keeps [of e w] resync_keeps [of e "snd (sweep e w)"] by (simp add: reaper_tick_def split_beta Let_def)

lemma Run_keeps: "world_inv e w \<Longrightarrow> world_inv e (snd (Run e evs w))"
proof (induction e evs w rule: Run.induct)
  case (3 e evs w)
  from reaper_tick_keeps [OF 3(2)] have "world_inv e (snd (Run e evs (snd (reaper_tick e w))))" using 3(1) by (metis prod.collapse)
  then show ?case by (simp add: split_beta Let_def)
qed simp_all

section \<open>Expansion that fails\<close>

text \<open>
  With no other writer and no lost replies, an expansion that returns an error has inserted fewer
  rows than it had variants.
\<close>

definition replies :: "env \<Rightarrow> bool" where
  "replies e \<longleftrightarrow> (\<forall>n. e_other e n = [] \<and> e_fault e n \<noteq> LostReply)"

lemma replies_others [simp]: "replies e \<Longrightarrow> others e n d = d"
  by (simp add: replies_def others_def)

lemma insert_rows_replies:
  assumes "replies e" and "InsertSimulation e p w = (r, w')"
  shows "rows_of j (w_db w') \<le> rows_of j (w_db w) + (case r of Inl err \<Rightarrow> 0 | Inr sid \<Rightarrow> 1)"
proof -
  let ?x = "ctx e (e_now e (w_tick w)) (e_uuid e (w_tick w))"
  let ?fin = "if p_State p = ''succeeded'' then Some (e_gonow e (w_tick w)) else None"
  have "e_fault e (w_tick w) \<noteq> LostReply" using assms(1) by (simp add: replies_def)
  then consider "w_db w' = w_db w" | "(r, w_db w') = insert_simulation p ?fin ?x (w_db w)"
    using assms by (auto simp: InsertSimulation_def db_call_def Let_def split: prod.splits fault.splits)
  then show ?thesis
  proof cases
    case 2
    then show ?thesis
      by (cases rule: insert_simulation_cases [where p = p and fin = ?fin and x = ?x and d = "w_db w"])
         (auto simp: rows_of_def batch_sims_def)
  qed simp
qed

lemma expand_error_rows:
  assumes "replies e" and "fst (expand_variants (pgStore e) spec vs w) = Inl err"
  shows "rows_of j (w_db (snd (expand_variants (pgStore e) spec vs w))) < rows_of j (w_db w) + length vs"
  using assms(2)
proof (induction vs arbitrary: w)
  case (Cons v vs)
  obtain r1 w1 where vs1: "variant_state (pgStore e) spec v w = (r1, w1)" by fastforce
  have "w_db w1 = w_db w"
    using vs1 assms(1) by (auto simp: variant_state_def HasResult_def db_call_select_db
        dest!: arg_cong [of "db_call _ _ _" _ "\<lambda>p. w_db (snd p)"] split: if_splits prod.splits sum.splits)
  note same = this
  show ?case
  proof (cases r1)
    case (Inl err)
    with vs1 same show ?thesis by simp
  next
    case (Inr state)
    obtain r2 w2 where ins: "InsertSimulation e (variant_params spec v state) w1 = (r2, w2)" by fastforce
    note le = insert_rows_replies [OF assms(1) ins, of j]
    show ?thesis
    proof (cases r2)
      case (Inl err)
      with vs1 \<open>r1 = Inr state\<close> ins le same show ?thesis by simp
    next
      case (Inr sid)
      with vs1 \<open>r1 = Inr state\<close> ins le same Cons.IH [of w2] Cons.prems show ?thesis by simp
    qed
  qed
qed simp

section \<open>Expansion without interference\<close>

definition quiet :: "env \<Rightarrow> bool" where
  "quiet e \<longleftrightarrow> (\<forall>n. e_other e n = [] \<and> e_fault e n = NoFault)"

lemma quiet_call:
  "quiet e \<Longrightarrow> db_call e stmt w =
     (fst (stmt (ctx e (e_now e (w_tick w)) (e_uuid e (w_tick w))) (w_db w)),
      w\<lparr> w_db := snd (stmt (ctx e (e_now e (w_tick w)) (e_uuid e (w_tick w))) (w_db w)), w_tick := Suc (w_tick w) \<rparr>)"
  by (simp add: quiet_def db_call_def others_def Let_def split_beta)

lemma insert_simulation_ok:
  assumes "x_uuid_in x (p_UserID p) = Some u" and "p_BatchID p = Some i" and "x_uuid_in x i = Some j"
    and "int4 (p_Priority p)" and "p_State p \<in> set sim_states" and "x_uuid x \<notin> s_id ` set (simulations d)"
    and "u \<in> u_id ` set (users d)" and "j \<in> b_id ` set (batches d)"
  shows "insert_simulation p fin x d = (Inr (x_uuid x), insert_row (new_sim_row p u (Some j) fin x) d)"
proof -
  have "query_row (\<lambda>s. s_id s = x_uuid x) (simulations d) = None" using assms(6) unfolding query_row_None by force
  moreover have "query_row (\<lambda>r. u_id r = u) (users d) \<noteq> None" "query_row (\<lambda>r. b_id r = j) (batches d) \<noteq> None"
    using assms(7,8) by (auto simp: query_row_None)
  ultimately show ?thesis using assms(1-5) by (simp add: insert_simulation_def)
qed

text \<open>What a row says of its variant, and what it should say.\<close>

definition row_view ::
  "simulations_row \<Rightarrow> string option \<times> string \<times> string \<times> int \<times> string \<times> string \<times> string option \<times> string" where
  "row_view s =
     (s_batch_id s, s_user_id s, s_engine_version s, s_priority s, s_model_ref s, s_weather_ref s,
      s_content_hash s, s_state s)"

definition cached :: "ExpandSpec \<Rightarrow> db \<Rightarrow> Variant \<Rightarrow> bool" where
  "cached spec d v \<longleftrightarrow>
     v_ModelSHA256 v \<noteq> [] \<and> sp_WeatherSHA256 spec \<noteq> [] \<and>
     List.member (map r_content_hash (results d))
       (ContentHash (v_ModelSHA256 v) (sp_WeatherSHA256 spec) (sp_EngineVersion spec))"

definition variant_view ::
  "ExpandSpec \<Rightarrow> db \<Rightarrow> Variant \<Rightarrow> string option \<times> string \<times> string \<times> int \<times> string \<times> string \<times> string option \<times> string" where
  "variant_view spec d v =
     (Some (sp_BatchID spec), sp_UserID spec, sp_EngineVersion spec, sp_Priority spec, v_ModelRef v,
      sp_WeatherRef spec, Some (ContentHash (v_ModelSHA256 v) (sp_WeatherSHA256 spec) (sp_EngineVersion spec)),
      if cached spec d v then ''succeeded'' else ''queued'')"

lemma variant_state_quiet:
  assumes "quiet e"
  shows "\<exists>t. w_tick w \<le> t \<and> variant_state (pgStore e) spec v w =
    (Inr (if cached spec (w_db w) v then ''succeeded'' else ''queued''), w\<lparr> w_tick := t \<rparr>)"
proof (cases "v_ModelSHA256 v \<noteq> [] \<and> sp_WeatherSHA256 spec \<noteq> []")
  case True
  then show ?thesis
    by (intro exI [of _ "Suc (w_tick w)"])
       (auto simp: variant_state_def HasResult_def quiet_call [OF assms] exists_result_def cached_def query_row_None
         image_iff eq_commute [of "ContentHash _ _ _"])
next
  case False
  then show ?thesis by (intro exI [of _ "w_tick w"]) (auto simp: variant_state_def cached_def)
qed

definition ready :: "env \<Rightarrow> ExpandSpec \<Rightarrow> world \<Rightarrow> bool" where
  "ready e spec w \<longleftrightarrow>
     canonical e (sp_UserID spec) \<and> sp_UserID spec \<in> u_id ` set (users (w_db w)) \<and>
     canonical e (sp_BatchID spec) \<and> sp_BatchID spec \<in> b_id ` set (batches (w_db w)) \<and>
     int4 (sp_Priority spec) \<and> inj (e_uuid e) \<and>
     (\<forall>n \<ge> w_tick w. e_uuid e n \<notin> s_id ` set (simulations (w_db w)))"

lemma insert_variant_quiet:
  assumes "quiet e" and "ready e spec w" and "st = ''queued'' \<or> st = ''succeeded''"
  shows "\<exists>row w'. InsertSimulation e (variant_params spec v st) w = (Inr (e_uuid e (w_tick w)), w') \<and>
    ready e spec w' \<and> results (w_db w') = results (w_db w) \<and>
    simulations (w_db w') = simulations (w_db w) @ [row] \<and>
    row_view row = (Some (sp_BatchID spec), sp_UserID spec, sp_EngineVersion spec, sp_Priority spec, v_ModelRef v,
      sp_WeatherRef spec, Some (ContentHash (v_ModelSHA256 v) (sp_WeatherSHA256 spec) (sp_EngineVersion spec)), st)"
proof -
  let ?p = "variant_params spec v st" and ?d = "w_db w"
  let ?x = "ctx e (e_now e (w_tick w)) (e_uuid e (w_tick w))"
  let ?fin = "if p_State ?p = ''succeeded'' then Some (e_gonow e (w_tick w)) else None"
  let ?row = "new_sim_row ?p (sp_UserID spec) (Some (sp_BatchID spec)) ?fin ?x"
  have ins: "insert_simulation ?p ?fin ?x ?d = (Inr (e_uuid e (w_tick w)), insert_row ?row ?d)"
    using assms(2,3) by (subst insert_simulation_ok) (auto simp: ready_def canonical_def sim_states_def)
  let ?w' = "w\<lparr> w_db := insert_row ?row ?d, w_tick := Suc (w_tick w) \<rparr>"
  have call: "InsertSimulation e ?p w = (Inr (e_uuid e (w_tick w)), ?w')"
    using ins by (simp add: InsertSimulation_def quiet_call [OF assms(1)])
  have id: "s_id ?row = e_uuid e (w_tick w)" by (simp add: new_sim_row_def)
  have "b_id ` set (batches (insert_row ?row ?d)) = b_id ` set (batches ?d)"
    using batch_keys_insert_row(1) [of ?row ?d] by (metis set_map)
  moreover have "e_uuid e n \<noteq> e_uuid e (w_tick w)" if "Suc (w_tick w) \<le> n" for n
    using assms(2) that by (auto simp: ready_def inj_eq)
  ultimately have "ready e spec ?w'" using assms(2) id by (auto simp: ready_def)
  with call show ?thesis by (auto simp: row_view_def new_sim_row_def variant_params_def)
qed

lemma expand_variants_quiet:
  assumes "quiet e" and "ready e spec w"
  shows "\<exists>rows w'. expand_variants (pgStore e) spec vs w = (Inr (), w') \<and>
    simulations (w_db w') = simulations (w_db w) @ rows \<and> map row_view rows = map (variant_view spec (w_db w)) vs"
  using assms(2)
proof (induction vs arbitrary: w)
  case (Cons v vs)
  let ?st = "if cached spec (w_db w) v then ''succeeded'' else ''queued''"
  obtain t where t: "w_tick w \<le> t"
    and vs1: "variant_state (pgStore e) spec v w = (Inr ?st, w\<lparr> w_tick := t \<rparr>)"
    using variant_state_quiet [OF assms(1)] by blast
  have "ready e spec (w\<lparr> w_tick := t \<rparr>)" using Cons.prems t by (auto simp: ready_def)
  from insert_variant_quiet [OF assms(1) this, of ?st v]
  obtain row w2 where w2: "InsertSimulation e (variant_params spec v ?st) (w\<lparr> w_tick := t \<rparr>) = (Inr (e_uuid e t), w2)"
    "ready e spec w2" "results (w_db w2) = results (w_db w)" "simulations (w_db w2) = simulations (w_db w) @ [row]"
    and row: "row_view row = variant_view spec (w_db w) v"
    unfolding variant_view_def by fastforce
  from Cons.IH [OF w2(2)] obtain rows w' where w': "expand_variants (pgStore e) spec vs w2 = (Inr (), w')"
    "simulations (w_db w') = simulations (w_db w2) @ rows" "map row_view rows = map (variant_view spec (w_db w2)) vs"
    by blast
  have "variant_view spec (w_db w2) = variant_view spec (w_db w)"
    by (rule ext) (simp add: variant_view_def cached_def w2(3))
  with w' w2 row vs1 show ?case by (intro exI [of _ "row # rows"] exI [of _ w']) simp
qed simp

lemma append_sep_inj: "c \<notin> set a \<Longrightarrow> c \<notin> set a' \<Longrightarrow> a @ c # x = a' @ c # x' \<Longrightarrow> a = a' \<and> x = x'"
proof (induction a arbitrary: a')
  case Nil
  then show ?case by (cases a') auto
next
  case (Cons y a)
  then show ?case by (cases a') auto
qed

section \<open>Properties\<close>

text \<open>
  C19. A batch expansion that no other writer disturbs and whose statements succeed returns without
  error and appends exactly one row per variant, in order, each with the batch's id and owner,
  the submission's version, priority and weather, the variant's model and content hash, and the
  state \<open>succeeded\<close> when both digests are known and a result is cached under the hash,
  \<open>queued\<close> otherwise.
\<close>

theorem Expand_inserts_every_variant:
  assumes "quiet e" and "ready e spec w"
  shows "fst (Expand (pgExpander e) spec w) = Inr () \<and>
    (\<exists>rows. simulations (w_db (snd (Expand (pgExpander e) spec w))) = simulations (w_db w) @ rows \<and>
       map row_view rows = map (variant_view spec (w_db w)) (sp_Variants spec))"
  using expand_variants_quiet [OF assms, of "sp_Variants spec"] by (auto simp: Expand_def)

text \<open>
  C18. Whatever the other participants do meanwhile, when \<open>Expand\<close> returns without error for a batch
  whose total is the number of its variants, the batch has left the state \<open>expanding\<close>.
\<close>

theorem Expand_success_completes_batch:
  assumes "world_inv e w" and "b \<in> set (batches (w_db w))"
    and "e_uuid_in e (sp_BatchID spec) = Some (b_id b)"
    and "b_user_id b = sp_UserID spec" and "canonical e (sp_UserID spec)"
    and "b_total b = int (length (sp_Variants spec))"
    and "fst (Expand (pgExpander e) spec w) = Inr ()"
  shows "\<exists>b' \<in> set (batches (w_db (snd (Expand (pgExpander e) spec w)))).
    batch_frame b' = batch_frame b \<and> b_state b' \<noteq> ''expanding''"
proof -
  let ?w' = "snd (Expand (pgExpander e) spec w)"
  have own: "owns_world e (sp_BatchID spec) (sp_UserID spec) w"
    using assms(2-5) by (auto simp: owns_world_def owns_batch_def)
  have inv: "db_inv (w_db ?w')"
    using pgx.Expand_keeps [OF assms(1) own, of "pgExpander e"] by (simp add: world_inv_def)
  note rows = expand_variants_rows [OF assms(1) own assms(3), of "sp_Variants spec"]
  then have "extends (w_db w) (w_db ?w')" and le: "length (sp_Variants spec) \<le> rows_of (b_id b) (w_db ?w')"
    using assms(7) by (auto simp: Expand_def)
  from extends_batch [OF this(1) assms(2)]
  obtain b' where b': "b' \<in> set (batches (w_db ?w'))" "batch_frame b' = batch_frame b" .
  then have "b_id b' = b_id b" "b_total b' = int (length (sp_Variants spec))"
    using assms(6) by (auto simp: batch_frame_def)
  with batch_expanding_iff [OF inv b'(1)] le b' show ?thesis by auto
qed

text \<open>
  An expansion that aborts is never repaired. If \<open>Expand\<close> returns an error on a fresh batch (no
  other writer inserted for it and the failing statement had no effect), then whatever any
  participant does afterwards, resync sweeps included, the batch stays \<open>expanding\<close> for as
  long as nobody inserts further rows for it, and no code path of the program does.
\<close>

lemma failed_expansion_stays_expanding:
  assumes "world_inv e w" and "replies e" and "b \<in> set (batches (w_db w))"
    and "e_uuid_in e (sp_BatchID spec) = Some (b_id b)"
    and "b_user_id b = sp_UserID spec" and "canonical e (sp_UserID spec)"
    and "b_total b = int (length (sp_Variants spec))" and "rows_of (b_id b) (w_db w) = 0"
    and "fst (Expand (pgExpander e) spec w) = Inl err"
    and "list_all (\<lambda>l. \<not> inserts_into (b_id b) l) ls"
  shows "\<exists>b' \<in> set (batches (run ls (w_db (snd (Expand (pgExpander e) spec w))))).
    b_id b' = b_id b \<and> b_state b' = ''expanding''"
proof -
  let ?d = "w_db (snd (Expand (pgExpander e) spec w))"
  have own: "owns_world e (sp_BatchID spec) (sp_UserID spec) w"
    using assms(3-6) by (auto simp: owns_world_def owns_batch_def)
  have inv: "db_inv ?d"
    using pgx.Expand_keeps [OF assms(1) own, of "pgExpander e"] by (simp add: world_inv_def)
  have "extends (w_db w) (run ls ?d)"
    using expand_variants_rows [OF assms(1) own assms(4), of "sp_Variants spec"] run_extends [of ?d ls]
    by (auto simp: Expand_def intro: extends_trans)
  from extends_batch [OF this assms(3)]
  obtain b' where b': "b' \<in> set (batches (run ls ?d))" "batch_frame b' = batch_frame b" .
  have "rows_of (b_id b) (run ls ?d) < length (sp_Variants spec)"
    using expand_error_rows [OF assms(2), of spec "sp_Variants spec" w err "b_id b"] assms(8,9)
      run_rows_same [OF inv assms(10)] by (simp add: Expand_def)
  with batch_expanding_iff [OF run_inv [OF inv, of ls] b'(1)] b' assms(7) show ?thesis
    by (auto simp: batch_frame_def)
qed

text \<open>
  The background work of the apiserver keeps the world's invariant under any interleaving and any
  statement failures: the reaper loop for every sequence of ticks, and the asynchronous
  expansions one after the other.
\<close>

lemma background_work_keeps_invariant:
  assumes "world_inv e w"
  shows "world_inv e (snd (Run e evs w)) \<and> world_inv e (((\<lambda>w. snd (run_job (pgExpander e) w)) ^^ n) w)"
proof
  show "world_inv e (((\<lambda>w. snd (run_job (pgExpander e) w)) ^^ n) w)"
    using assms by (induction n) (auto intro: run_job_keeps)
qed (rule Run_keeps [OF assms])

text \<open>
  C39. The string that is hashed determines its parts: for digests without a colon, two submissions
  have the same content hash exactly when model digest, weather digest and engine version agree,
  provided SHA-256 does not collide on the two strings.
\<close>

theorem ContentHash_identifies_inputs:
  assumes "CHR '':'' \<notin> set m" "CHR '':'' \<notin> set w" "CHR '':'' \<notin> set m'" "CHR '':'' \<notin> set w'"
    and "sha256_hex (m @ '':'' @ w @ '':'' @ v) = sha256_hex (m' @ '':'' @ w' @ '':'' @ v') \<Longrightarrow>
      m @ '':'' @ w @ '':'' @ v = m' @ '':'' @ w' @ '':'' @ v'"
  shows "ContentHash m w v = ContentHash m' w' v' \<longleftrightarrow> m = m' \<and> w = w' \<and> v = v'"
proof
  assume "ContentHash m w v = ContentHash m' w' v'"
  then have "m @ '':'' @ w @ '':'' @ v = m' @ '':'' @ w' @ '':'' @ v'"
    unfolding ContentHash_def by (rule assms(5))
  then have eq: "m @ CHR '':'' # (w @ CHR '':'' # v) = m' @ CHR '':'' # (w' @ CHR '':'' # v')" by simp
  from append_sep_inj [OF assms(1,3) eq] append_sep_inj [OF assms(2,4)]
  show "m = m' \<and> w = w' \<and> v = v'" by blast
qed simp

text \<open>
  Nothing checks that the digests a client sends are digests: a colon inside one shifts the
  boundary, and two different submissions share one content hash, hence one cached result.
\<close>

lemma ContentHash_ambiguous:
  "ContentHash (a @ '':'' @ b) c v = ContentHash a (b @ '':'' @ c) v"
  by (simp add: ContentHash_def)

end
