(* ===== verification/Config.thy ===== *)
theory Config
  imports GoStrings
begin

text \<open>
  \<open>internal/api/config.go\<close>: the apiserver's configuration, read from the environment. The
  environment is a map from variable names to values (\<open>os.Getenv\<close> is the empty string for an
  unset variable). Integers are kept at Go's 64-bit width, durations are nanoseconds.
\<close>

section \<open>Definitions\<close>

type_synonym environ = "string \<rightharpoonup> string"

definition Getenv :: "environ \<Rightarrow> string \<Rightarrow> string" where
  "Getenv env k = (case env k of None \<Rightarrow> [] | Some v \<Rightarrow> v)"

definition Second :: int where "Second = 1000000000"
definition Minute :: int where "Minute = 60 * Second"

record Config =
  Addr :: string
  DatabaseURL :: string
  MaxBatchVariants :: int
  AllowedEngineVersions :: "string list"
  S3Endpoint :: string
  S3PublicEndpoint :: string
  S3AccessKey :: string
  S3SecretKey :: string
  S3Region :: string
  BucketModels :: string
  BucketWeather :: string
  BucketResults :: string
  PresignExpiry :: int

definition envDefault :: "environ \<Rightarrow> string \<Rightarrow> string \<Rightarrow> string" where
  "envDefault env key def = (let v = Getenv env key in if v \<noteq> [] then v else def)"

text \<open>The loop of \<open>envInt\<close>: the first byte that is no digit returns the default; the product wraps.\<close>

fun envInt_loop :: "int \<Rightarrow> int \<Rightarrow> string \<Rightarrow> int" where
  "envInt_loop def n [] = n"
| "envInt_loop def n (c # cs) =
     (if byte c < 48 \<or> 57 < byte c then def
      else envInt_loop def (wrap64 (wrap64 (n * 10) + digit_val c)) cs)"

definition envInt :: "environ \<Rightarrow> string \<Rightarrow> int \<Rightarrow> int" where
  "envInt env key def = (let v = Getenv env key in if v = [] then def else envInt_loop def 0 v)"

text \<open>The keys of the set \<open>parseVersionSet\<close> builds, without duplicates.\<close>

definition parseVersionSet :: "string \<Rightarrow> string list" where
  "parseVersionSet raw =
     fold (\<lambda>part acc. let v = TrimSpace part in if v \<noteq> [] then List.insert v acc else acc)
       (Split raw (CHR '','')) []"

definition EngineVersionAllowed :: "Config \<Rightarrow> string \<Rightarrow> bool" where
  "EngineVersionAllowed c v =
     (if length (AllowedEngineVersions c) = 0 then True else List.member (AllowedEngineVersions c) v)"

definition LoadConfig :: "environ \<Rightarrow> Config" where
  "LoadConfig env =
     (let expiry0 = wrap64 (envInt env ''SP_PRESIGN_EXPIRY_SECONDS'' 300 * Second);
          expiry = (if expiry0 \<le> 0 \<or> expiry0 > 15 * Minute then 5 * Minute else expiry0)
      in \<lparr> Addr = envDefault env ''APISERVER_ADDR'' '':8090'',
           DatabaseURL = Getenv env ''DATABASE_URL'',
           MaxBatchVariants = envInt env ''SP_MAX_BATCH_VARIANTS'' 10000,
           AllowedEngineVersions = parseVersionSet (Getenv env ''SP_ALLOWED_ENGINE_VERSIONS''),
           S3Endpoint = Getenv env ''S3_ENDPOINT'',
           S3PublicEndpoint = Getenv env ''S3_PUBLIC_ENDPOINT'',
           S3AccessKey = Getenv env ''S3_ACCESS_KEY'',
           S3SecretKey = Getenv env ''S3_SECRET_KEY'',
           S3Region = envDefault env ''S3_REGION'' ''us-east-1'',
           BucketModels = envDefault env ''S3_BUCKET_MODELS'' ''models'',
           BucketWeather = envDefault env ''S3_BUCKET_WEATHER'' ''weather'',
           BucketResults = envDefault env ''S3_BUCKET_RESULTS'' ''results'',
           PresignExpiry = expiry \<rparr>)"

section \<open>Lemmas\<close>

lemma envDefault_nonempty: "def \<noteq> [] \<Longrightarrow> envDefault env k def \<noteq> []"
  by (simp add: envDefault_def Let_def)

lemma LoadConfig_buckets_nonempty:
  "BucketModels (LoadConfig env) \<noteq> []" "BucketWeather (LoadConfig env) \<noteq> []"
  "BucketResults (LoadConfig env) \<noteq> []" "S3Region (LoadConfig env) \<noteq> []"
  by (simp_all add: LoadConfig_def Let_def envDefault_nonempty)

lemma digits_val_nonneg: "list_all is_digit s \<Longrightarrow> 0 \<le> acc \<Longrightarrow> acc \<le> digits_val acc s"
proof (induction s arbitrary: acc)
  case (Cons c s)
  then have "0 \<le> digit_val c" by (simp add: digit_val_def is_digit_def)
  with Cons.IH [of "acc * 10 + digit_val c"] Cons.prems show ?case by simp
qed simp

text \<open>Below the 64-bit limit the loop computes the decimal value; it never leaves the 64-bit range.\<close>

lemma envInt_loop_exact:
  "list_all is_digit s \<Longrightarrow> 0 \<le> n \<Longrightarrow> digits_val n s \<le> MaxInt64 \<Longrightarrow> envInt_loop d n s = digits_val n s"
proof (induction s arbitrary: n)
  case (Cons c s)
  let ?m = "n * 10 + digit_val c"
  have c: "0 \<le> digit_val c" and d: "\<not> (byte c < 48 \<or> 57 < byte c)"
    using Cons.prems by (auto simp: digit_val_def is_digit_def)
  have "?m \<le> digits_val ?m s"
    using Cons.prems c by (intro digits_val_nonneg) auto
  with Cons.prems have m: "?m \<le> MaxInt64" by simp
  then have "wrap64 (n * 10) = n * 10" "wrap64 ?m = ?m"
    using Cons.prems c by (auto intro!: wrap64_id simp: MinInt64_def)
  with Cons c d show ?case by simp
qed simp

lemma envInt_loop_range:
  "MinInt64 \<le> d \<Longrightarrow> d \<le> MaxInt64 \<Longrightarrow> MinInt64 \<le> n \<Longrightarrow> n \<le> MaxInt64 \<Longrightarrow>
     MinInt64 \<le> envInt_loop d n s \<and> envInt_loop d n s \<le> MaxInt64"
  by (induction s arbitrary: n) (auto simp: wrap64_range)

lemma set_parseVersionSet:
  "set (parseVersionSet raw) = {v. \<exists>p \<in> set (Split raw (CHR '','')). v = TrimSpace p \<and> v \<noteq> []}"
proof -
  let ?f = "\<lambda>part acc. let v = TrimSpace part in if v \<noteq> [] then List.insert v acc else acc"
  have "set (fold ?f ps acc) = set acc \<union> {v. \<exists>p \<in> set ps. v = TrimSpace p \<and> v \<noteq> []}" for ps acc
    by (induction ps arbitrary: acc) (auto simp: Let_def)
  then show ?thesis by (simp add: parseVersionSet_def)
qed

section \<open>Properties\<close>

text \<open>
  C40. Whatever the environment holds (values that overflow 64 bits included), the presign
  expiry is positive and at most fifteen minutes, and it is exactly the configured number of
  seconds when that number lies between 1 and 900.
\<close>

theorem LoadConfig_expiry_bounds:
  "0 < PresignExpiry (LoadConfig env) \<and> PresignExpiry (LoadConfig env) \<le> 15 * Minute \<and>
   (list_all is_digit (Getenv env ''SP_PRESIGN_EXPIRY_SECONDS'') \<longrightarrow>
    1 \<le> digits_val 0 (Getenv env ''SP_PRESIGN_EXPIRY_SECONDS'') \<longrightarrow>
    digits_val 0 (Getenv env ''SP_PRESIGN_EXPIRY_SECONDS'') \<le> 900 \<longrightarrow>
    PresignExpiry (LoadConfig env) = digits_val 0 (Getenv env ''SP_PRESIGN_EXPIRY_SECONDS'') * Second)"
proof -
  let ?v = "Getenv env ''SP_PRESIGN_EXPIRY_SECONDS''"
  let ?n = "digits_val 0 ?v"
  have exact: "PresignExpiry (LoadConfig env) = ?n * Second"
    if dig: "list_all is_digit ?v" and lo: "1 \<le> ?n" and hi: "?n \<le> 900"
  proof -
    from lo have "?v \<noteq> []" by auto
    moreover have "envInt_loop 300 0 ?v = ?n"
      using dig hi by (intro envInt_loop_exact) (auto simp: MaxInt64_def)
    ultimately have "envInt env ''SP_PRESIGN_EXPIRY_SECONDS'' 300 = ?n"
      by (simp add: envInt_def)
    moreover have "wrap64 (?n * Second) = ?n * Second"
      using lo hi by (intro wrap64_id) (auto simp: MinInt64_def MaxInt64_def Second_def)
    ultimately show ?thesis
      using lo hi by (simp add: LoadConfig_def Let_def Minute_def Second_def)
  qed
  then show ?thesis
    by (auto simp: LoadConfig_def Let_def Minute_def Second_def)
qed

theorem LoadConfig_expiry_bounds_witness:
  "PresignExpiry (LoadConfig [''SP_PRESIGN_EXPIRY_SECONDS'' \<mapsto> ''600'']) = 600 * Second"
  using LoadConfig_expiry_bounds [of "[''SP_PRESIGN_EXPIRY_SECONDS'' \<mapsto> ''600'']"]
  by (simp add: Getenv_def is_digit_def byte_def digit_val_def)

text \<open>
  A version is accepted exactly when the allow-list names no version at all, or when one of
  its comma-separated parts is that version after trimming white space.
\<close>

lemma EngineVersionAllowed_iff:
  "EngineVersionAllowed (LoadConfig env) v \<longleftrightarrow>
     (let parts = map TrimSpace (Split (Getenv env ''SP_ALLOWED_ENGINE_VERSIONS'') (CHR '',''))
      in filter (\<lambda>p. p \<noteq> []) parts = [] \<or> v \<in> set (filter (\<lambda>p. p \<noteq> []) parts))"
proof -
  let ?raw = "Getenv env ''SP_ALLOWED_ENGINE_VERSIONS''"
  let ?parts = "filter (\<lambda>p. p \<noteq> []) (map TrimSpace (Split ?raw (CHR '','')))"
  have s: "set (parseVersionSet ?raw) = set ?parts"
    by (auto simp: set_parseVersionSet)
  then have "parseVersionSet ?raw = [] \<longleftrightarrow> ?parts = []"
    by (metis set_empty)
  with s show ?thesis
    by (simp add: EngineVersionAllowed_def LoadConfig_def Let_def)
qed

end
