(* ===== verification/GoJsonText.thy ===== *)
theory GoJsonText
  imports GoJson
begin

text \<open>
  The text side of \<open>encoding/json\<close>: \<open>Decoder.Decode\<close> reads the first JSON value of a byte stream
  and leaves what follows, \<open>Unmarshal\<close> wants nothing but white space after it, \<open>Encoder.Encode\<close>
  writes a value and a newline. Reading is a push-down automaton like the library's scanner: a
  mode, a stack of open arrays and objects bounded by the library's nesting limit, and the rest of
  the input. Its step consumes input, which is why the loop ends.
\<close>

section \<open>Reading tokens\<close>

abbreviation quot :: char where "quot \<equiv> CHR 0x22"
abbreviation bslash :: char where "bslash \<equiv> CHR 0x5C"

definition is_space :: "char \<Rightarrow> bool" where
  "is_space c \<longleftrightarrow> c = CHR '' '' \<or> c = CHR 0x09 \<or> c = CHR 0x0D \<or> c = CHR 0x0A"

definition skip_space :: "string \<Rightarrow> string" where
  "skip_space s = dropWhile is_space s"

text \<open>The UTF-8 encoding of a code point (\<open>utf8.EncodeRune\<close>) and the replacement character.\<close>

definition EncodeRune :: "nat \<Rightarrow> string" where
  "EncodeRune n =
     (if n < 128 then [char_of n]
      else if n < 2048 then [char_of (192 + n div 64), char_of (128 + n mod 64)]
      else if n < 65536 then
        [char_of (224 + n div 4096), char_of (128 + n div 64 mod 64), char_of (128 + n mod 64)]
      else
        [char_of (240 + n div 262144), char_of (128 + n div 4096 mod 64),
         char_of (128 + n div 64 mod 64), char_of (128 + n mod 64)])"

definition ReplacementChar :: nat where "ReplacementChar = 65533"

definition hex_val :: "char \<Rightarrow> nat option" where
  "hex_val c =
     (if 48 \<le> byte c \<and> byte c \<le> 57 then Some (byte c - 48)
      else if 97 \<le> byte c \<and> byte c \<le> 102 then Some (byte c - 87)
      else if 65 \<le> byte c \<and> byte c \<le> 70 then Some (byte c - 55)
      else None)"

fun hex4 :: "string \<Rightarrow> nat option" where
  "hex4 (a # b # c # d # s) =
     (case (hex_val a, hex_val b, hex_val c, hex_val d) of
        (Some x, Some y, Some z, Some w) \<Rightarrow> Some (x * 4096 + y * 256 + z * 16 + w)
      | _ \<Rightarrow> None)"
| "hex4 s = None"

text \<open>\<open>getu4\<close>: the code unit of an escape at the front, if there is one.\<close>

definition getu4 :: "string \<Rightarrow> nat option" where
  "getu4 s = (case s of a # b # t \<Rightarrow> if a = bslash \<and> b = CHR ''u'' then hex4 t else None | _ \<Rightarrow> None)"

definition IsSurrogate :: "nat \<Rightarrow> bool" where
  "IsSurrogate n \<longleftrightarrow> 55296 \<le> n \<and> n < 57344"

text \<open>\<open>utf16.DecodeRune\<close>: the code point of a surrogate pair.\<close>

definition surrogate_pair :: "nat \<Rightarrow> nat option \<Rightarrow> nat option" where
  "surrogate_pair hi lo =
     (case lo of
        Some l \<Rightarrow> if 55296 \<le> hi \<and> hi < 56320 \<and> 56320 \<le> l \<and> l < 57344
                  then Some ((hi - 55296) * 1024 + (l - 56320) + 65536) else None
      | None \<Rightarrow> None)"

definition escape_char :: "char \<Rightarrow> char option" where
  "escape_char e =
     map_of [(quot, quot), (bslash, bslash), (CHR ''/'', CHR ''/''), (CHR ''b'', CHR 0x08), (CHR ''f'', CHR 0x0C),
             (CHR ''n'', CHR 0x0A), (CHR ''r'', CHR 0x0D), (CHR ''t'', CHR 0x09)] e"

text \<open>One character of a string literal: its bytes in the result and what remains.\<close>

definition str_char :: "string \<Rightarrow> (string \<times> string) option" where
  "str_char s =
     (case s of
        [] \<Rightarrow> None
      | c # cs \<Rightarrow>
          if c = bslash then
            (case cs of
               [] \<Rightarrow> None
             | e # t \<Rightarrow>
                 if e = CHR ''u'' then
                   (case hex4 t of
                      None \<Rightarrow> None
                    | Some n \<Rightarrow>
                        let r = drop 4 t in
                        if IsSurrogate n then
                          (case surrogate_pair n (getu4 r) of
                             Some m \<Rightarrow> Some (EncodeRune m, drop 6 r)
                           | None \<Rightarrow> Some (EncodeRune ReplacementChar, r))
                        else Some (EncodeRune n, r))
                 else map_option (\<lambda>x. ([x], t)) (escape_char e))
          else if byte c < 32 then None
          else if byte c < 128 then Some ([c], cs)
          else let k = rune_width s in
               Some (if rune_valid (take k s) then take k s else EncodeRune ReplacementChar, drop k s))"

lemma str_char_shorter: "str_char s = Some (x, t) \<Longrightarrow> length t < length s"
  using rune_width_pos [of s]
  by (auto simp: str_char_def Let_def split: list.splits if_splits option.splits)

text \<open>The rest of a string literal after its opening quote.\<close>

function str_body :: "string \<Rightarrow> (string \<times> string) option" where
  "str_body s =
     (case s of
        [] \<Rightarrow> None
      | c # cs \<Rightarrow>
          if c = quot then Some ([], cs)
          else (case str_char s of
                  None \<Rightarrow> None
                | Some (x, t) \<Rightarrow> (case str_body t of None \<Rightarrow> None | Some (y, u) \<Rightarrow> Some (x @ y, u))))"
  by pat_completeness auto
termination by (relation "measure length") (auto dest: str_char_shorter)

declare str_body.simps [simp del]

lemma str_body_shorter: "str_body s = Some (x, t) \<Longrightarrow> length t < length s"
proof (induction s arbitrary: x rule: str_body.induct)
  case (1 s)
  show ?case
  proof (cases s)
    case Nil
    with "1.prems" show ?thesis by (simp add: str_body.simps)
  next
    case (Cons c cs)
    show ?thesis
    proof (cases "c = quot")
      case True
      with "1.prems" Cons show ?thesis by (simp add: str_body.simps)
    next
      case False
      with "1.prems" Cons obtain y u z where "str_char s = Some (y, u)" and "str_body u = Some (z, t)"
        by (subst (asm) str_body.simps) (auto split: option.splits)
      with "1.IH" [OF Cons False] str_char_shorter [of s y u] show ?thesis by force
    qed
  qed
qed

text \<open>A number literal: the grammar of RFC 8259, read greedily.\<close>

definition digits1 :: "string \<Rightarrow> (string \<times> string) option" where
  "digits1 s = (let d = takeWhile is_digit s in if d = [] then None else Some (d, dropWhile is_digit s))"

definition num_int :: "string \<Rightarrow> (string \<times> string) option" where
  "num_int s =
     (case s of
        [] \<Rightarrow> None
      | c # cs \<Rightarrow> if c = CHR ''0'' then Some (''0'', cs) else digits1 s)"

definition num_frac :: "string \<Rightarrow> (string \<times> string) option" where
  "num_frac s =
     (case s of
        c # cs \<Rightarrow> if c = CHR ''.'' then map_option (\<lambda>(d, t). (c # d, t)) (digits1 cs) else Some ([], s)
      | [] \<Rightarrow> Some ([], s))"

definition num_exp :: "string \<Rightarrow> (string \<times> string) option" where
  "num_exp s =
     (case s of
        c # cs \<Rightarrow>
          if c = CHR ''e'' \<or> c = CHR ''E'' then
            (case cs of
               g # t \<Rightarrow> if g = CHR ''+'' \<or> g = CHR ''-'' then map_option (\<lambda>(d, u). (c # g # d, u)) (digits1 t)
                         else map_option (\<lambda>(d, u). (c # d, u)) (digits1 cs)
             | [] \<Rightarrow> None)
          else Some ([], s)
      | [] \<Rightarrow> Some ([], s))"

definition scan_number :: "string \<Rightarrow> (string \<times> string) option" where
  "scan_number s =
     (let (sg, s1) = (case s of c # cs \<Rightarrow> if c = CHR ''-'' then ([c], cs) else ([], s) | [] \<Rightarrow> ([], s)) in
      case num_int s1 of
        None \<Rightarrow> None
      | Some (i, s2) \<Rightarrow>
          (case num_frac s2 of
             None \<Rightarrow> None
           | Some (f, s3) \<Rightarrow>
               (case num_exp s3 of
                  None \<Rightarrow> None
                | Some (x, s4) \<Rightarrow> Some (sg @ i @ f @ x, s4))))"

lemma digits1_split: "digits1 s = Some (d, t) \<Longrightarrow> s = d @ t \<and> d \<noteq> []"
  by (auto simp: digits1_def Let_def split: if_splits)

lemma num_int_split: "num_int s = Some (d, t) \<Longrightarrow> s = d @ t \<and> d \<noteq> []"
  by (auto simp: num_int_def split: list.splits if_splits dest: digits1_split)

lemma num_frac_split: "num_frac s = Some (d, t) \<Longrightarrow> s = d @ t"
  by (auto simp: num_frac_def split: list.splits if_splits dest: digits1_split)

lemma num_exp_split: "num_exp s = Some (d, t) \<Longrightarrow> s = d @ t"
  by (auto simp: num_exp_def split: list.splits if_splits dest: digits1_split)

lemma scan_number_split: "scan_number s = Some (lit, t) \<Longrightarrow> s = lit @ t \<and> lit \<noteq> []"
  by (auto simp: scan_number_def split: list.splits if_splits option.splits
      dest!: num_int_split num_frac_split num_exp_split)

lemma scan_number_shorter: "scan_number s = Some (lit, t) \<Longrightarrow> length t < length s"
  using scan_number_split [of s lit t] by auto

section \<open>Reading values\<close>

definition maxNestingDepth :: nat where "maxNestingDepth = 10000"

text \<open>
  What is open around the current value: an array with the elements read so far, or an object with
  the members read so far and the key of the current one.
\<close>

datatype frame = FArr "json list" | FObj "(string \<times> json) list" string

datatype jmode =
    MValue
  | MElem
  | MFirstKey
  | MKey "(string \<times> json) list"
  | MColon "(string \<times> json) list" string
  | MDone json

definition start_value :: "frame list \<Rightarrow> nat \<Rightarrow> string \<Rightarrow> (jmode \<times> frame list \<times> string) option" where
  "start_value st depth s =
     (case s of
        [] \<Rightarrow> None
      | c # cs \<Rightarrow>
          if c = CHR ''{'' then (if depth < maxNestingDepth then Some (MFirstKey, st, cs) else None)
          else if c = CHR ''['' then (if depth < maxNestingDepth then Some (MElem, st, cs) else None)
          else if c = quot then map_option (\<lambda>(x, t). (MDone (JStr x), st, t)) (str_body cs)
          else if HasPrefix s ''true'' then Some (MDone (JBool True), st, drop 4 s)
          else if HasPrefix s ''false'' then Some (MDone (JBool False), st, drop 5 s)
          else if HasPrefix s ''null'' then Some (MDone JNull, st, drop 4 s)
          else map_option (\<lambda>(lit, t). (MDone (JNum lit), st, t)) (scan_number s))"

definition read_key :: "(string \<times> json) list \<Rightarrow> frame list \<Rightarrow> string \<Rightarrow> (jmode \<times> frame list \<times> string) option" where
  "read_key acc st s =
     (case s of
        [] \<Rightarrow> None
      | c # cs \<Rightarrow> if c = quot then map_option (\<lambda>(k, t). (MColon acc k, st, t)) (str_body cs) else None)"

text \<open>After a value: a comma or the end of what encloses it.\<close>

definition end_value :: "json \<Rightarrow> frame list \<Rightarrow> string \<Rightarrow> (jmode \<times> frame list \<times> string) option" where
  "end_value v st s =
     (case (st, s) of
        (FArr acc # st', c # cs) \<Rightarrow>
          if c = CHR '','' then Some (MValue, FArr (acc @ [v]) # st', cs)
          else if c = CHR '']'' then Some (MDone (JArr (acc @ [v])), st', cs)
          else None
      | (FObj acc k # st', c # cs) \<Rightarrow>
          if c = CHR '','' then Some (MKey (acc @ [(k, v)]), st', cs)
          else if c = CHR ''}'' then Some (MDone (JObj (acc @ [(k, v)])), st', cs)
          else None
      | _ \<Rightarrow> None)"

fun jstep :: "jmode \<Rightarrow> frame list \<Rightarrow> string \<Rightarrow> (jmode \<times> frame list \<times> string) option" where
  "jstep MValue st s = start_value st (length st) (skip_space s)"
| "jstep MElem st s =
     (case skip_space s of
        c # cs \<Rightarrow> if c = CHR '']'' then Some (MDone (JArr []), st, cs)
                  else start_value (FArr [] # st) (Suc (length st)) (c # cs)
      | [] \<Rightarrow> None)"
| "jstep MFirstKey st s =
     (case skip_space s of
        c # cs \<Rightarrow> if c = CHR ''}'' then Some (MDone (JObj []), st, cs) else read_key [] st (c # cs)
      | [] \<Rightarrow> None)"
| "jstep (MKey acc) st s = read_key acc st (skip_space s)"
| "jstep (MColon acc k) st s =
     (case skip_space s of
        c # cs \<Rightarrow> if c = CHR '':'' then Some (MValue, FObj acc k # st, cs) else None
      | [] \<Rightarrow> None)"
| "jstep (MDone v) st s = end_value v st (skip_space s)"

lemma skip_space_le: "length (skip_space s) \<le> length s"
  by (simp add: skip_space_def length_dropWhile_le)

lemma start_value_shorter: "start_value st n s = Some (m, st', t) \<Longrightarrow> length t < length s"
  by (auto simp: start_value_def split: list.splits if_splits dest!: str_body_shorter scan_number_shorter)

lemma read_key_shorter: "read_key acc st s = Some (m, st', t) \<Longrightarrow> length t < length s"
  by (auto simp: read_key_def split: list.splits if_splits dest!: str_body_shorter)

lemma end_value_shorter: "end_value v st s = Some (m, st', t) \<Longrightarrow> length t < length s"
  by (auto simp: end_value_def split: list.splits frame.splits if_splits)

lemma jstep_shorter: "jstep m st s = Some (m', st', t) \<Longrightarrow> length t < length s"
  using skip_space_le [of s]
  by (cases m) (fastforce split: list.splits if_splits
      dest!: start_value_shorter read_key_shorter end_value_shorter)+

function jrun :: "jmode \<Rightarrow> frame list \<Rightarrow> string \<Rightarrow> (json \<times> string) option" where
  "jrun m st s =
     (case (m, st) of
        (MDone v, []) \<Rightarrow> Some (v, s)
      | _ \<Rightarrow> (case jstep m st s of None \<Rightarrow> None | Some (m', st', t) \<Rightarrow> jrun m' st' t))"
  by pat_completeness auto
termination by (relation "measure (\<lambda>(m, st, s). length s)") (auto simp del: jstep.simps dest: jstep_shorter)

declare jrun.simps [simp del]

text \<open>The first value of a stream, and the value of a whole text.\<close>

definition json_Decode :: "string \<Rightarrow> json option" where
  "json_Decode s = map_option fst (jrun MValue [] s)"

definition json_Unmarshal :: "string \<Rightarrow> json option" where
  "json_Unmarshal s =
     (case jrun MValue [] s of
        None \<Rightarrow> None
      | Some (v, rest) \<Rightarrow> if skip_space rest = [] then Some v else None)"

text \<open>Nesting of a value, which the scanner limits.\<close>

fun json_nests :: "nat \<Rightarrow> json \<Rightarrow> bool" where
  "json_nests d (JArr vs) \<longleftrightarrow> 0 < d \<and> (\<forall>v \<in> set vs. json_nests (d - 1) v)"
| "json_nests d (JObj ms) \<longleftrightarrow> 0 < d \<and> (\<forall>(k, v) \<in> set ms. json_nests (d - 1) v)"
| "json_nests d v \<longleftrightarrow> True"

section \<open>Writing\<close>

definition enc_rune :: "string \<Rightarrow> string" where
  "enc_rune r =
     (if \<not> rune_valid r then bslash # ''ufffd''
      else if r = [quot] \<or> r = [bslash] then bslash # r
      else if r = [CHR 0x08] then bslash # ''b''
      else if r = [CHR 0x0C] then bslash # ''f''
      else if r = [CHR 0x0A] then bslash # ''n''
      else if r = [CHR 0x0D] then bslash # ''r''
      else if r = [CHR 0x09] then bslash # ''t''
      else if length r = 1 \<and> (byte (hd r) < 32 \<or> r = ''<'' \<or> r = ''>'' \<or> r = ''&'')
      then bslash # CHR ''u'' # hex_pad 4 (byte (hd r))
      else if r = [CHR 0xE2, CHR 0x80, CHR 0xA8] then bslash # ''u2028''
      else if r = [CHR 0xE2, CHR 0x80, CHR 0xA9] then bslash # ''u2029''
      else r)"

definition enc_string :: "string \<Rightarrow> string" where
  "enc_string s = quot # concat (map enc_rune (runes s)) @ [quot]"

fun commas :: "string list \<Rightarrow> string" where
  "commas [] = []"
| "commas [x] = x"
| "commas (x # y # zs) = x @ CHR '','' # commas (y # zs)"

fun json_enc :: "json \<Rightarrow> string" where
  "json_enc JNull = ''null''"
| "json_enc (JBool b) = (if b then ''true'' else ''false'')"
| "json_enc (JNum lit) = lit"
| "json_enc (JStr s) = enc_string s"
| "json_enc (JArr vs) = CHR ''['' # commas (map json_enc vs) @ '']''"
| "json_enc (JObj ms) = CHR ''{'' # commas (map (\<lambda>(k, v). enc_string k @ CHR '':'' # json_enc v) ms) @ ''}''"

definition json_Encode :: "json \<Rightarrow> string" where
  "json_Encode v = json_enc v @ [CHR 0x0A]"

section \<open>What is written reads back\<close>

text \<open>Bytes that are not UTF-8 are written as the replacement character; everything else survives.\<close>

definition fix_rune :: "string \<Rightarrow> string" where
  "fix_rune r = (if rune_valid r then r else EncodeRune ReplacementChar)"

definition fix_utf8 :: "string \<Rightarrow> string" where
  "fix_utf8 s = concat (map fix_rune (runes s))"

fun json_utf8 :: "json \<Rightarrow> json" where
  "json_utf8 (JStr s) = JStr (fix_utf8 s)"
| "json_utf8 (JArr vs) = JArr (map json_utf8 vs)"
| "json_utf8 (JObj ms) = JObj (map (\<lambda>(k, v). (fix_utf8 k, json_utf8 v)) ms)"
| "json_utf8 v = v"

text \<open>Values the encoder can be handed: number literals are numbers, nesting is at most \<open>d\<close>.\<close>

definition number_ok :: "string \<Rightarrow> bool" where
  "number_ok lit \<longleftrightarrow> scan_number lit = Some (lit, [])"

fun json_ok :: "nat \<Rightarrow> json \<Rightarrow> bool" where
  "json_ok d (JNum lit) \<longleftrightarrow> number_ok lit"
| "json_ok d (JArr vs) \<longleftrightarrow> 0 < d \<and> (\<forall>v \<in> set vs. json_ok (d - 1) v)"
| "json_ok d (JObj ms) \<longleftrightarrow> 0 < d \<and> (\<forall>(k, v) \<in> set ms. json_ok (d - 1) v)"
| "json_ok d v \<longleftrightarrow> True"

subsection \<open>Strings\<close>

lemma rune_width'_cases:
  assumes "2 \<le> rune_width' bs"
  obtains a b t where "bs = a # b # t" "rune_width' bs = 2" "128 \<le> a" "\<And>u. rune_width' (a # b # u) = 2"
    | a b c t where "bs = a # b # c # t" "rune_width' bs = 3" "128 \<le> a" "\<And>u. rune_width' (a # b # c # u) = 3"
    | a b c d t where "bs = a # b # c # d # t" "rune_width' bs = 4" "128 \<le> a" "\<And>u. rune_width' (a # b # c # d # u) = 4"
proof (cases bs rule: rune_width'.cases)
  case (2 a bs1)
  with assms obtain b bs2 where bs: "bs = a # b # bs2" and a: "128 \<le> a" by (auto split: if_splits list.splits)
  consider "194 \<le> a" "a \<le> 223" "cont b" | "224 \<le> a" "a \<le> 239" | "240 \<le> a" "a \<le> 244"
    using assms by (auto simp: bs split: if_splits)
  then show ?thesis
  proof cases
    case 1
    then show ?thesis by (intro that(1) [OF bs]) (simp_all add: bs)
  next
    case 2
    with assms obtain c t where c: "bs2 = c # t" by (auto simp: bs split: if_splits list.splits)
    from assms 2 show ?thesis by (intro that(2) [of a b c t]) (simp_all add: bs c split: if_splits)
  next
    case 3
    with assms obtain c d t where c: "bs2 = c # d # t" by (auto simp: bs split: if_splits list.splits)
    from assms 3 show ?thesis by (intro that(3) [of a b c d t]) (simp_all add: bs c split: if_splits)
  qed
qed (use assms in simp)

lemma rune_width'_prefix:
  assumes "2 \<le> rune_width' bs"
  shows "rune_width' (take (rune_width' bs) bs @ t) = rune_width' bs" and "128 \<le> hd bs"
    and "rune_width' bs \<le> length bs"
  using assms by (cases rule: rune_width'_cases, simp_all)+

lemma in_runes:
  "r \<in> set (runes s) \<Longrightarrow> (\<exists>c. r = [c]) \<or>
     2 \<le> length r \<and> 128 \<le> byte (hd r) \<and> (\<forall>t. rune_width (r @ t) = length r)"
proof (induction s rule: runes.induct)
  case (1 s)
  let ?k = "rune_width s"
  show ?case
  proof (cases "s = []")
    case True
    with "1.prems" show ?thesis by (simp add: runes.simps)
  next
    case False
    with "1.prems" consider "r = take ?k s" | "r \<in> set (runes (drop ?k s))"
      by (subst (asm) runes.simps) auto
    then show ?thesis
    proof cases
      case 1
      show ?thesis
      proof (cases "2 \<le> ?k")
        case True
        with rune_width'_prefix [of "map byte s"] 1 False show ?thesis
          by (auto simp: rune_width_def take_map hd_map simp flip: take_map)
      next
        case one: False
        with rune_width_pos [OF False] have "?k = 1" by simp
        with 1 False show ?thesis by (cases s) auto
      qed
    qed (use "1.IH" False in blast)
  qed
qed

lemma hex_val_digit: "n < 16 \<Longrightarrow> hex_val (hex_digit n) = Some n"
  by (auto simp: hex_val_def hex_digit_def byte_char_of)

lemma hex_pad4: "hex_pad 4 n = map hex_digit [n div 4096 mod 16, n div 256 mod 16, n div 16 mod 16, n mod 16]"
proof -
  have four: "(4::nat) = Suc (Suc (Suc (Suc 0)))" by simp
  show ?thesis by (subst four) (simp add: div_mult2_eq [symmetric])
qed

lemma hex4_pad: "n < 65536 \<Longrightarrow> hex4 (hex_pad 4 n @ t) = Some n"
proof -
  assume "n < 65536"
  moreover have "n div 16 div 16 = n div 256" "n div 256 div 16 = n div 4096"
    by (simp_all add: div_mult2_eq [symmetric])
  with div_mult_mod_eq [of n 16] div_mult_mod_eq [of "n div 16" 16] div_mult_mod_eq [of "n div 256" 16]
  have "n div 4096 * 4096 + n div 256 mod 16 * 256 + n div 16 mod 16 * 16 + n mod 16 = n" by linarith
  ultimately show ?thesis by (simp add: hex_pad4 hex_val_digit)
qed

lemma str_char_u: "n < 65536 \<Longrightarrow> \<not> IsSurrogate n \<Longrightarrow>
    str_char (bslash # CHR ''u'' # hex_pad 4 n @ t) = Some (EncodeRune n, t)"
  by (simp add: str_char_def hex4_pad) (simp add: hex_pad4)

lemma str_char_enc:
  assumes "r \<in> set (runes s)"
  shows "str_char (enc_rune r @ t) = Some (fix_rune r, t)" and "\<exists>c cs. enc_rune r = c # cs \<and> c \<noteq> quot"
proof -
  have uesc: "bslash # ''ufffd'' = bslash # CHR ''u'' # hex_pad 4 65533"
    "bslash # ''u2028'' = bslash # CHR ''u'' # hex_pad 4 8232"
    "bslash # ''u2029'' = bslash # CHR ''u'' # hex_pad 4 8233"
    by (simp_all add: hex_pad4 hex_digit_def char_of_def bit_0)
  have enc: "EncodeRune 65533 = EncodeRune ReplacementChar"
    "EncodeRune 8232 = [CHR 0xE2, CHR 0x80, CHR 0xA8]" "EncodeRune 8233 = [CHR 0xE2, CHR 0x80, CHR 0xA9]"
    by (simp_all add: EncodeRune_def ReplacementChar_def char_of_def bit_0)
  consider (inv) "\<not> rune_valid r" | (one) c where "r = [c]" "byte c < 128"
    | (multi) "2 \<le> length r" "128 \<le> byte (hd r)" "\<forall>t. rune_width (r @ t) = length r" "rune_valid r"
    using in_runes [OF assms] by (fastforce simp: rune_valid_def)
  then have "str_char (enc_rune r @ t) = Some (fix_rune r, t) \<and> (\<exists>c cs. enc_rune r = c # cs \<and> c \<noteq> quot)"
  proof cases
    case inv
    then have "enc_rune r = bslash # CHR ''u'' # hex_pad 4 65533" by (simp only: enc_rune_def uesc) simp
    with inv show ?thesis by (simp add: str_char_u IsSurrogate_def enc fix_rune_def)
  next
    case one
    consider (esc) x where "escape_char x = Some c" "enc_rune r = [bslash, x]" "x \<noteq> CHR ''u''"
      | (hex) "enc_rune r = bslash # CHR ''u'' # hex_pad 4 (byte c)"
      | (plain) "enc_rune r = [c]" "32 \<le> byte c" "c \<noteq> bslash" "c \<noteq> quot"
    proof -
      have "(\<exists>x. escape_char x = Some c \<and> enc_rune [c] = [bslash, x] \<and> x \<noteq> CHR ''u'') \<or>
        enc_rune [c] = bslash # CHR ''u'' # hex_pad 4 (byte c) \<or>
        enc_rune [c] = [c] \<and> 32 \<le> byte c \<and> c \<noteq> bslash \<and> c \<noteq> quot"
        using one(2) by (simp add: enc_rune_def rune_valid_def escape_char_def)
      with one that show ?thesis by blast
    qed
    then show ?thesis
    proof cases
      case esc
      then show ?thesis using one by (simp add: str_char_def fix_rune_def rune_valid_def)
    next
      case hex
      have "EncodeRune (byte c) = [c]" using one(2) by (simp add: EncodeRune_def byte_def)
      with hex one str_char_u [of "byte c"] show ?thesis by (simp add: IsSurrogate_def fix_rune_def rune_valid_def)
    next
      case plain
      then show ?thesis using one by (simp add: str_char_def fix_rune_def rune_valid_def)
    qed
  next
    case multi
    then obtain c cs where r: "r = c # cs" and c: "128 \<le> byte c" and w: "\<And>t. rune_width (r @ t) = length r"
      by (cases r) auto
    have ne: "c \<noteq> bslash" "c \<noteq> quot" using c by (auto simp: byte_def)
    have "\<And>x. r \<noteq> [x]" "length r \<noteq> 1" using multi(1) by auto
    with multi(4) have "enc_rune r = (if r = [CHR 0xE2, CHR 0x80, CHR 0xA8] then bslash # CHR ''u'' # hex_pad 4 8232
        else if r = [CHR 0xE2, CHR 0x80, CHR 0xA9] then bslash # CHR ''u'' # hex_pad 4 8233 else r)"
      unfolding enc_rune_def uesc by simp
    with multi(4) c ne w [of t] show ?thesis
      by (auto simp: str_char_u IsSurrogate_def enc fix_rune_def) (auto simp: r str_char_def Let_def)
  qed
  then show "str_char (enc_rune r @ t) = Some (fix_rune r, t)" and "\<exists>c cs. enc_rune r = c # cs \<and> c \<noteq> quot"
    by simp_all
qed

lemma str_body_enc:
  "set rs \<subseteq> set (runes s) \<Longrightarrow>
     str_body (concat (map enc_rune rs) @ quot # t) = Some (concat (map fix_rune rs), t)"
proof (induction rs)
  case Nil
  then show ?case by (simp add: str_body.simps)
next
  case (Cons r rs)
  let ?u = "concat (map enc_rune rs) @ quot # t"
  from Cons.prems obtain c cs where r: "enc_rune r = c # cs" "c \<noteq> quot"
    using str_char_enc(2) [of r s] by auto
  from Cons.prems have "str_char (enc_rune r @ ?u) = Some (fix_rune r, ?u)"
    by (intro str_char_enc(1)) auto
  with Cons r have "str_body (enc_rune r @ ?u) = Some (fix_rune r @ concat (map fix_rune rs), t)"
    by (subst str_body.simps) auto
  then show ?case by simp
qed

lemma str_body_string: "enc_string s @ t = quot # u \<Longrightarrow> str_body u = Some (fix_utf8 s, t)"
  using str_body_enc [of "runes s" s t] by (auto simp: enc_string_def fix_utf8_def)

subsection \<open>Numbers\<close>

text \<open>What may follow a number literal without being read as part of it.\<close>

definition num_stop :: "string \<Rightarrow> bool" where
  "num_stop t \<longleftrightarrow>
     (case t of [] \<Rightarrow> True
      | c # cs \<Rightarrow> \<not> is_digit c \<and> c \<noteq> CHR ''.'' \<and> c \<noteq> CHR ''e'' \<and> c \<noteq> CHR ''E'')"

lemma digits1_append: "digits1 s = Some (d, t) \<Longrightarrow> num_stop u \<Longrightarrow> digits1 (s @ u) = Some (d, t @ u)"
proof -
  assume d: "digits1 s = Some (d, t)" and u: "num_stop u"
  have "takeWhile is_digit (s @ u) = takeWhile is_digit s \<and> dropWhile is_digit (s @ u) = dropWhile is_digit s @ u"
    using u by (induction s) (auto simp: num_stop_def split: list.splits)
  with d show ?thesis by (auto simp: digits1_def Let_def split: if_splits)
qed

lemmas digits1_append_Cons = digits1_append [where s = "c # cs" for c cs, simplified]

lemma num_int_append: "num_int s = Some (d, t) \<Longrightarrow> num_stop u \<Longrightarrow> num_int (s @ u) = Some (d, t @ u)"
  by (auto simp: num_int_def digits1_append_Cons split: list.splits if_splits)

lemma num_frac_append: "num_frac s = Some (d, t) \<Longrightarrow> num_stop u \<Longrightarrow> num_frac (s @ u) = Some (d, t @ u)"
  by (cases s; cases u) (auto simp: num_frac_def digits1_append num_stop_def split: if_splits list.splits)

lemma num_exp_append: "num_exp s = Some (d, t) \<Longrightarrow> num_stop u \<Longrightarrow> num_exp (s @ u) = Some (d, t @ u)"
  by (cases s; cases u) (auto simp: num_exp_def digits1_append digits1_append_Cons num_stop_def split: if_splits list.splits)

lemma scan_number_append:
  assumes "scan_number s = Some (lit, t)" "num_stop u"
  shows "scan_number (s @ u) = Some (lit, t @ u)"
proof -
  have "s \<noteq> []" using scan_number_split [OF assms(1)] by auto
  then obtain c cs where s: "s = c # cs" by (cases s) auto
  from assms show ?thesis
    by (auto simp: s scan_number_def num_int_append num_frac_append num_exp_append
        num_int_append [where s = "c # cs" for c cs, simplified] split: if_splits option.splits prod.splits)
qed

lemma scan_number_first:
  "scan_number s = Some (lit, t) \<Longrightarrow> \<exists>c cs. s = c # cs \<and> (c = CHR ''-'' \<or> is_digit c)"
  by (cases s) (auto simp: scan_number_def num_int_def digits1_def is_digit_def byte_def split: if_splits option.splits)

subsection \<open>Values\<close>

lemma skip_space_Cons [simp]: "\<not> is_space c \<Longrightarrow> skip_space (c # cs) = c # cs"
  by (simp add: skip_space_def)

text \<open>The first character of a written value is neither space nor a closing bracket.\<close>

lemma json_enc_first:
  assumes "json_ok d v"
  obtains c cs where "json_enc v = c # cs" "\<not> is_space c" "c \<noteq> CHR '']''"
proof (cases v)
  case (JNum lit)
  with assms obtain c cs where "lit = c # cs" "c = CHR ''-'' \<or> is_digit c"
    using scan_number_first [of lit lit "[]"] by (auto simp: number_ok_def)
  then show ?thesis
    by (intro that) (auto simp: JNum is_space_def is_digit_def byte_def)
next
  case (JBool b)
  then show ?thesis by (cases b) (auto intro!: that simp: is_space_def)
qed (auto intro!: that simp: is_space_def enc_string_def)

lemma jrun_scalar:
  assumes "start_value st (length st) (c # cs) = Some (m, st', t)" "\<not> is_space c"
  shows "jrun MValue st (c # cs) = jrun m st' t"
  using assms by (subst jrun.simps) simp

lemma jrun_string: "jrun MValue st (enc_string s @ t) = jrun (MDone (JStr (fix_utf8 s))) st t"
proof -
  obtain u where u: "enc_string s @ t = quot # u" by (simp add: enc_string_def)
  from str_body_string [OF u] show ?thesis
    by (simp add: u jrun_scalar is_space_def start_value_def)
qed

lemma jrun_number:
  assumes "number_ok lit" "num_stop t"
  shows "jrun MValue st (lit @ t) = jrun (MDone (JNum lit)) st t"
proof -
  from assms have n: "scan_number (lit @ t) = Some (lit, t)"
    using scan_number_append [of lit lit "[]" t] by (simp add: number_ok_def)
  from scan_number_first [OF this] obtain c cs where c: "lit @ t = c # cs" "c = CHR ''-'' \<or> is_digit c" by auto
  then have "c \<notin> set ''{[tfn'' \<and> c \<noteq> quot \<and> \<not> is_space c" by (auto simp: is_digit_def byte_def is_space_def)
  with n c show ?thesis by (auto simp: jrun_scalar start_value_def HasPrefix_def)
qed

lemma jrun_elems:
  assumes "\<And>v t st'. v \<in> set vs \<Longrightarrow> num_stop t \<Longrightarrow> length st' = Suc (length st) \<Longrightarrow>
      jrun MValue st' (json_enc v @ t) = jrun (MDone (json_utf8 v)) st' t"
    and "vs \<noteq> []"
  shows "jrun MValue (FArr acc # st) (commas (map json_enc vs) @ CHR '']'' # t) =
    jrun (MDone (JArr (acc @ map json_utf8 vs))) st t"
  using assms
proof (induction vs arbitrary: acc)
  case (Cons v vs)
  show ?case
  proof (cases vs)
    case Nil
    have "jrun MValue (FArr acc # st) (json_enc v @ CHR '']'' # t) = jrun (MDone (json_utf8 v)) (FArr acc # st) (CHR '']'' # t)"
      by (rule Cons.prems(1)) (auto simp: num_stop_def is_digit_def byte_def)
    also have "\<dots> = jrun (MDone (JArr (acc @ [json_utf8 v]))) st t"
      by (subst jrun.simps) (simp add: end_value_def is_space_def)
    finally show ?thesis by (simp add: Nil)
  next
    case more: (Cons w ws)
    let ?r = "commas (map json_enc vs) @ CHR '']'' # t"
    have "jrun MValue (FArr acc # st) (json_enc v @ CHR '','' # ?r) = jrun (MDone (json_utf8 v)) (FArr acc # st) (CHR '','' # ?r)"
      by (rule Cons.prems(1)) (auto simp: num_stop_def is_digit_def byte_def)
    also have "\<dots> = jrun MValue (FArr (acc @ [json_utf8 v]) # st) ?r"
      by (subst jrun.simps) (simp add: end_value_def is_space_def)
    also have "\<dots> = jrun (MDone (JArr ((acc @ [json_utf8 v]) @ map json_utf8 vs))) st t"
      by (rule Cons.IH) (use Cons.prems(1) more in auto)
    finally show ?thesis by (simp add: more)
  qed
qed simp

lemma jrun_key:
  "jrun (MKey acc) st (enc_string k @ CHR '':'' # t) = jrun MValue (FObj acc (fix_utf8 k) # st) t"
proof -
  obtain u where u: "enc_string k @ CHR '':'' # t = quot # u" by (simp add: enc_string_def)
  from str_body_string [OF u]
  have "jrun (MKey acc) st (quot # u) = jrun (MColon acc (fix_utf8 k)) st (CHR '':'' # t)"
    by (subst jrun.simps) (simp add: read_key_def is_space_def)
  also have "\<dots> = jrun MValue (FObj acc (fix_utf8 k) # st) t"
    by (subst jrun.simps) (simp add: is_space_def)
  finally show ?thesis by (simp add: u)
qed

lemma jrun_members:
  assumes "\<And>k v t st'. (k, v) \<in> set ms \<Longrightarrow> num_stop t \<Longrightarrow> length st' = Suc (length st) \<Longrightarrow>
      jrun MValue st' (json_enc v @ t) = jrun (MDone (json_utf8 v)) st' t"
    and "ms \<noteq> []"
  shows "jrun (MKey acc) st (commas (map (\<lambda>(k, v). enc_string k @ CHR '':'' # json_enc v) ms) @ CHR ''}'' # t) =
    jrun (MDone (JObj (acc @ map (\<lambda>(k, v). (fix_utf8 k, json_utf8 v)) ms))) st t"
  using assms
proof (induction ms arbitrary: acc)
  case (Cons m ms)
  obtain k v where m: "m = (k, v)" by (cases m)
  have value_read: "jrun (MKey acc) st (enc_string k @ CHR '':'' # json_enc v @ u) =
      jrun (MDone (json_utf8 v)) (FObj acc (fix_utf8 k) # st) u" if "num_stop u" for u
    using Cons.prems(1) [of k v u] that by (simp add: jrun_key m)
  show ?case
  proof (cases ms)
    case Nil
    have "num_stop (CHR ''}'' # t)" by (simp add: num_stop_def is_digit_def byte_def)
    note value_read [OF this]
    also have "jrun (MDone (json_utf8 v)) (FObj acc (fix_utf8 k) # st) (CHR ''}'' # t) =
        jrun (MDone (JObj (acc @ [(fix_utf8 k, json_utf8 v)]))) st t"
      by (subst jrun.simps) (simp add: end_value_def is_space_def)
    finally show ?thesis by (simp add: Nil m)
  next
    case more: (Cons w ws)
    let ?r = "commas (map (\<lambda>(k, v). enc_string k @ CHR '':'' # json_enc v) ms) @ CHR ''}'' # t"
    have "num_stop (CHR '','' # ?r)" by (simp add: num_stop_def is_digit_def byte_def)
    note value_read [OF this]
    also have "jrun (MDone (json_utf8 v)) (FObj acc (fix_utf8 k) # st) (CHR '','' # ?r) =
        jrun (MKey (acc @ [(fix_utf8 k, json_utf8 v)])) st ?r"
      by (subst jrun.simps) (simp add: end_value_def is_space_def)
    also have "\<dots> = jrun (MDone (JObj ((acc @ [(fix_utf8 k, json_utf8 v)]) @ map (\<lambda>(k, v). (fix_utf8 k, json_utf8 v)) ms))) st t"
      by (rule Cons.IH) (use Cons.prems(1) more in auto)
    finally show ?thesis by (simp add: more m split_def)
  qed
qed simp

lemma jrun_open_array:
  assumes "length st < maxNestingDepth"
  shows "jrun MValue st (CHR ''['' # t) = jrun MElem st t"
  using assms by (simp add: jrun_scalar start_value_def is_space_def)

lemma jrun_open_object:
  assumes "length st < maxNestingDepth"
  shows "jrun MValue st (CHR ''{'' # t) = jrun MFirstKey st t"
  using assms by (simp add: jrun_scalar start_value_def is_space_def)

lemma jrun_MElem: "\<not> is_space c \<Longrightarrow> c \<noteq> CHR '']'' \<Longrightarrow> jrun MElem st (c # cs) = jrun MValue (FArr [] # st) (c # cs)"
  by (subst (1 2) jrun.simps) simp

lemma jrun_MFirstKey: "jrun MFirstKey st (enc_string k @ t) = jrun (MKey []) st (enc_string k @ t)"
  by (subst (1 2) jrun.simps) (simp add: enc_string_def is_space_def)

lemma jrun_enc:
  assumes "json_ok d v" "length st + d \<le> maxNestingDepth" "num_stop t"
  shows "jrun MValue st (json_enc v @ t) = jrun (MDone (json_utf8 v)) st t"
  using assms
proof (induction v arbitrary: d st t)
  case (JArr vs)
  then have depth: "length st < maxNestingDepth" by simp
  show ?case
  proof (cases vs)
    case Nil
    have "jrun MElem st (CHR '']'' # t) = jrun (MDone (JArr [])) st t"
      by (subst jrun.simps) (simp add: is_space_def)
    with depth Nil show ?thesis by (simp add: jrun_open_array)
  next
    case (Cons v ws)
    from JArr.prems Cons obtain c cs where c: "json_enc v = c # cs" "\<not> is_space c" "c \<noteq> CHR '']''"
      using json_enc_first [of "d - 1" v] by auto
    have "jrun MElem st (commas (map json_enc vs) @ CHR '']'' # t) =
        jrun MValue (FArr [] # st) (commas (map json_enc vs) @ CHR '']'' # t)"
      using c Cons by (cases ws) (simp_all add: jrun_MElem)
    also have "\<dots> = jrun (MDone (JArr ([] @ map json_utf8 vs))) st t"
      by (rule jrun_elems) (use JArr Cons in auto)
    finally show ?thesis using depth by (simp add: jrun_open_array)
  qed
next
  case (JObj ms)
  then have depth: "length st < maxNestingDepth" by simp
  show ?case
  proof (cases ms)
    case Nil
    have "jrun MFirstKey st (CHR ''}'' # t) = jrun (MDone (JObj [])) st t"
      by (subst jrun.simps) (simp add: is_space_def)
    with depth Nil show ?thesis by (simp add: jrun_open_object)
  next
    case (Cons m ws)
    obtain k v where m: "m = (k, v)" by (cases m)
    have "jrun MFirstKey st (commas (map (\<lambda>(k, v). enc_string k @ CHR '':'' # json_enc v) ms) @ CHR ''}'' # t) =
        jrun (MKey []) st (commas (map (\<lambda>(k, v). enc_string k @ CHR '':'' # json_enc v) ms) @ CHR ''}'' # t)"
      using Cons by (cases ws) (simp_all add: jrun_MFirstKey m)
    also have "\<dots> = jrun (MDone (JObj ([] @ map (\<lambda>(k, v). (fix_utf8 k, json_utf8 v)) ms))) st t"
      by (rule jrun_members) (use JObj Cons in fastforce)+
    finally show ?thesis using depth by (simp add: jrun_open_object)
  qed
next
  case (JBool b)
  then show ?case by (cases b) (simp_all add: jrun_scalar start_value_def is_space_def HasPrefix_def)
qed (simp_all add: jrun_scalar start_value_def is_space_def HasPrefix_def jrun_string jrun_number)

lemma fix_utf8_valid: "list_all rune_valid (runes s) \<Longrightarrow> fix_utf8 s = s"
proof -
  assume "list_all rune_valid (runes s)"
  then have "map fix_rune (runes s) = runes s" by (simp add: fix_rune_def list_all_iff map_idI)
  then show ?thesis by (simp add: fix_utf8_def concat_runes)
qed

lemma show_nat_first: "\<exists>c cs. show_nat n = c # cs \<and> is_digit c \<and> (c = CHR ''0'' \<longrightarrow> cs = [])"
proof (induction n rule: show_nat.induct)
  case (1 n)
  show ?case
  proof (cases "n < 10")
    case True
    then show ?thesis by (simp add: show_nat.simps is_digit_def byte_char_of)
  next
    case False
    with 1 obtain c cs where IH: "show_nat (n div 10) = c # cs" "is_digit c" "c = CHR ''0'' \<longrightarrow> cs = []" by blast
    have "c \<noteq> CHR ''0''"
    proof
      assume c: "c = CHR ''0''"
      then have "digits_val 0 (show_nat (n div 10)) = 0" using IH by (simp add: digit_val_def byte_def)
      with False show False by (simp add: digits_val_show_nat)
    qed
    with IH False show ?thesis by (subst (1) show_nat.simps) simp
  qed
qed

lemma number_ok_show_int [simp]: "number_ok (show_int i)"
proof -
  have nat: "num_int (show_nat n) = Some (show_nat n, [])" for n
  proof -
    obtain c cs where c: "show_nat n = c # cs" "is_digit c" "c = CHR ''0'' \<longrightarrow> cs = []" using show_nat_first by blast
    have "takeWhile is_digit (show_nat n) = show_nat n" "dropWhile is_digit (show_nat n) = []"
      using show_nat_digits [of n] by (auto simp: list_all_iff takeWhile_eq_all_conv)
    with c show ?thesis by (auto simp: num_int_def digits1_def Let_def)
  qed
  show ?thesis
  proof (cases "i < 0")
    case True
    then show ?thesis by (simp add: number_ok_def show_int_def scan_number_def nat num_frac_def num_exp_def)
  next
    case False
    obtain c cs where "show_nat (nat i) = c # cs" "is_digit c" using show_nat_first by blast
    with False nat [of "nat i"] show ?thesis
      by (auto simp: number_ok_def show_int_def scan_number_def num_frac_def num_exp_def is_digit_def byte_def)
  qed
qed

lemma jrun_Encode:
  assumes "json_ok maxNestingDepth v"
  shows "jrun MValue [] (json_Encode v @ u) = Some (json_utf8 v, CHR 0x0A # u)"
proof -
  have "num_stop (CHR 0x0A # u)" by (simp add: num_stop_def is_digit_def byte_def)
  from jrun_enc [OF assms _ this, of "[]"] show ?thesis
    by (simp add: json_Encode_def jrun.simps [of "MDone v" "[]" for v])
qed

text \<open>
  Whatever value the encoder is handed (number literals that are numbers, nesting within the
  library's limit), the decoder reads the same value back from the text, strings with their
  invalid UTF-8 replaced, whatever follows in the stream.
\<close>

lemma json_Decode_Encode: "json_ok maxNestingDepth v \<Longrightarrow> json_Decode (json_Encode v @ u) = Some (json_utf8 v)"
  by (simp add: json_Decode_def jrun_Encode)

lemma json_Unmarshal_Encode: "json_ok maxNestingDepth v \<Longrightarrow> json_Unmarshal (json_Encode v) = Some (json_utf8 v)"
  using jrun_Encode [of v "[]"] by (simp add: json_Unmarshal_def skip_space_def is_space_def)

end
