(* ===== verification/Server.thy ===== *)
theory Server
  imports Queue Config GoJsonText
begin

text \<open>
  The HTTP layer's frame (\<open>internal/api/server.go\<close>, \<open>auth.go\<close>): requests and responses, the
  \<open>presignClient\<close> interface, the \<open>Server\<close> value, JSON responses, bearer-token authentication and
  the helpers of \<open>handlers.go\<close> and \<open>uploads.go\<close> that look at no state. Everything is generic in
  the world \<open>'w\<close> the store's operations act on.
\<close>

section \<open>Requests and responses\<close>

text \<open>
  A request as the handlers see it: the first value of the \<open>Authorization\<close> header (empty when
  absent), the bytes of the body, the query parameters in order, the URL parameters the router bound, and the value under \<open>userIDKey\<close> in
  the request's context.
\<close>

record request =
  rq_Method :: string
  rq_Path :: string
  rq_Authorization :: string
  rq_Body :: string
  rq_Query :: "(string \<times> string) list"
  rq_Params :: "(string \<times> string) list"
  rq_userID :: "string option"

datatype body = BJson json | BText string

record response =
  rs_Status :: nat
  rs_Body :: body

definition lookup_or_empty :: "(string \<times> string) list \<Rightarrow> string \<Rightarrow> string" where
  "lookup_or_empty kvs k = (case map_of kvs k of None \<Rightarrow> [] | Some v \<Rightarrow> v)"

definition URLParam :: "request \<Rightarrow> string \<Rightarrow> string" where
  "URLParam r k = lookup_or_empty (rq_Params r) k"

definition Query_Get :: "request \<Rightarrow> string \<Rightarrow> string" where
  "Query_Get r k = lookup_or_empty (rq_Query r) k"

definition userID :: "request \<Rightarrow> string" where
  "userID r = (case rq_userID r of None \<Rightarrow> [] | Some u \<Rightarrow> u)"

text \<open>A Go map encodes with its keys sorted.\<close>

definition json_map :: "(string \<times> json) list \<Rightarrow> json" where
  "json_map kvs = JObj (sort_key fst kvs)"

definition writeJSON :: "nat \<Rightarrow> json \<Rightarrow> response" where
  "writeJSON status v = \<lparr> rs_Status = status, rs_Body = BJson v \<rparr>"

definition writeError :: "nat \<Rightarrow> string \<Rightarrow> response" where
  "writeError status msg = writeJSON status (json_map [(''error'', JStr msg)])"

section \<open>The server\<close>

record storageObject =
  so_Key :: string
  so_Size :: int

record 'w presignClient =
  pc_PresignPut :: "string \<Rightarrow> string \<Rightarrow> 'w \<Rightarrow> string res \<times> 'w"
  pc_PresignGet :: "string \<Rightarrow> string \<Rightarrow> 'w \<Rightarrow> string res \<times> 'w"
  pc_List :: "string \<Rightarrow> string \<Rightarrow> 'w \<Rightarrow> storageObject list res \<times> 'w"
  pc_ExpiresIn :: int

text \<open>
  Beside the fields of the Go struct, two facts of Go's library the handlers' output depends on:
  \<open>sv_isPrint\<close> (\<open>strconv.IsPrint\<close> on a rune outside ASCII, for \<open>%q\<close>) and \<open>sv_float\<close> (the text
  \<open>encoding/json\<close> prints for the \<open>float64\<close> nearest to a number literal, \<open>None\<close> out of range).
\<close>

record 'w Server =
  sv_store :: "'w dataStore"
  sv_expander :: "'w Expander"
  sv_presigner :: "'w presignClient option"
  sv_cfg :: Config
  sv_isPrint :: "string \<Rightarrow> bool"
  sv_float :: "string \<Rightarrow> string option"

definition NewServer ::
  "'w dataStore \<Rightarrow> 'w Expander \<Rightarrow> 'w presignClient option \<Rightarrow> Config \<Rightarrow> (string \<Rightarrow> bool) \<Rightarrow>
   (string \<Rightarrow> string option) \<Rightarrow> 'w Server" where
  "NewServer s expander presigner cfg isPrint flt =
     \<lparr> sv_store = s, sv_expander = expander, sv_presigner = presigner, sv_cfg = cfg,
       sv_isPrint = isPrint, sv_float = flt \<rparr>"

section \<open>Authentication\<close>

definition HashAPIKey :: "string \<Rightarrow> string" where
  "HashAPIKey raw = sha256_hex raw"

definition bearerToken :: "request \<Rightarrow> string \<times> bool" where
  "bearerToken r =
     (let h = rq_Authorization r; prefix = ''Bearer '' in
      if length h \<le> length prefix \<or> \<not> EqualFold (take (length prefix) h) prefix then ([], False)
      else let tok = TrimSpace (drop (length prefix) h) in (tok, tok \<noteq> []))"

type_synonym 'w handler = "request \<Rightarrow> 'w \<Rightarrow> response \<times> 'w"

definition authMiddleware :: "'w Server \<Rightarrow> 'w handler \<Rightarrow> 'w handler" where
  "authMiddleware s nxt r w =
     (case bearerToken r of
        (raw, ok) \<Rightarrow>
          if \<not> ok then (writeError 401 ''missing bearer token'', w)
          else (case ds_UserIDForKeyHash (sv_store s) (HashAPIKey raw) w of
                  (Inl ErrNotFound, w1) \<Rightarrow> (writeError 401 ''invalid or revoked api key'', w1)
                | (Inl (ErrMsg m), w1) \<Rightarrow> (writeError 500 ''auth lookup failed'', w1)
                | (Inr uid, w1) \<Rightarrow> nxt (r\<lparr> rq_userID := Some uid \<rparr>) w1))"

section \<open>Helpers of the handlers\<close>

definition parseS3URI :: "string \<Rightarrow> string \<times> string" where
  "parseS3URI uri =
     (case CutPrefix uri ''s3://'' of
        (rest, ok) \<Rightarrow>
          if \<not> ok then ([], [])
          else (case Cut rest (CHR ''/'') of (bucket, key, _) \<Rightarrow> (bucket, key)))"

text \<open>\<open>None\<close> is the nil error, \<open>Some\<close> the error's message.\<close>

definition validateInputRef :: "'w Server \<Rightarrow> string \<Rightarrow> string \<Rightarrow> string option" where
  "validateInputRef s ref kind =
     (case parseS3URI ref of
        (bucket, key) \<Rightarrow>
          if bucket = [] \<or> key = [] then Some (kind @ ''.ref must be an s3:// URI'')
          else (case (if kind = ''model'' then Some (''models'', BucketModels (sv_cfg s))
                      else if kind = ''weather'' then Some (''weather'', BucketWeather (sv_cfg s))
                      else None) of
                  None \<Rightarrow> Some (''unknown ref kind '' @ Quote (sv_isPrint s) kind)
                | Some (logical, real) \<Rightarrow>
                    if bucket \<noteq> logical \<and> bucket \<noteq> real
                    then Some (kind @ ''.ref bucket '' @ Quote (sv_isPrint s) bucket @ '' is not allowed'')
                    else None))"

definition normalizePriority :: "int option \<Rightarrow> int" where
  "normalizePriority p =
     (case p of None \<Rightarrow> 1 | Some i \<Rightarrow> if i < 0 then 0 else if i > 2 then 2 else i)"

definition optStr :: "string \<Rightarrow> string option" where
  "optStr s = (if s = [] then None else Some s)"

definition rawJSON :: "json option \<Rightarrow> json option" where
  "rawJSON m = (case m of None \<Rightarrow> None | Some j \<Rightarrow> Some j)"

definition queryInt :: "request \<Rightarrow> string \<Rightarrow> int \<Rightarrow> int" where
  "queryInt r key def =
     (let v = Query_Get r key in
      if v = [] then def else (case Atoi v of None \<Rightarrow> def | Some n \<Rightarrow> n))"

definition pageParams :: "request \<Rightarrow> int \<times> int" where
  "pageParams r =
     (let limit = queryInt r ''limit'' 50; offset = queryInt r ''offset'' 0
      in (if limit \<le> 0 \<or> limit > 500 then 50 else limit, if offset < 0 then 0 else offset))"

text \<open>
  \<open>json.Unmarshal\<close> into \<open>any\<close> and back: numbers pass through \<open>float64\<close> (a number out of its range
  is left \<open>nil\<close>), objects through a map. A value nested too deeply is an error, which the handlers
  ignore, leaving \<open>nil\<close>.
\<close>

fun json_any :: "(string \<Rightarrow> string option) \<Rightarrow> json \<Rightarrow> json" where
  "json_any flt JNull = JNull"
| "json_any flt (JBool b) = JBool b"
| "json_any flt (JNum lit) = (case flt lit of None \<Rightarrow> JNull | Some t \<Rightarrow> JNum t)"
| "json_any flt (JStr t) = JStr t"
| "json_any flt (JArr js) = JArr (map (json_any flt) js)"
| "json_any flt (JObj kvs) = JObj (sort_key fst (map (\<lambda>(k, v). (k, json_any flt v)) kvs))"

definition resultPayload :: "'w Server \<Rightarrow> Result \<Rightarrow> json" where
  "resultPayload s res =
     json_map
       [(''verdict'', JStr (res_Verdict res)),
        (''metrics'', case res_Metrics res of
             Some j \<Rightarrow> if json_nests maxNestingDepth j then json_any (sv_float s) j else JNull
           | None \<Rightarrow> JObj []),
        (''artifactUri'', case res_ArtifactURI res of Some u \<Rightarrow> JStr u | None \<Rightarrow> JNull)]"

text \<open>The bucket and prefix that hold a result's artifacts.\<close>

definition resultPrefix :: "Result \<Rightarrow> string \<Rightarrow> string \<Rightarrow> string \<times> string" where
  "resultPrefix res contentHash defaultBucket =
     (case (case res_ArtifactURI res of
              None \<Rightarrow> None
            | Some uri \<Rightarrow>
                if HasPrefix uri ''s3://''
                then (case parseS3URI uri of
                        (b, key) \<Rightarrow>
                          if b \<noteq> []
                          then Some (b, if key \<noteq> [] \<and> \<not> HasSuffix key ''/'' then key @ ''/'' else key)
                          else None)
                else None) of
        Some bk \<Rightarrow> bk
      | None \<Rightarrow> (defaultBucket, contentHash @ ''/''))"

definition sanitize_rune :: "string \<Rightarrow> string" where
  "sanitize_rune r =
     (case r of
        [c] \<Rightarrow> if (65 \<le> byte c \<and> byte c \<le> 90) \<or> (97 \<le> byte c \<and> byte c \<le> 122) \<or> is_digit c \<or>
                  c = CHR ''.'' \<or> c = CHR ''_'' \<or> c = CHR ''-'' then r else ''_''
      | _ \<Rightarrow> ''_'')"

text \<open>\<open>basenameSanitize.ReplaceAllString(base, "_")\<close>: one underscore per rune outside the class.\<close>

definition basenameSanitize :: "string \<Rightarrow> string" where
  "basenameSanitize s = concat (map sanitize_rune (runes s))"

end
