(* ===== verification/Handlers.thy ===== *)
theory Handlers
  imports Server
begin

text \<open>
  The request handlers (\<open>internal/api/handlers.go\<close>, \<open>uploads.go\<close>) and the router
  (\<open>server.go\<close>). A handler is a function from the server, the request and the world to a response
  and the world after it; every early return of the Go code is a branch. Log lines are not
  modelled.
\<close>

section \<open>Request bodies\<close>

record artifactRef =
  ar_Ref :: string
  ar_SHA256 :: string

record createSimulationRequest =
  cs_EngineVersion :: string
  cs_Model :: artifactRef
  cs_Weather :: artifactRef
  cs_Priority :: "int option"
  cs_ExtractionSpec :: "json option"

record variantRequest =
  vr_Model :: artifactRef
  vr_Name :: string

record createBatchRequest =
  cb_EngineVersion :: string
  cb_Weather :: artifactRef
  cb_Variants :: "variantRequest list"
  cb_Priority :: "int option"
  cb_MaxParallelism :: "int option"
  cb_IdempotencyKey :: string
  cb_ExtractionSpec :: "json option"

record createUploadRequest =
  cu_Kind :: string
  cu_Filename :: string
  cu_SHA256 :: string

definition zero_ref :: artifactRef where
  "zero_ref = \<lparr> ar_Ref = [], ar_SHA256 = [] \<rparr>"

definition put_ref :: "string \<Rightarrow> json \<Rightarrow> artifactRef \<Rightarrow> artifactRef option" where
  "put_ref f v r =
     (if f = ''ref'' then map_option (\<lambda>x. r\<lparr> ar_Ref := x \<rparr>) (decode_string v (ar_Ref r))
      else map_option (\<lambda>x. r\<lparr> ar_SHA256 := x \<rparr>) (decode_string v (ar_SHA256 r)))"

definition decode_ref :: "json \<Rightarrow> artifactRef \<Rightarrow> artifactRef option" where
  "decode_ref = decode_struct [''ref'', ''sha256''] put_ref"

definition put_sim :: "string \<Rightarrow> json \<Rightarrow> createSimulationRequest \<Rightarrow> createSimulationRequest option" where
  "put_sim f v r =
     (if f = ''engineVersion'' then map_option (\<lambda>x. r\<lparr> cs_EngineVersion := x \<rparr>) (decode_string v (cs_EngineVersion r))
      else if f = ''model'' then map_option (\<lambda>x. r\<lparr> cs_Model := x \<rparr>) (decode_ref v (cs_Model r))
      else if f = ''weather'' then map_option (\<lambda>x. r\<lparr> cs_Weather := x \<rparr>) (decode_ref v (cs_Weather r))
      else if f = ''priority'' then map_option (\<lambda>x. r\<lparr> cs_Priority := x \<rparr>) (decode_int_ptr v (cs_Priority r))
      else map_option (\<lambda>x. r\<lparr> cs_ExtractionSpec := x \<rparr>) (decode_raw v (cs_ExtractionSpec r)))"

definition decode_sim :: "json \<Rightarrow> createSimulationRequest option" where
  "decode_sim j =
     decode_struct [''engineVersion'', ''model'', ''weather'', ''priority'', ''extractionSpec''] put_sim j
       \<lparr> cs_EngineVersion = [], cs_Model = zero_ref, cs_Weather = zero_ref, cs_Priority = None,
         cs_ExtractionSpec = None \<rparr>"

definition put_variant :: "string \<Rightarrow> json \<Rightarrow> variantRequest \<Rightarrow> variantRequest option" where
  "put_variant f v r =
     (if f = ''model'' then map_option (\<lambda>x. r\<lparr> vr_Model := x \<rparr>) (decode_ref v (vr_Model r))
      else map_option (\<lambda>x. r\<lparr> vr_Name := x \<rparr>) (decode_string v (vr_Name r)))"

definition zero_variant :: variantRequest where
  "zero_variant = \<lparr> vr_Model = zero_ref, vr_Name = [] \<rparr>"

definition decode_variants :: "json \<Rightarrow> variantRequest list \<Rightarrow> variantRequest list option" where
  "decode_variants = decode_slice (decode_struct [''model'', ''name''] put_variant) zero_variant"

definition put_batch :: "string \<Rightarrow> json \<Rightarrow> createBatchRequest \<Rightarrow> createBatchRequest option" where
  "put_batch f v r =
     (if f = ''engineVersion'' then map_option (\<lambda>x. r\<lparr> cb_EngineVersion := x \<rparr>) (decode_string v (cb_EngineVersion r))
      else if f = ''weather'' then map_option (\<lambda>x. r\<lparr> cb_Weather := x \<rparr>) (decode_ref v (cb_Weather r))
      else if f = ''variants'' then map_option (\<lambda>x. r\<lparr> cb_Variants := x \<rparr>) (decode_variants v (cb_Variants r))
      else if f = ''priority'' then map_option (\<lambda>x. r\<lparr> cb_Priority := x \<rparr>) (decode_int_ptr v (cb_Priority r))
      else if f = ''maxParallelism''
        then map_option (\<lambda>x. r\<lparr> cb_MaxParallelism := x \<rparr>) (decode_int_ptr v (cb_MaxParallelism r))
      else if f = ''idempotencyKey''
        then map_option (\<lambda>x. r\<lparr> cb_IdempotencyKey := x \<rparr>) (decode_string v (cb_IdempotencyKey r))
      else map_option (\<lambda>x. r\<lparr> cb_ExtractionSpec := x \<rparr>) (decode_raw v (cb_ExtractionSpec r)))"

definition decode_batch :: "json \<Rightarrow> createBatchRequest option" where
  "decode_batch j =
     decode_struct [''engineVersion'', ''weather'', ''variants'', ''priority'', ''maxParallelism'',
         ''idempotencyKey'', ''extractionSpec''] put_batch j
       \<lparr> cb_EngineVersion = [], cb_Weather = zero_ref, cb_Variants = [], cb_Priority = None,
         cb_MaxParallelism = None, cb_IdempotencyKey = [], cb_ExtractionSpec = None \<rparr>"

definition put_upload :: "string \<Rightarrow> json \<Rightarrow> createUploadRequest \<Rightarrow> createUploadRequest option" where
  "put_upload f v r =
     (if f = ''kind'' then map_option (\<lambda>x. r\<lparr> cu_Kind := x \<rparr>) (decode_string v (cu_Kind r))
      else if f = ''filename'' then map_option (\<lambda>x. r\<lparr> cu_Filename := x \<rparr>) (decode_string v (cu_Filename r))
      else map_option (\<lambda>x. r\<lparr> cu_SHA256 := x \<rparr>) (decode_string v (cu_SHA256 r)))"

definition decode_upload :: "json \<Rightarrow> createUploadRequest option" where
  "decode_upload j =
     decode_struct [''kind'', ''filename'', ''sha256''] put_upload j
       \<lparr> cu_Kind = [], cu_Filename = [], cu_SHA256 = [] \<rparr>"

definition Decode :: "(json \<Rightarrow> 'r option) \<Rightarrow> request \<Rightarrow> 'r option" where
  "Decode dec r = (case json_Decode (rq_Body r) of None \<Rightarrow> None | Some j \<Rightarrow> dec j)"

section \<open>POST /v1/simulations\<close>

definition sim_params ::
  "createSimulationRequest \<Rightarrow> string \<Rightarrow> string \<Rightarrow> InsertSimulationParams" where
  "sim_params req uid state =
     \<lparr> p_BatchID = None, p_UserID = uid, p_EngineVersion = cs_EngineVersion req,
       p_Priority = normalizePriority (cs_Priority req), p_ModelRef = ar_Ref (cs_Model req),
       p_WeatherRef = ar_Ref (cs_Weather req), p_ModelSHA256 = optStr (ar_SHA256 (cs_Model req)),
       p_WeatherSHA256 = optStr (ar_SHA256 (cs_Weather req)),
       p_ExtractionSpec = rawJSON (cs_ExtractionSpec req),
       p_ContentHash = ContentHash (ar_SHA256 (cs_Model req)) (ar_SHA256 (cs_Weather req)) (cs_EngineVersion req),
       p_State = state \<rparr>"

text \<open>The checks before any statement runs: the error to answer with, if any.\<close>

definition check_simulation :: "'w Server \<Rightarrow> createSimulationRequest \<Rightarrow> string option" where
  "check_simulation s req =
     (if cs_EngineVersion req = [] \<or> ar_Ref (cs_Model req) = [] \<or> ar_Ref (cs_Weather req) = []
      then Some ''engineVersion, model.ref and weather.ref are required''
      else if \<not> EngineVersionAllowed (sv_cfg s) (cs_EngineVersion req) then Some ''unsupported engineVersion''
      else case validateInputRef s (ar_Ref (cs_Model req)) ''model'' of
             Some err \<Rightarrow> Some err
           | None \<Rightarrow> validateInputRef s (ar_Ref (cs_Weather req)) ''weather'')"

definition sim_state :: "'w Server \<Rightarrow> createSimulationRequest \<Rightarrow> 'w \<Rightarrow> string res \<times> 'w" where
  "sim_state s req w =
     (if ar_SHA256 (cs_Model req) \<noteq> [] \<and> ar_SHA256 (cs_Weather req) \<noteq> [] then
        (case ds_HasResult (sv_store s)
                (ContentHash (ar_SHA256 (cs_Model req)) (ar_SHA256 (cs_Weather req)) (cs_EngineVersion req)) w of
           (Inl err, w1) \<Rightarrow> (Inl err, w1)
         | (Inr hit, w1) \<Rightarrow> (Inr (if hit then ''succeeded'' else ''queued''), w1))
      else (Inr ''queued'', w))"

definition handleCreateSimulation :: "'w Server \<Rightarrow> 'w handler" where
  "handleCreateSimulation s r w =
     (case Decode decode_sim r of
        None \<Rightarrow> (writeError 400 ''invalid JSON body'', w)
      | Some req \<Rightarrow>
          (case check_simulation s req of
             Some err \<Rightarrow> (writeError 400 err, w)
           | None \<Rightarrow>
               (case sim_state s req w of
                  (Inl err, w1) \<Rightarrow> (writeError 500 ''cache lookup failed'', w1)
                | (Inr state, w1) \<Rightarrow>
                    (case ds_InsertSimulation (sv_store s) (sim_params req (userID r) state) w1 of
                       (Inl err, w2) \<Rightarrow> (writeError 500 ''could not create simulation'', w2)
                     | (Inr sid, w2) \<Rightarrow>
                         (writeJSON 201 (json_map [(''id'', JStr sid), (''state'', JStr state)]), w2)))))"

section \<open>Reading simulations and results\<close>

text \<open>
  The preamble four handlers share: look the simulation up, answer 404 when it is missing or
  belongs to someone else, 500 when the lookup fails, and go on otherwise.
\<close>

definition with_own_sim ::
  "'w Server \<Rightarrow> string \<Rightarrow> string \<Rightarrow> (Simulation \<Rightarrow> 'w \<Rightarrow> response \<times> 'w) \<Rightarrow> 'w \<Rightarrow> response \<times> 'w" where
  "with_own_sim s sid uid k w =
     (case ds_GetSimulation (sv_store s) sid w of
        (Inl ErrNotFound, w1) \<Rightarrow> (writeError 404 ''simulation not found'', w1)
      | (Inl (ErrMsg m), w1) \<Rightarrow> (writeError 500 ''lookup failed'', w1)
      | (Inr sim, w1) \<Rightarrow>
          if sim_UserID sim \<noteq> uid then (writeError 404 ''simulation not found'', w1) else k sim w1)"

text \<open>The result of a simulation, or the response that says why there is none.\<close>

definition with_result ::
  "'w Server \<Rightarrow> Simulation \<Rightarrow> (string \<Rightarrow> Result \<Rightarrow> 'w \<Rightarrow> response \<times> 'w) \<Rightarrow> 'w \<Rightarrow> response \<times> 'w" where
  "with_result s sim k w =
     (case sim_ContentHash sim of
        None \<Rightarrow> (writeError 404 ''no result yet'', w)
      | Some hash \<Rightarrow>
          (case ds_GetResult (sv_store s) hash w of
             (Inl ErrNotFound, w1) \<Rightarrow> (writeError 404 ''no result yet'', w1)
           | (Inl (ErrMsg m), w1) \<Rightarrow> (writeError 500 ''lookup failed'', w1)
           | (Inr res, w1) \<Rightarrow> k hash res w1))"

definition error_field :: "Simulation \<Rightarrow> (string \<times> json) list" where
  "error_field sim = (case sim_Error sim of None \<Rightarrow> [] | Some m \<Rightarrow> [(''error'', JStr m)])"

definition handleGetSimulation :: "'w Server \<Rightarrow> 'w handler" where
  "handleGetSimulation s r w =
     with_own_sim s (URLParam r ''id'') (userID r)
       (\<lambda>sim w1.
          let base = [(''id'', JStr (sim_ID sim)), (''state'', JStr (sim_State sim))];
              (extra, w2) =
                (case sim_ContentHash sim of
                   None \<Rightarrow> ([], w1)
                 | Some hash \<Rightarrow>
                     (case ds_GetResult (sv_store s) hash w1 of
                        (Inl err, w2) \<Rightarrow> ([], w2)
                      | (Inr res, w2) \<Rightarrow>
                          ([(''verdict'', JStr (res_Verdict res)), (''result'', resultPayload s res)], w2)))
          in (writeJSON 200 (json_map (base @ extra @ error_field sim)), w2)) w"

definition handleGetResult :: "'w Server \<Rightarrow> 'w handler" where
  "handleGetResult s r w =
     with_own_sim s (URLParam r ''simId'') (userID r)
       (\<lambda>sim. with_result s sim (\<lambda>hash res w2. (writeJSON 200 (resultPayload s res), w2))) w"

section \<open>Batches\<close>

text \<open>The checks of a batch submission before any statement runs.\<close>

fun check_variants :: "'w Server \<Rightarrow> nat \<Rightarrow> variantRequest list \<Rightarrow> string option" where
  "check_variants s i [] = None"
| "check_variants s i (v # vs) =
     (case validateInputRef s (ar_Ref (vr_Model v)) ''model'' of
        Some err \<Rightarrow> Some (''variant '' @ show_nat i @ '': '' @ err)
      | None \<Rightarrow> check_variants s (Suc i) vs)"

definition check_batch :: "'w Server \<Rightarrow> createBatchRequest \<Rightarrow> string option" where
  "check_batch s req =
     (if cb_EngineVersion req = [] \<or> ar_Ref (cb_Weather req) = [] \<or> length (cb_Variants req) = 0
      then Some ''engineVersion, weather.ref and at least one variant are required''
      else if int (length (cb_Variants req)) > MaxBatchVariants (sv_cfg s)
      then Some (''a batch may declare at most '' @ show_int (MaxBatchVariants (sv_cfg s)) @ '' variants'')
      else if \<not> EngineVersionAllowed (sv_cfg s) (cb_EngineVersion req) then Some ''unsupported engineVersion''
      else case validateInputRef s (ar_Ref (cb_Weather req)) ''weather'' of
             Some err \<Rightarrow> Some err
           | None \<Rightarrow> check_variants s 0 (cb_Variants req))"

definition batch_spec :: "createBatchRequest \<Rightarrow> string \<Rightarrow> string \<Rightarrow> ExpandSpec" where
  "batch_spec req uid batchID =
     \<lparr> sp_BatchID = batchID, sp_UserID = uid, sp_EngineVersion = cb_EngineVersion req,
       sp_WeatherRef = ar_Ref (cb_Weather req), sp_WeatherSHA256 = ar_SHA256 (cb_Weather req),
       sp_Priority = normalizePriority (cb_Priority req),
       sp_ExtractionSpec = rawJSON (cb_ExtractionSpec req),
       sp_Variants = map (\<lambda>v. \<lparr> v_ModelRef = ar_Ref (vr_Model v), v_ModelSHA256 = ar_SHA256 (vr_Model v),
                               v_Name = vr_Name v \<rparr>) (cb_Variants req) \<rparr>"

definition accepted :: "string \<Rightarrow> string \<Rightarrow> response" where
  "accepted batchID state = writeJSON 202 (json_map [(''batchId'', JStr batchID), (''state'', JStr state)])"

text \<open>From the creation of the batch row on.\<close>

definition submit_batch :: "'w Server \<Rightarrow> createBatchRequest \<Rightarrow> string \<Rightarrow> 'w \<Rightarrow> response \<times> 'w" where
  "submit_batch s req uid w =
     (case ds_CreateBatch (sv_store s) uid (int (length (cb_Variants req))) (optStr (cb_IdempotencyKey req)) w of
        (Inl err, w1) \<Rightarrow>
          if cb_IdempotencyKey req \<noteq> [] then
            (case ds_FindBatchByIdempotencyKey (sv_store s) uid (cb_IdempotencyKey req) w1 of
               (Inr existing, w2) \<Rightarrow> (accepted (bat_ID existing) (bat_State existing), w2)
             | (Inl ferr, w2) \<Rightarrow> (writeError 500 ''could not create batch'', w2))
          else (writeError 500 ''could not create batch'', w1)
      | (Inr batchID, w1) \<Rightarrow>
          let spec = batch_spec req uid batchID in
          if length (sp_Variants spec) \<le> SyncExpandThreshold then
            (case Expand (sv_expander s) spec w1 of
               (Inl err, w2) \<Rightarrow> (writeError 500 ''batch expansion failed'', w2)
             | (Inr _, w2) \<Rightarrow> (accepted batchID ''expanding'', w2))
          else (accepted batchID ''expanding'', ExpandAsync (sv_expander s) spec w1))"

definition handleCreateBatch :: "'w Server \<Rightarrow> 'w handler" where
  "handleCreateBatch s r w =
     (case Decode decode_batch r of
        None \<Rightarrow> (writeError 400 ''invalid JSON body'', w)
      | Some req \<Rightarrow>
          (case check_batch s req of
             Some err \<Rightarrow> (writeError 400 err, w)
           | None \<Rightarrow>
               if cb_IdempotencyKey req \<noteq> [] then
                 (case ds_FindBatchByIdempotencyKey (sv_store s) (userID r) (cb_IdempotencyKey req) w of
                    (Inr existing, w1) \<Rightarrow> (accepted (bat_ID existing) (bat_State existing), w1)
                  | (Inl ErrNotFound, w1) \<Rightarrow> submit_batch s req (userID r) w1
                  | (Inl (ErrMsg m), w1) \<Rightarrow> (writeError 500 ''idempotency lookup failed'', w1))
               else submit_batch s req (userID r) w))"

definition with_own_batch ::
  "'w Server \<Rightarrow> string \<Rightarrow> string \<Rightarrow> (Batch \<Rightarrow> 'w \<Rightarrow> response \<times> 'w) \<Rightarrow> 'w \<Rightarrow> response \<times> 'w" where
  "with_own_batch s bid uid k w =
     (case ds_GetBatch (sv_store s) bid w of
        (Inl ErrNotFound, w1) \<Rightarrow> (writeError 404 ''batch not found'', w1)
      | (Inl (ErrMsg m), w1) \<Rightarrow> (writeError 500 ''lookup failed'', w1)
      | (Inr b, w1) \<Rightarrow> if bat_UserID b \<noteq> uid then (writeError 404 ''batch not found'', w1) else k b w1)"

definition JInt :: "int \<Rightarrow> json" where
  "JInt i = JNum (show_int i)"

definition handleGetBatch :: "'w Server \<Rightarrow> 'w handler" where
  "handleGetBatch s r w =
     with_own_batch s (URLParam r ''id'') (userID r)
       (\<lambda>b w1. (writeJSON 200 (json_map
          [(''id'', JStr (bat_ID b)), (''state'', JStr (bat_State b)), (''total'', JInt (bat_Total b)),
           (''succeeded'', JInt (bat_Succeeded b)), (''failed'', JInt (bat_Failed b))]), w1)) w"

definition sim_item :: "Simulation \<Rightarrow> json" where
  "sim_item sim = json_map ([(''id'', JStr (sim_ID sim)), (''state'', JStr (sim_State sim))] @ error_field sim)"

definition handleListBatchSimulations :: "'w Server \<Rightarrow> 'w handler" where
  "handleListBatchSimulations s r w =
     (let bid = URLParam r ''id''; (limit, offset) = pageParams r in
      with_own_batch s bid (userID r)
        (\<lambda>b w1.
           case ds_ListBatchSimulations (sv_store s) bid limit offset w1 of
             (Inl err, w2) \<Rightarrow> (writeError 500 ''lookup failed'', w2)
           | (Inr (sims, n), w2) \<Rightarrow>
               (writeJSON 200 (json_map [(''items'', JArr (map sim_item sims)), (''total'', JInt n)]), w2)) w)"

section \<open>Uploads and artifacts\<close>

text \<open>\<open>int(d.Seconds())\<close>: whole seconds, truncated towards zero.\<close>

definition seconds :: "int \<Rightarrow> int" where
  "seconds d = (if 0 \<le> d then d div Second else - ((- d) div Second))"

definition upload_bucket :: "'w Server \<Rightarrow> string \<Rightarrow> string option" where
  "upload_bucket s kind =
     (if kind = ''model'' then Some (BucketModels (sv_cfg s))
      else if kind = ''weather'' then Some (BucketWeather (sv_cfg s)) else None)"

definition upload_base :: "string \<Rightarrow> string" where
  "upload_base filename = basenameSanitize (path_Base (TrimSpace filename))"

definition upload_key :: "createUploadRequest \<Rightarrow> string \<Rightarrow> string" where
  "upload_key req uid =
     (if cu_SHA256 req \<noteq> [] then ''uploads/'' @ cu_SHA256 req @ ''-'' @ upload_base (cu_Filename req)
      else ''uploads/'' @ uid @ ''/'' @ upload_base (cu_Filename req))"

definition handleCreateUpload :: "'w Server \<Rightarrow> 'w handler" where
  "handleCreateUpload s r w =
     (case sv_presigner s of
        None \<Rightarrow> (writeError 503 ''presigned uploads not configured (no S3 endpoint)'', w)
      | Some pc \<Rightarrow>
          (case Decode decode_upload r of
             None \<Rightarrow> (writeError 400 ''invalid JSON body'', w)
           | Some req \<Rightarrow>
               (case upload_bucket s (cu_Kind req) of
                  None \<Rightarrow> (writeError 400
                     (''kind must be '' @ [CHR 0x22] @ ''model'' @ [CHR 0x22] @ '' or '' @ [CHR 0x22] @ ''weather'' @ [CHR 0x22]), w)
                | Some bucket \<Rightarrow>
                    let base = upload_base (cu_Filename req) in
                    if base = [] \<or> base = ''.'' \<or> base = ''/'' then (writeError 400 ''filename is required'', w)
                    else let key = upload_key req (userID r) in
                      (case pc_PresignPut pc bucket key w of
                         (Inl err, w1) \<Rightarrow> (writeError 500 ''could not mint upload url'', w1)
                       | (Inr url, w1) \<Rightarrow>
                           (writeJSON 200 (JObj
                              [(''url'', JStr url), (''ref'', JStr (''s3://'' @ bucket @ ''/'' @ key)),
                               (''method'', JStr ''PUT''), (''expiresIn'', JInt (seconds (pc_ExpiresIn pc)))]), w1)))))"

definition artifact_name :: "string \<Rightarrow> string \<Rightarrow> string" where
  "artifact_name prefix key =
     (let name = TrimPrefix (TrimPrefix key prefix) ''/'' in if name = [] then path_Base key else name)"

definition artifact_entry :: "string \<Rightarrow> string \<Rightarrow> int \<Rightarrow> json" where
  "artifact_entry name url sz =
     JObj ([(''name'', JStr name), (''url'', JStr url)] @ (if sz = 0 then [] else [(''size'', JInt sz)]))"

fun presign_objects ::
  "'w presignClient \<Rightarrow> string \<Rightarrow> string \<Rightarrow> storageObject list \<Rightarrow> 'w \<Rightarrow> json list res \<times> 'w" where
  "presign_objects pc bucket prefix [] w = (Inr [], w)"
| "presign_objects pc bucket prefix (obj # objs) w =
     (case pc_PresignGet pc bucket (so_Key obj) w of
        (Inl err, w1) \<Rightarrow> (Inl err, w1)
      | (Inr url, w1) \<Rightarrow>
          (case presign_objects pc bucket prefix objs w1 of
             (Inl err, w2) \<Rightarrow> (Inl err, w2)
           | (Inr es, w2) \<Rightarrow>
               (Inr (artifact_entry (artifact_name prefix (so_Key obj)) url (so_Size obj) # es), w2)))"

definition list_artifacts ::
  "'w Server \<Rightarrow> 'w presignClient \<Rightarrow> string \<Rightarrow> Result \<Rightarrow> 'w \<Rightarrow> response \<times> 'w" where
  "list_artifacts s pc hash res w =
     (case resultPrefix res hash (BucketResults (sv_cfg s)) of
        (bucket, prefix) \<Rightarrow>
          (case pc_List pc bucket prefix w of
             (Inl err, w1) \<Rightarrow> (writeError 500 ''could not list artifacts'', w1)
           | (Inr objs, w1) \<Rightarrow>
               (case presign_objects pc bucket prefix objs w1 of
                  (Inl err, w2) \<Rightarrow> (writeError 500 ''could not mint download url'', w2)
                | (Inr es, w2) \<Rightarrow> (writeJSON 200 (JObj [(''artifacts'', JArr es)]), w2))))"

definition handleListArtifacts :: "'w Server \<Rightarrow> 'w handler" where
  "handleListArtifacts s r w =
     (case sv_presigner s of
        None \<Rightarrow> (writeError 503 ''presigned downloads not configured (no S3 endpoint)'', w)
      | Some pc \<Rightarrow>
          with_own_sim s (URLParam r ''simId'') (userID r)
            (\<lambda>sim. with_result s sim (list_artifacts s pc)) w)"

section \<open>The router\<close>

text \<open>
  \<open>chi\<close> stands for the routing library: given the registered (method, pattern) pairs and a
  request's method and path, the route that matches with its URL parameters, or why there is none.
  \<open>Router\<close> mounts everything but the health check behind the authentication middleware, which
  also runs for paths under \<open>/v1\<close> that match no route.
\<close>

datatype chi_result = ChiMatch nat "(string \<times> string) list" | ChiNotFound | ChiMethodNotAllowed

type_synonym chi = "(string \<times> string) list \<Rightarrow> string \<Rightarrow> string \<Rightarrow> chi_result"

definition root_routes :: "(string \<times> string) list" where
  "root_routes = [(''GET'', ''/healthz''), (''*'', ''/v1/*'')]"

definition v1_routes :: "(string \<times> string) list" where
  "v1_routes =
     [(''POST'', ''/simulations''), (''GET'', ''/simulations/{id}''), (''POST'', ''/batches''),
      (''GET'', ''/batches/{id}''), (''GET'', ''/batches/{id}/simulations''), (''GET'', ''/results/{simId}''),
      (''POST'', ''/uploads''), (''GET'', ''/results/{simId}/artifacts'')]"

definition v1_handlers :: "('w Server \<Rightarrow> 'w handler) list" where
  "v1_handlers =
     [handleCreateSimulation, handleGetSimulation, handleCreateBatch, handleGetBatch,
      handleListBatchSimulations, handleGetResult, handleCreateUpload, handleListArtifacts]"

definition serve_routes :: "chi \<Rightarrow> (string \<times> string) list \<Rightarrow> ('w handler) list \<Rightarrow> 'w handler" where
  "serve_routes chi routes hs r w =
     (case chi routes (rq_Method r) (rq_Path r) of
        ChiMatch i ps \<Rightarrow>
          if i < length hs then (hs ! i) (r\<lparr> rq_Params := ps \<rparr>) w
          else (\<lparr> rs_Status = 404, rs_Body = BText ''404 page not found'' \<rparr>, w)
      | ChiNotFound \<Rightarrow> (\<lparr> rs_Status = 404, rs_Body = BText ''404 page not found'' \<rparr>, w)
      | ChiMethodNotAllowed \<Rightarrow> (\<lparr> rs_Status = 405, rs_Body = BText [] \<rparr>, w))"

definition healthz :: "'w handler" where
  "healthz r w = (\<lparr> rs_Status = 200, rs_Body = BText ''ok'' \<rparr>, w)"

text \<open>The mounted router matches on what the mount's wildcard left of the path.\<close>

definition v1 :: "chi \<Rightarrow> 'w Server \<Rightarrow> 'w handler" where
  "v1 chi s r w =
     authMiddleware s (serve_routes chi v1_routes (map (\<lambda>h. h s) v1_handlers))
       (r\<lparr> rq_Path := ''/'' @ URLParam r ''*'' \<rparr>) w"

definition Router :: "chi \<Rightarrow> 'w Server \<Rightarrow> 'w handler" where
  "Router chi s = serve_routes chi root_routes [healthz, v1 chi s]"

end
