(* ===== verification/GoUrl.thy ===== *)
theory GoUrl
  imports GoStrings
begin

text \<open>
  The part of \<open>net/url\<close> the program uses: \<open>url.Parse\<close> reduced to the two fields that are read,
  scheme and host, with every reason for which parsing fails (control characters, a missing
  scheme before a colon, a colon in the first segment of a relative reference, malformed escapes,
  ports, user information and host characters).
\<close>

section \<open>Escapes\<close>

datatype encoding = EncodeHost | EncodeZone | EncodeOther

definition is_alnum :: "char \<Rightarrow> bool" where
  "is_alnum c \<longleftrightarrow> (65 \<le> byte c \<and> byte c \<le> 90) \<or> (97 \<le> byte c \<and> byte c \<le> 122) \<or> is_digit c"

definition ishex :: "char \<Rightarrow> bool" where
  "ishex c \<longleftrightarrow> is_digit c \<or> (97 \<le> byte c \<and> byte c \<le> 102) \<or> (65 \<le> byte c \<and> byte c \<le> 70)"

definition unhex :: "char \<Rightarrow> nat" where
  "unhex c = (if is_digit c then byte c - 48 else if 97 \<le> byte c then byte c - 87 else byte c - 55)"

definition host_punct :: "char list" where
  "host_punct = ''!$&'' @ [CHR 0x27] @ ''()*+,;=:[]<>'' @ [CHR 0x22] @ ''-_.~''"

definition shouldEscape :: "char \<Rightarrow> bool" where
  "shouldEscape c \<longleftrightarrow> \<not> is_alnum c \<and> \<not> List.member host_punct c"

fun unescape :: "encoding \<Rightarrow> string \<Rightarrow> string option" where
  "unescape m [] = Some []"
| "unescape m (c # cs) =
     (if c = CHR ''%'' then
        (case cs of
           a # b # rest \<Rightarrow>
             if \<not> ishex a \<or> \<not> ishex b then None
             else if m = EncodeHost \<and> unhex a < 8 \<and> \<not> (a = CHR ''2'' \<and> b = CHR ''5'') then None
             else if m = EncodeZone \<and> \<not> (a = CHR ''2'' \<and> b = CHR ''5'') \<and>
                     char_of (unhex a * 16 + unhex b) \<noteq> CHR '' '' \<and> shouldEscape (char_of (unhex a * 16 + unhex b)) then None
             else map_option (\<lambda>t. char_of (unhex a * 16 + unhex b) # t) (unescape m rest)
         | _ \<Rightarrow> None)
      else if m \<noteq> EncodeOther \<and> byte c < 128 \<and> shouldEscape c then None
      else map_option (\<lambda>t. c # t) (unescape m cs))"

section \<open>Authority\<close>

definition validOptionalPort :: "string \<Rightarrow> bool" where
  "validOptionalPort port = (case port of [] \<Rightarrow> True | c # ds \<Rightarrow> c = CHR '':'' \<and> list_all is_digit ds)"

definition LastIndex :: "string \<Rightarrow> char \<Rightarrow> nat option" where
  "LastIndex s c = (if List.member s c then Some (length s - 1 - length (takeWhile (\<lambda>x. x \<noteq> c) (rev s))) else None)"

fun find_sub :: "string \<Rightarrow> string \<Rightarrow> nat option" where
  "find_sub p [] = (if p = [] then Some 0 else None)"
| "find_sub p (c # cs) = (if HasPrefix (c # cs) p then Some 0 else map_option Suc (find_sub p cs))"

definition parseHost :: "string \<Rightarrow> string option" where
  "parseHost host =
     (if HasPrefix host ''['' then
        (case LastIndex host (CHR '']'') of
           None \<Rightarrow> None
         | Some i \<Rightarrow>
             if \<not> validOptionalPort (drop (Suc i) host) then None
             else (case find_sub ''%25'' (take i host) of
                     Some z \<Rightarrow>
                       (case (unescape EncodeHost (take z host), unescape EncodeZone (drop z (take i host)),
                              unescape EncodeHost (drop i host)) of
                          (Some h1, Some h2, Some h3) \<Rightarrow> Some (h1 @ h2 @ h3)
                        | _ \<Rightarrow> None)
                   | None \<Rightarrow> unescape EncodeHost host))
      else (case LastIndex host (CHR '':'') of
              Some i \<Rightarrow> if validOptionalPort (drop i host) then unescape EncodeHost host else None
            | None \<Rightarrow> unescape EncodeHost host))"

definition validUserinfo :: "string \<Rightarrow> bool" where
  "validUserinfo s =
     list_all (\<lambda>c. is_alnum c \<or> List.member (''-._:~!$&'' @ [CHR 0x27] @ ''()*+,;=%@'') c) s"

definition parseAuthority :: "string \<Rightarrow> string option" where
  "parseAuthority a =
     (case LastIndex a (CHR ''@'') of
        None \<Rightarrow> parseHost a
      | Some i \<Rightarrow>
          (case parseHost (drop (Suc i) a) of
             None \<Rightarrow> None
           | Some host \<Rightarrow>
               if validUserinfo (take i a) \<and> unescape EncodeOther (take i a) \<noteq> None then Some host else None))"

section \<open>Scheme and the whole\<close>

text \<open>\<open>Some (scheme, rest)\<close>, or \<open>None\<close> for the error "missing protocol scheme".\<close>

fun getScheme_loop :: "string \<Rightarrow> string \<Rightarrow> string \<Rightarrow> (string \<times> string) option" where
  "getScheme_loop raw acc [] = Some ([], raw)"
| "getScheme_loop raw acc (c # cs) =
     (if (65 \<le> byte c \<and> byte c \<le> 90) \<or> (97 \<le> byte c \<and> byte c \<le> 122) then getScheme_loop raw (acc @ [c]) cs
      else if is_digit c \<or> c = CHR ''+'' \<or> c = CHR ''-'' \<or> c = CHR ''.''
        then (if acc = [] then Some ([], raw) else getScheme_loop raw (acc @ [c]) cs)
      else if c = CHR '':'' then (if acc = [] then None else Some (acc, cs))
      else Some ([], raw))"

definition getScheme :: "string \<Rightarrow> (string \<times> string) option" where
  "getScheme raw = getScheme_loop raw [] raw"

definition ctl_byte :: "char \<Rightarrow> bool" where
  "ctl_byte c \<longleftrightarrow> byte c < 32 \<or> byte c = 127"

definition cut_query :: "string \<Rightarrow> string" where
  "cut_query rest = fst (Cut rest (CHR ''?''))"

definition parse_rest :: "string \<Rightarrow> string \<Rightarrow> (string \<times> string) option" where
  "parse_rest scheme rest =
     (if \<not> HasPrefix rest ''/'' \<and> scheme \<noteq> [] then Some (scheme, [])
      else if \<not> HasPrefix rest ''/'' \<and> List.member (fst (Cut rest (CHR ''/''))) (CHR '':'') then None
      else if (scheme \<noteq> [] \<or> \<not> HasPrefix rest ''///'') \<and> HasPrefix rest ''//'' then
        (let authority = takeWhile (\<lambda>c. c \<noteq> CHR ''/'') (drop 2 rest);
             path = dropWhile (\<lambda>c. c \<noteq> CHR ''/'') (drop 2 rest)
         in case parseAuthority authority of
              None \<Rightarrow> None
            | Some host \<Rightarrow> if unescape EncodeOther path = None then None else Some (scheme, host))
      else if unescape EncodeOther rest = None then None
      else Some (scheme, []))"

text \<open>\<open>url.Parse\<close>: scheme and host, or \<open>None\<close> for an error.\<close>

definition url_Parse :: "string \<Rightarrow> (string \<times> string) option" where
  "url_Parse rawURL =
     (case Cut rawURL (CHR ''#'') of
        (u, frag, _) \<Rightarrow>
          if list_ex ctl_byte u then None
          else if u = ''*'' then Some ([], [])
          else (case getScheme u of
                  None \<Rightarrow> None
                | Some (scheme, rest) \<Rightarrow>
                    (case parse_rest (map lower scheme) (cut_query rest) of
                       None \<Rightarrow> None
                     | Some sh \<Rightarrow> if unescape EncodeOther frag = None then None else Some sh)))"

section \<open>Lemmas\<close>

lemma unescape_plain:
  "list_all (\<lambda>c. c \<noteq> CHR ''%'' \<and> (m = EncodeOther \<or> \<not> shouldEscape c)) s \<Longrightarrow> unescape m s = Some s"
  by (induction s) auto

lemma Cut_none: "c \<notin> set s \<Longrightarrow> Cut s c = (s, [], False)"
  unfolding Cut_def by (induction s) (auto simp: Let_def split: if_splits)

text \<open>A host of letters, digits, dots and dashes, with or without a port, parses to itself.\<close>

definition plain_host :: "string \<Rightarrow> bool" where
  "plain_host h \<longleftrightarrow> list_all (\<lambda>c. is_alnum c \<or> c = CHR ''.'' \<or> c = CHR ''-'') h"

lemma plain_host_char:
  assumes "plain_host h" and "c \<in> set h"
  shows "c \<noteq> CHR ''%''" "c \<noteq> CHR ''#''" "c \<noteq> CHR ''?''" "c \<noteq> CHR ''/''" "c \<noteq> CHR ''@''" "c \<noteq> CHR '':''"
    "c \<noteq> CHR ''[''" "\<not> ctl_byte c" "\<not> shouldEscape c"
proof -
  from assms have c: "is_alnum c \<or> c = CHR ''.'' \<or> c = CHR ''-''" by (auto simp: plain_host_def list_all_iff)
  then show "c \<noteq> CHR ''%''" "c \<noteq> CHR ''#''" "c \<noteq> CHR ''?''" "c \<noteq> CHR ''/''" "c \<noteq> CHR ''@''" "c \<noteq> CHR '':''"
    "c \<noteq> CHR ''[''"
    by (auto simp: is_alnum_def is_digit_def byte_def)
  from c show "\<not> ctl_byte c" by (auto simp: is_alnum_def is_digit_def ctl_byte_def byte_def)
  from c show "\<not> shouldEscape c" by (auto simp: shouldEscape_def host_punct_def)
qed

lemma parseAuthority_plain: "plain_host h \<Longrightarrow> parseAuthority h = Some h"
proof -
  assume h: "plain_host h"
  have no: "CHR ''@'' \<notin> set h" "CHR '':'' \<notin> set h" using plain_host_char [OF h] by blast+
  have "unescape EncodeHost h = Some h"
    by (rule unescape_plain) (use plain_host_char [OF h] in \<open>auto simp: list_all_iff\<close>)
  moreover have "\<not> HasPrefix h ''[''"
    using plain_host_char(7) [OF h, of "CHR ''[''"] by (auto simp: HasPrefix_iff)
  ultimately show ?thesis using no by (simp add: parseAuthority_def parseHost_def LastIndex_def)
qed

text \<open>An \<open>https\<close> URL that is nothing but a plain host.\<close>

lemma url_Parse_https:
  assumes h: "plain_host h" and "h \<noteq> []"
  shows "url_Parse (''https://'' @ h) = Some (''https'', h)"
proof -
  let ?u = "''https://'' @ h"
  note ch = plain_host_char [OF h]
  have "CHR ''#'' \<notin> set ?u" using ch by auto
  then have cut: "Cut ?u (CHR ''#'') = (?u, [], False)" by (rule Cut_none)
  have ctl: "\<not> list_ex ctl_byte ?u" using ch by (auto simp: list_ex_iff ctl_byte_def byte_def)
  have sch: "getScheme ?u = Some (''https'', ''//'' @ h)"
    by (simp add: getScheme_def byte_def is_digit_def)
  have "CHR ''?'' \<notin> set (''//'' @ h)" using ch by auto
  then have q: "cut_query (''//'' @ h) = ''//'' @ h" by (simp add: cut_query_def Cut_none)
  have tw: "takeWhile (\<lambda>c. c \<noteq> CHR ''/'') h = h" "dropWhile (\<lambda>c. c \<noteq> CHR ''/'') h = []"
    using ch by (auto simp: takeWhile_eq_all_conv)
  have "parse_rest ''https'' (''//'' @ h) = Some (''https'', h)"
    by (simp add: parse_rest_def HasPrefix_def tw parseAuthority_plain [OF h])
  moreover have "map lower ''https'' = ''https''" by (simp add: lower_def byte_def)
  ultimately show ?thesis using cut ctl sch q by (simp add: url_Parse_def)
qed

end
