(* ===== verification/Storage.thy ===== *)
theory Storage
  imports Server GoUrl
begin

text \<open>
  \<open>internal/storage/presign.go\<close> and its adapter to the API's \<open>presignClient\<close> interface
  (\<open>PresignerAdapter\<close> in \<open>internal/api/uploads.go\<close>). The \<open>minio\<close> client library is a parameter:
  building a client, presigning, and the stream of a listing. A clock tells its calls apart.
\<close>

section \<open>Definitions\<close>

datatype creds = NewStaticV4 string string | NewIAM

record 'c minio =
  mio_New :: "string \<Rightarrow> bool \<Rightarrow> creds \<Rightarrow> string \<Rightarrow> 'c res"
  mio_PresignedPutObject :: "'c \<Rightarrow> nat \<Rightarrow> string \<Rightarrow> string \<Rightarrow> int \<Rightarrow> string res"
  mio_PresignedGetObject :: "'c \<Rightarrow> nat \<Rightarrow> string \<Rightarrow> string \<Rightarrow> int \<Rightarrow> string res"
  mio_ListObjects :: "'c \<Rightarrow> nat \<Rightarrow> string \<Rightarrow> string \<Rightarrow> (string \<times> int) res list"

record 'c Presigner =
  signClient :: 'c
  listClient :: 'c
  expiry :: int

record Object =
  ob_Key :: string
  ob_Size :: int

record StorageConfig =
  sc_Endpoint :: string
  sc_PublicEndpoint :: string
  sc_AccessKey :: string
  sc_SecretKey :: string
  sc_Region :: string
  sc_Expiry :: int

definition parseEndpoint :: "string \<Rightarrow> (string \<times> bool) res" where
  "parseEndpoint endpoint =
     (if endpoint = [] then Inl (ErrMsg ''empty S3 endpoint'')
      else (case url_Parse endpoint of
              None \<Rightarrow> Inl (ErrMsg ''parse endpoint'')
            | Some (scheme, host) \<Rightarrow>
                if host = [] then Inr (endpoint, False) else Inr (host, scheme = ''https'')))"

definition newClient :: "'c minio \<Rightarrow> string \<Rightarrow> creds \<Rightarrow> string \<Rightarrow> 'c res" where
  "newClient mio endpoint cr region =
     (case parseEndpoint endpoint of
        Inl err \<Rightarrow> Inl err
      | Inr (host, secure) \<Rightarrow> mio_New mio host secure cr region)"

definition awsS3Endpoint :: "string \<Rightarrow> string" where
  "awsS3Endpoint region =
     ''https://s3.'' @ (if region = [] then ''us-east-1'' else region) @ ''.amazonaws.com''"

definition storage_New :: "'c minio \<Rightarrow> StorageConfig \<Rightarrow> 'c Presigner res" where
  "storage_New mio cfg =
     (let cr = (if sc_AccessKey cfg \<noteq> [] then NewStaticV4 (sc_AccessKey cfg) (sc_SecretKey cfg) else NewIAM);
          endpoint = (if sc_Endpoint cfg = [] then awsS3Endpoint (sc_Region cfg) else sc_Endpoint cfg);
          pub = (if sc_PublicEndpoint cfg = [] then endpoint else sc_PublicEndpoint cfg)
      in case newClient mio pub cr (sc_Region cfg) of
           Inl err \<Rightarrow> Inl (ErrMsg ''build sign client'')
         | Inr sign \<Rightarrow>
             (case newClient mio endpoint cr (sc_Region cfg) of
                Inl err \<Rightarrow> Inl (ErrMsg ''build list client'')
              | Inr lst \<Rightarrow>
                  Inr \<lparr> signClient = sign, listClient = lst,
                        expiry = (if sc_Expiry cfg \<le> 0 then 5 * Minute else sc_Expiry cfg) \<rparr>))"

definition ExpiresIn :: "'c Presigner \<Rightarrow> int" where
  "ExpiresIn p = expiry p"

definition PresignPut :: "'c minio \<Rightarrow> 'c Presigner \<Rightarrow> nat \<Rightarrow> string \<Rightarrow> string \<Rightarrow> string res" where
  "PresignPut mio p t bucket key =
     (case mio_PresignedPutObject mio (signClient p) t bucket key (expiry p) of
        Inl err \<Rightarrow> Inl (ErrMsg (''presign put '' @ bucket @ ''/'' @ key))
      | Inr u \<Rightarrow> Inr u)"

definition PresignGet :: "'c minio \<Rightarrow> 'c Presigner \<Rightarrow> nat \<Rightarrow> string \<Rightarrow> string \<Rightarrow> string res" where
  "PresignGet mio p t bucket key =
     (case mio_PresignedGetObject mio (signClient p) t bucket key (expiry p) of
        Inl err \<Rightarrow> Inl (ErrMsg (''presign get '' @ bucket @ ''/'' @ key))
      | Inr u \<Rightarrow> Inr u)"

text \<open>The loop over the listing's channel: the first error ends it, directory markers are skipped.\<close>

fun list_loop :: "string \<Rightarrow> string \<Rightarrow> Object list \<Rightarrow> (string \<times> int) res list \<Rightarrow> Object list res" where
  "list_loop bucket prefix out [] = Inr out"
| "list_loop bucket prefix out (Inl err # os) = Inl (ErrMsg (''list '' @ bucket @ ''/'' @ prefix))"
| "list_loop bucket prefix out (Inr (key, sz) # os) =
     (if HasSuffix key ''/'' then list_loop bucket prefix out os
      else list_loop bucket prefix (out @ [\<lparr> ob_Key = key, ob_Size = sz \<rparr>]) os)"

definition ListObjs :: "'c minio \<Rightarrow> 'c Presigner \<Rightarrow> nat \<Rightarrow> string \<Rightarrow> string \<Rightarrow> Object list res" where
  "ListObjs mio p t bucket prefix =
     list_loop bucket prefix [] (mio_ListObjects mio (listClient p) t bucket prefix)"

section \<open>The adapter\<close>

definition adapt_object :: "Object \<Rightarrow> storageObject" where
  "adapt_object ob = \<lparr> so_Key = ob_Key ob, so_Size = ob_Size ob \<rparr>"

definition tick :: "world \<Rightarrow> world" where
  "tick w = w\<lparr> w_tick := Suc (w_tick w) \<rparr>"

definition PresignerAdapter :: "'c minio \<Rightarrow> 'c Presigner \<Rightarrow> world presignClient" where
  "PresignerAdapter mio p =
     \<lparr> pc_PresignPut = (\<lambda>bucket key w. (PresignPut mio p (w_tick w) bucket key, tick w)),
       pc_PresignGet = (\<lambda>bucket key w. (PresignGet mio p (w_tick w) bucket key, tick w)),
       pc_List = (\<lambda>bucket prefix w.
          (case ListObjs mio p (w_tick w) bucket prefix of
             Inl err \<Rightarrow> Inl err
           | Inr objs \<Rightarrow> Inr (map adapt_object objs), tick w)),
       pc_ExpiresIn = ExpiresIn p \<rparr>"

definition NewPresignerAdapter :: "'c minio \<Rightarrow> 'c Presigner option \<Rightarrow> world presignClient option" where
  "NewPresignerAdapter mio p = map_option (PresignerAdapter mio) p"

section \<open>Properties\<close>

lemma list_loop_ok:
  "list_all (\<lambda>x. \<not> isl x) os \<Longrightarrow>
     list_loop b p out os =
       Inr (out @ map (\<lambda>x. \<lparr> ob_Key = fst (projr x), ob_Size = snd (projr x) \<rparr>)
                    (filter (\<lambda>x. \<not> HasSuffix (fst (projr x)) ''/'') os))"
  by (induction b p out os rule: list_loop.induct) auto

lemma list_loop_error: "list_ex isl os \<Longrightarrow> isl (list_loop b p out os)"
  by (induction b p out os rule: list_loop.induct) auto

text \<open>
  \<open>List\<close> returns every object of the listing in order except the directory markers (keys that
  end in a slash), and fails exactly when the listing reports an error anywhere, never with a
  partial result.
\<close>

lemma ListObjs_complete:
  "(case ListObjs mio p t bucket prefix of
      Inl err \<Rightarrow> list_ex isl (mio_ListObjects mio (listClient p) t bucket prefix)
    | Inr objs \<Rightarrow>
        list_all (\<lambda>x. \<not> isl x) (mio_ListObjects mio (listClient p) t bucket prefix) \<and>
        map (\<lambda>x. (ob_Key x, ob_Size x)) objs =
          filter (\<lambda>(k, _). \<not> HasSuffix k ''/'') (map projr (mio_ListObjects mio (listClient p) t bucket prefix)))"
proof (cases "list_ex isl (mio_ListObjects mio (listClient p) t bucket prefix)")
  case True
  then show ?thesis
    using list_loop_error [OF True, of bucket prefix "[]"] by (auto simp: ListObjs_def split: sum.splits)
next
  case False
  then have "list_all (\<lambda>x. \<not> isl x) (mio_ListObjects mio (listClient p) t bucket prefix)"
    by (simp add: list_ex_iff list_all_iff)
  then show ?thesis
    by (simp add: ListObjs_def list_loop_ok filter_map comp_def split_beta)
qed

text \<open>
  With no endpoint configured, both clients are built for the regional AWS host over TLS: for a
  region of letters, digits, dots and dashes (or none, which means us-east-1), \<open>New\<close> asks the
  library for exactly that host with \<open>Secure\<close> set, and the links it mints expire after the
  configured time, or after five minutes when that is not positive.
\<close>

lemma storage_New_aws:
  assumes "sc_Endpoint cfg = []" and "sc_PublicEndpoint cfg = []" and "plain_host (sc_Region cfg)"
  shows "storage_New mio cfg =
    (let host = ''s3.'' @ (if sc_Region cfg = [] then ''us-east-1'' else sc_Region cfg) @ ''.amazonaws.com'';
         cr = (if sc_AccessKey cfg \<noteq> [] then NewStaticV4 (sc_AccessKey cfg) (sc_SecretKey cfg) else NewIAM)
     in case mio_New mio host True cr (sc_Region cfg) of
          Inl err \<Rightarrow> Inl (ErrMsg ''build sign client'')
        | Inr c \<Rightarrow> Inr \<lparr> signClient = c, listClient = c,
            expiry = (if sc_Expiry cfg \<le> 0 then 5 * Minute else sc_Expiry cfg) \<rparr>)"
proof -
  define h where "h = ''s3.'' @ (if sc_Region cfg = [] then ''us-east-1'' else sc_Region cfg) @ ''.amazonaws.com''"
  define cr where "cr = (if sc_AccessKey cfg \<noteq> [] then NewStaticV4 (sc_AccessKey cfg) (sc_SecretKey cfg) else NewIAM)"
  have "plain_host h" "h \<noteq> []"
    using assms(3) by (simp_all add: h_def plain_host_def is_alnum_def is_digit_def byte_def)
  from url_Parse_https [OF this] have "url_Parse (awsS3Endpoint (sc_Region cfg)) = Some (''https'', h)"
    by (simp add: awsS3Endpoint_def h_def)
  moreover have "awsS3Endpoint (sc_Region cfg) \<noteq> []" by (simp add: awsS3Endpoint_def)
  ultimately have "parseEndpoint (awsS3Endpoint (sc_Region cfg)) = Inr (h, True)"
    using \<open>h \<noteq> []\<close> by (simp add: parseEndpoint_def)
  then show ?thesis
    unfolding storage_New_def newClient_def Let_def assms(1,2) h_def [symmetric] cr_def [symmetric]
    by (cases "mio_New mio h True cr (sc_Region cfg)") simp_all
qed

definition demo_minio :: "string minio" where
  "demo_minio =
     \<lparr> mio_New = (\<lambda>host secure cr region. Inr host),
       mio_PresignedPutObject = (\<lambda>c t b k e. Inr (''put:'' @ c @ ''/'' @ b @ ''/'' @ k)),
       mio_PresignedGetObject = (\<lambda>c t b k e. Inr (''get:'' @ c @ ''/'' @ b @ ''/'' @ k)),
       mio_ListObjects = (\<lambda>c t b p. [Inr (p @ ''eplusout.sql'', 7), Inr (p @ ''dir/'', 0)]) \<rparr>"

text \<open>A bare IPv4 address with a port, which the comment in \<open>parseEndpoint\<close> says is tolerated, is an error.\<close>

lemma bare_ipv4_endpoint_rejected: "parseEndpoint ''127.0.0.1:9000'' = Inl (ErrMsg ''parse endpoint'')"
  by code_simp

end
