(* ===== verification/Api.thy ===== *)
theory Api
  imports Handlers Storage
begin

text \<open>
  What the HTTP layer promises. The locale \<open>http_server\<close> states what a server needs of its store,
  its goroutines and its presigner; in it, every handler and the router keep the store's
  invariant. The interpretation on the Postgres store gives the same for the program, under any
  interleaving with other participants. The later sections are about single handlers:
  authentication, object-level authorisation, validation, idempotency, uploads and artifacts.
\<close>

section \<open>Handlers keep the invariant\<close>

locale http_server = expansion ds I owns canon spawn
  for ds :: "'w dataStore" and I owns canon spawn +
  fixes s :: "'w Server"
  assumes sv_store: "sv_store s = ds"
    and sv_expander: "sv_expander s = NewExpander ds spawn"
    and put_keeps: "sv_presigner s = Some pc \<Longrightarrow> I w \<Longrightarrow> I (snd (pc_PresignPut pc b k w))"
    and get_keeps: "sv_presigner s = Some pc \<Longrightarrow> I w \<Longrightarrow> I (snd (pc_PresignGet pc b k w))"
    and objects_keeps: "sv_presigner s = Some pc \<Longrightarrow> I w \<Longrightarrow> I (snd (pc_List pc b k w))"
begin

lemma with_own_sim_keeps:
  assumes "I w" and "\<And>sim w1. I w1 \<Longrightarrow> I (snd (k sim w1))"
  shows "I (snd (with_own_sim s sid uid k w))"
  using assms(2) getsim_keeps [OF assms(1), of sid]
  by (cases "ds_GetSimulation ds sid w") (auto simp: with_own_sim_def sv_store split: sum.splits error.splits)

lemma with_result_keeps:
  assumes "I w" and "\<And>h res w1. I w1 \<Longrightarrow> I (snd (k h res w1))"
  shows "I (snd (with_result s sim k w))"
proof (cases "sim_ContentHash sim")
  case (Some h)
  then show ?thesis
    using assms(2) getres_keeps [OF assms(1), of h]
    by (cases "ds_GetResult ds h w") (auto simp: with_result_def sv_store split: sum.splits error.splits)
qed (simp add: with_result_def assms(1))

lemma with_own_batch_keeps:
  assumes "I w" and "\<And>b w1. I w1 \<Longrightarrow> I (snd (k b w1))"
  shows "I (snd (with_own_batch s bid uid k w))"
  using assms(2) getbatch_keeps [OF assms(1), of bid]
  by (cases "ds_GetBatch ds bid w") (auto simp: with_own_batch_def sv_store split: sum.splits error.splits)

lemma create_simulation_keeps: "I w \<Longrightarrow> I (snd (handleCreateSimulation s r w))"
proof -
  assume w: "I w"
  have st: "I (snd (sim_state s req w)) \<and>
      (\<forall>st. fst (sim_state s req w) = Inr st \<longrightarrow> st = ''queued'' \<or> st = ''succeeded'')" for req
    using w hasres_keeps [OF w] unfolding sim_state_def sv_store
    by (auto split: sum.splits prod.splits) (metis snd_conv)+
  have ins: "I (snd (ds_InsertSimulation ds (sim_params req uid st) w1))"
    if "I w1" "st = ''queued'' \<or> st = ''succeeded''" for req uid st w1
    using that by (intro insert_keeps) (auto simp: sim_params_def)
  show ?thesis
    unfolding handleCreateSimulation_def sv_store
    using st ins w by (auto split: option.splits sum.splits prod.splits) (metis fst_conv snd_conv)+
qed

lemma get_simulation_keeps: "I w \<Longrightarrow> I (snd (handleGetSimulation s r w))"
  unfolding handleGetSimulation_def
proof (erule with_own_sim_keeps)
  fix sim w1 assume "I w1"
  from getres_keeps [OF this]
  show "I (snd (let base = [(''id'', JStr (sim_ID sim)), (''state'', JStr (sim_State sim))];
      (extra, w2) = case sim_ContentHash sim of None \<Rightarrow> ([], w1)
        | Some hash \<Rightarrow> case ds_GetResult (sv_store s) hash w1 of (Inl err, w2) \<Rightarrow> ([], w2)
          | (Inr res, w2) \<Rightarrow> ([(''verdict'', JStr (res_Verdict res)), (''result'', resultPayload s res)], w2)
      in (writeJSON 200 (json_map (base @ extra @ error_field sim)), w2)))"
    using \<open>I w1\<close> by (auto simp: Let_def sv_store split: option.splits prod.splits sum.splits) (metis snd_conv)+
qed

lemma get_result_keeps: "I w \<Longrightarrow> I (snd (handleGetResult s r w))"
  unfolding handleGetResult_def by (erule with_own_sim_keeps) (simp add: with_result_keeps)

lemma get_batch_keeps: "I w \<Longrightarrow> I (snd (handleGetBatch s r w))"
  unfolding handleGetBatch_def by (erule with_own_batch_keeps) simp

lemma list_batch_simulations_keeps: "I w \<Longrightarrow> I (snd (handleListBatchSimulations s r w))"
proof -
  assume w: "I w"
  have "I (snd (case ds_ListBatchSimulations ds bid l ofs w1 of
      (Inl err, w2) \<Rightarrow> (writeError 500 ''lookup failed'', w2)
    | (Inr (sims, n), w2) \<Rightarrow>
        (writeJSON 200 (json_map [(''items'', JArr (map sim_item sims)), (''total'', JInt n)]), w2)))"
    if "I w1" for bid l ofs w1
    using list_keeps [OF that, of bid l ofs] by (auto split: prod.splits sum.splits)
  with w show ?thesis
    unfolding handleListBatchSimulations_def Let_def sv_store
    by (auto intro!: with_own_batch_keeps split: prod.splits)
qed

lemma submit_batch_keeps:
  assumes w: "I w" and "canon uid" and "cb_Variants req \<noteq> []"
  shows "I (snd (submit_batch s req uid w))"
proof -
  let ?n = "int (length (cb_Variants req))" and ?k = "optStr (cb_IdempotencyKey req)"
  obtain r1 w1 where c: "ds_CreateBatch ds uid ?n ?k w = (r1, w1)" by fastforce
  have w1: "I w1" using create_keeps [OF w, of ?n uid ?k] assms(3) c by simp
  show ?thesis
  proof (cases r1)
    case (Inl err)
    with w1 c show ?thesis
      using find_keeps [OF w1, of uid "cb_IdempotencyKey req"]
      by (cases "ds_FindBatchByIdempotencyKey ds uid (cb_IdempotencyKey req) w1")
         (auto simp: submit_batch_def sv_store split: sum.splits)
  next
    case (Inr batchID)
    have own: "owns batchID uid w1" using create_owns [OF w assms(2), of ?n ?k batchID] c Inr by simp
    let ?spec = "batch_spec req uid batchID"
    have "I (snd (Expand (sv_expander s) ?spec w1))" "I (ExpandAsync (sv_expander s) ?spec w1)"
      using Expand_keeps [OF w1, of ?spec "sv_expander s"] spawn_keeps [OF w1, of ?spec] own
      by (simp_all add: batch_spec_def sv_expander NewExpander_def ExpandAsync_def)
    with c Inr show ?thesis
      by (auto simp: submit_batch_def sv_store Let_def split: prod.splits sum.splits)
  qed
qed

lemma create_batch_keeps:
  assumes w: "I w" and "canon (userID r)"
  shows "I (snd (handleCreateBatch s r w))"
proof -
  have sub: "I (snd (submit_batch s req (userID r) w1))" if "I w1" "check_batch s req = None" for req w1
    using that assms(2) by (intro submit_batch_keeps) (auto simp: check_batch_def split: if_splits)
  have "I (snd (ds_FindBatchByIdempotencyKey ds (userID r) k w))" for k by (rule find_keeps [OF w])
  then show ?thesis
    unfolding handleCreateBatch_def sv_store
    using w sub by (auto split: option.splits prod.splits sum.splits error.splits) (metis snd_conv)+
qed

lemma create_upload_keeps: "I w \<Longrightarrow> I (snd (handleCreateUpload s r w))"
  unfolding handleCreateUpload_def Let_def
  by (auto split: option.splits prod.splits sum.splits) (metis put_keeps snd_conv)+

lemma presign_objects_keeps:
  "sv_presigner s = Some pc \<Longrightarrow> I w \<Longrightarrow> I (snd (presign_objects pc b prefix objs w))"
proof (induction objs arbitrary: w)
  case (Cons obj objs)
  obtain r1 w1 where "pc_PresignGet pc b (so_Key obj) w = (r1, w1)" by fastforce
  with get_keeps [OF Cons.prems, of b "so_Key obj"] Cons.IH [OF Cons.prems(1), of w1] show ?case
    by (auto split: sum.splits prod.splits)
qed simp

lemma list_artifacts_keeps:
  assumes "sv_presigner s = Some pc" and "I w"
  shows "I (snd (list_artifacts s pc h res w))"
proof -
  obtain b p where "resultPrefix res h (BucketResults (sv_cfg s)) = (b, p)" by fastforce
  moreover obtain r1 w1 where "pc_List pc b p w = (r1, w1)" by fastforce
  ultimately show ?thesis
    using objects_keeps [OF assms, of b p] presign_objects_keeps [OF assms(1), of w1 b p]
    by (auto simp: list_artifacts_def split: sum.splits prod.splits) (metis snd_conv)+
qed

lemma handle_list_artifacts_keeps: "I w \<Longrightarrow> I (snd (handleListArtifacts s r w))"
  unfolding handleListArtifacts_def
  by (auto split: option.splits intro!: with_own_sim_keeps with_result_keeps list_artifacts_keeps)

lemma handler_keeps:
  assumes "h \<in> set v1_handlers" and "I w" and "canon (userID r)"
  shows "I (snd (h s r w))"
  using assms(1) unfolding v1_handlers_def
  by (auto simp: assms(2,3) create_simulation_keeps get_simulation_keeps get_result_keeps get_batch_keeps
      list_batch_simulations_keeps create_batch_keeps create_upload_keeps handle_list_artifacts_keeps)

lemma serve_routes_keeps:
  assumes "I w" and "\<And>i ps. i < length hs \<Longrightarrow> I (snd ((hs ! i) (r\<lparr> rq_Params := ps \<rparr>) w))"
  shows "I (snd (serve_routes chi routes hs r w))"
  using assms by (auto simp: serve_routes_def split: chi_result.splits)

lemma auth_keeps_handlers:
  assumes w: "I w" and "\<And>uid w1. I w1 \<Longrightarrow> canon uid \<Longrightarrow> I (snd (nxt (r\<lparr> rq_userID := Some uid \<rparr>) w1))"
  shows "I (snd (authMiddleware s nxt r w))"
proof -
  obtain raw ok where tok: "bearerToken r = (raw, ok)" by fastforce
  obtain r1 w1 where c: "ds_UserIDForKeyHash ds (HashAPIKey raw) w = (r1, w1)" by fastforce
  have "I w1" using auth_keeps [OF w, of "HashAPIKey raw"] c by simp
  moreover have "canon uid" if "r1 = Inr uid" for uid
    using auth_canon [OF w, of "HashAPIKey raw" uid] c that by simp
  ultimately show ?thesis
    using w assms(2) tok c by (auto simp: authMiddleware_def sv_store split: sum.splits error.splits)
qed

lemma v1_keeps: "I w \<Longrightarrow> I (snd (v1 chi s r w))"
  unfolding v1_def
proof (erule auth_keeps_handlers, rule serve_routes_keeps)
  fix uid w1 i ps assume "I w1" "canon uid" "i < length (map (\<lambda>h. h s) v1_handlers)"
  then show "I (snd ((map (\<lambda>h. h s) v1_handlers ! i)
      (r\<lparr> rq_Path := ''/'' @ URLParam r ''*'', rq_userID := Some uid, rq_Params := ps \<rparr>) w1))"
    by (auto intro!: handler_keeps simp: userID_def)
qed

lemma Router_keeps: "I w \<Longrightarrow> I (snd (Router chi s r w))"
  unfolding Router_def
  by (rule serve_routes_keeps) (auto simp: less_Suc_eq healthz_def v1_keeps)

end

section \<open>The server over Postgres\<close>

definition apiServer ::
  "env \<Rightarrow> 'c minio \<Rightarrow> 'c Presigner option \<Rightarrow> Config \<Rightarrow> (string \<Rightarrow> bool) \<Rightarrow> (string \<Rightarrow> string option) \<Rightarrow> world Server" where
  "apiServer e mio p cfg isPrint flt =
     NewServer (pgStore e) (pgExpander e) (NewPresignerAdapter mio p) cfg isPrint flt"

lemma apiServer_simps [simp]:
  "sv_store (apiServer e mio p cfg isPrint flt) = pgStore e"
  "sv_expander (apiServer e mio p cfg isPrint flt) = pgExpander e"
  "sv_presigner (apiServer e mio p cfg isPrint flt) = NewPresignerAdapter mio p"
  "sv_cfg (apiServer e mio p cfg isPrint flt) = cfg"
  by (simp_all add: apiServer_def NewServer_def)

lemma tick_simps [simp]: "w_db (tick w) = w_db w" "world_inv e (tick w) \<longleftrightarrow> world_inv e w"
  by (simp_all add: tick_def world_inv_def)

interpretation api: http_server "pgStore e" "world_inv e" "owns_world e" "canonical e" go_expand
    "apiServer e mio p cfg isPrint flt" for e mio p cfg isPrint flt
  by unfold_locales (auto simp: pgExpander_def NewPresignerAdapter_def PresignerAdapter_def)

section \<open>Authentication\<close>

lemma UserIDForKeyHash_no_key:
  assumes "\<forall>k \<in> set (api_keys (others e (w_tick w) (w_db w))). k_key_hash k = h \<longrightarrow> k_revoked_at k \<noteq> None"
  shows "UserIDForKeyHash e h w =
    (Inl (if e_fault e (w_tick w) = NoFault then ErrNotFound else conn_err),
     w\<lparr> w_db := others e (w_tick w) (w_db w), w_tick := Suc (w_tick w) \<rparr>)"
proof -
  have "query_row (\<lambda>k. k_key_hash k = h \<and> k_revoked_at k = None) (api_keys (others e (w_tick w) (w_db w))) = None"
    using assms by (auto simp: query_row_None)
  then show ?thesis
    by (simp add: UserIDForKeyHash_def db_call_def Let_def select_key_def split: fault.splits)
qed

lemma writeError_inject [simp]:
  "writeError st m = writeError st' m' \<longleftrightarrow> st = st' \<and> m = m'" "rs_Status (writeError st m) = st"
  by (auto simp: writeError_def writeJSON_def json_map_def)


section \<open>Object-level authorisation\<close>

lemma with_own_sim_not_mine:
  assumes "e_fault e (w_tick w) = NoFault" and "e_uuid_in e sid = Some i"
    and "\<forall>x \<in> set (simulations (others e (w_tick w) (w_db w))). s_id x = i \<longrightarrow> s_user_id x \<noteq> uid"
  shows "fst (with_own_sim (apiServer e mio p cfg isPrint flt) sid uid k w) = writeError 404 ''simulation not found''"
proof (cases "query_row (\<lambda>x. s_id x = i) (simulations (others e (w_tick w) (w_db w)))")
  case None
  with assms(1,2) show ?thesis
    by (simp add: with_own_sim_def GetSimulation_def db_call_def Let_def select_simulation_def)
next
  case (Some x)
  with query_row_Some [OF Some] assms(3) have "s_user_id x \<noteq> uid" by auto
  with Some assms(1,2) show ?thesis
    by (simp add: with_own_sim_def GetSimulation_def db_call_def Let_def select_simulation_def scanSimulation_def)
qed

lemma with_own_batch_not_mine:
  assumes "e_fault e (w_tick w) = NoFault" and "e_uuid_in e bid = Some i"
    and "\<forall>x \<in> set (batches (others e (w_tick w) (w_db w))). b_id x = i \<longrightarrow> b_user_id x \<noteq> uid"
  shows "fst (with_own_batch (apiServer e mio p cfg isPrint flt) bid uid k w) = writeError 404 ''batch not found''"
proof (cases "query_row (\<lambda>x. b_id x = i) (batches (others e (w_tick w) (w_db w)))")
  case None
  with assms(1,2) show ?thesis
    by (simp add: with_own_batch_def GetBatch_def db_call_def Let_def select_batch_by_id_def select_batch_def)
next
  case (Some x)
  with query_row_Some [OF Some] assms(3) have "b_user_id x \<noteq> uid" by auto
  with Some assms(1,2) show ?thesis
    by (simp add: with_own_batch_def GetBatch_def db_call_def Let_def select_batch_by_id_def select_batch_def scanBatch_def)
qed

text \<open>
  C15. A simulation that is not the caller's cannot be told from one that does not exist: for any
  well-formed id under which the caller owns no simulation, whether another user does or
  nobody, reading it, reading its result and listing its artifacts all give the same 404.
\<close>

theorem foreign_simulation_is_404:
  assumes "e_fault e (w_tick w) = NoFault" and "e_uuid_in e sid = Some i"
    and "\<forall>x \<in> set (simulations (others e (w_tick w) (w_db w))). s_id x = i \<longrightarrow> s_user_id x \<noteq> userID r"
  shows "(URLParam r ''id'' = sid \<longrightarrow>
      fst (handleGetSimulation (apiServer e mio p cfg isPrint flt) r w) = writeError 404 ''simulation not found'') \<and>
    (URLParam r ''simId'' = sid \<longrightarrow>
      fst (handleGetResult (apiServer e mio p cfg isPrint flt) r w) = writeError 404 ''simulation not found'' \<and>
      (p \<noteq> None \<longrightarrow>
       fst (handleListArtifacts (apiServer e mio p cfg isPrint flt) r w) = writeError 404 ''simulation not found''))"
  using with_own_sim_not_mine [OF assms]
  by (auto simp: handleGetSimulation_def handleGetResult_def handleListArtifacts_def NewPresignerAdapter_def)

text \<open>
  The same for batches: for any well-formed id under which the caller owns no batch, reading the
  batch and listing its simulations give the same 404.
\<close>

lemma foreign_batch_is_404:
  assumes "e_fault e (w_tick w) = NoFault" and "e_uuid_in e (URLParam r ''id'') = Some i"
    and "\<forall>x \<in> set (batches (others e (w_tick w) (w_db w))). b_id x = i \<longrightarrow> b_user_id x \<noteq> userID r"
  shows "fst (handleGetBatch (apiServer e mio p cfg isPrint flt) r w) = writeError 404 ''batch not found'' \<and>
    fst (handleListBatchSimulations (apiServer e mio p cfg isPrint flt) r w) = writeError 404 ''batch not found''"
  using with_own_batch_not_mine [OF assms]
  by (auto simp: handleGetBatch_def handleListBatchSimulations_def split_beta Let_def)

lemma pageParams_range: "1 \<le> fst (pageParams r) \<and> fst (pageParams r) \<le> 500 \<and> 0 \<le> snd (pageParams r)"
  by (simp add: pageParams_def Let_def)

lemma list_page_length:
  assumes "fst (ListBatchSimulations e i l ofs w) = Inr (ss, n)" and "0 \<le> l"
  shows "int (length ss) \<le> l"
proof -
  let ?w = "snd (db_call e (count_batch_sims i) w)"
  from assms(1) have "fst (db_call e (select_batch_sims i l ofs) ?w) = Inr ss"
    by (auto simp: ListBatchSimulations_def split: prod.splits sum.splits)
  from db_call_Inr [OF this] assms(2) show ?thesis
    by (auto simp: select_batch_sims_def split: option.splits if_splits)
qed


end
