(* ===== verification/ApiInputs.thy ===== *)
theory ApiInputs
  imports Api
begin

text \<open>
  What the handlers do with their inputs: which references, sizes, priorities and pages they
  accept, what a submission writes, idempotent batch creation, upload keys and artifact listings.
\<close>

section \<open>References\<close>

lemma parseS3URI_iff:
  "parseS3URI ref = (b, k) \<and> b \<noteq> [] \<and> k \<noteq> [] \<longleftrightarrow>
     ref = ''s3://'' @ b @ ''/'' @ k \<and> CHR ''/'' \<notin> set b \<and> b \<noteq> [] \<and> k \<noteq> []"
proof
  assume l: "parseS3URI ref = (b, k) \<and> b \<noteq> [] \<and> k \<noteq> []"
  then have pre: "HasPrefix ref ''s3://''" by (auto simp: parseS3URI_def CutPrefix_def split: if_splits)
  then obtain rest where ref: "ref = ''s3://'' @ rest" by (auto simp: HasPrefix_iff)
  have "CutPrefix ref ''s3://'' = (rest, True)" unfolding ref by (rule CutPrefix_append)
  with l obtain f where cut: "Cut rest (CHR ''/'') = (b, k, f)"
    by (auto simp: parseS3URI_def split: prod.splits)
  with l have "f" using Cut_not_found [of rest "CHR ''/''" b k] by (cases f) auto
  with cut Cut_found [of rest "CHR ''/''" b k] l ref
  show "ref = ''s3://'' @ b @ ''/'' @ k \<and> CHR ''/'' \<notin> set b \<and> b \<noteq> [] \<and> k \<noteq> []" by auto
next
  assume r: "ref = ''s3://'' @ b @ ''/'' @ k \<and> CHR ''/'' \<notin> set b \<and> b \<noteq> [] \<and> k \<noteq> []"
  then have "CutPrefix ref ''s3://'' = (b @ CHR ''/'' # k, True)"
    using CutPrefix_append [of "''s3://''" "b @ CHR ''/'' # k"] by simp
  with r Cut_append [of "CHR ''/''" b k] show "parseS3URI ref = (b, k) \<and> b \<noteq> [] \<and> k \<noteq> []"
    by (simp add: parseS3URI_def)
qed

text \<open>A reference into one of two buckets: \<open>s3://bucket/key\<close> with a key.\<close>

definition input_ref_ok :: "string \<Rightarrow> string \<Rightarrow> string \<Rightarrow> bool" where
  "input_ref_ok logical real ref \<longleftrightarrow>
     (\<exists>b k. ref = ''s3://'' @ b @ ''/'' @ k \<and> CHR ''/'' \<notin> set b \<and> b \<noteq> [] \<and> k \<noteq> [] \<and> (b = logical \<or> b = real))"

lemma input_ref_ok_parse:
  "input_ref_ok logical real ref \<longleftrightarrow>
     (case parseS3URI ref of (b, k) \<Rightarrow> b \<noteq> [] \<and> k \<noteq> [] \<and> (b = logical \<or> b = real))"
proof -
  obtain b0 k0 where p: "parseS3URI ref = (b0, k0)" by fastforce
  have "(b = b0 \<and> k = k0 \<and> b \<noteq> [] \<and> k \<noteq> []) \<longleftrightarrow>
      ref = ''s3://'' @ b @ ''/'' @ k \<and> CHR ''/'' \<notin> set b \<and> b \<noteq> [] \<and> k \<noteq> []" for b k
    using parseS3URI_iff [of ref b k] unfolding p by auto
  then have "input_ref_ok logical real ref \<longleftrightarrow>
      (\<exists>b k. (b = b0 \<and> k = k0 \<and> b \<noteq> [] \<and> k \<noteq> []) \<and> (b = logical \<or> b = real))"
    unfolding input_ref_ok_def by metis
  then show ?thesis unfolding p by auto
qed

text \<open>
  A reference is accepted exactly when it is \<open>s3://bucket/key\<close> with a non-empty key and the
  bucket is the logical name of its kind or the configured one: no other scheme, no bare path, no
  other bucket. For a kind other than model and weather nothing is accepted.
\<close>

lemma validateInputRef_iff:
  "(validateInputRef s ref ''model'' = None \<longleftrightarrow> input_ref_ok ''models'' (BucketModels (sv_cfg s)) ref) \<and>
   (validateInputRef s ref ''weather'' = None \<longleftrightarrow> input_ref_ok ''weather'' (BucketWeather (sv_cfg s)) ref) \<and>
   (kind \<noteq> ''model'' \<longrightarrow> kind \<noteq> ''weather'' \<longrightarrow> validateInputRef s ref kind \<noteq> None)"
  unfolding input_ref_ok_parse by (auto simp: validateInputRef_def split: prod.splits)

lemma validate_model: "validateInputRef s ref ''model'' = None \<longleftrightarrow> input_ref_ok ''models'' (BucketModels (sv_cfg s)) ref"
  and validate_weather: "validateInputRef s ref ''weather'' = None \<longleftrightarrow> input_ref_ok ''weather'' (BucketWeather (sv_cfg s)) ref"
  unfolding input_ref_ok_parse by (auto simp: validateInputRef_def split: prod.splits)

section \<open>Single submissions\<close>

lemma normalizePriority_range: "normalizePriority q \<in> {0, 1, 2}"
  by (auto simp: normalizePriority_def split: option.splits)

lemma check_simulation_iff:
  "check_simulation s req = None \<longleftrightarrow>
     cs_EngineVersion req \<noteq> [] \<and> EngineVersionAllowed (sv_cfg s) (cs_EngineVersion req) \<and>
     input_ref_ok ''models'' (BucketModels (sv_cfg s)) (ar_Ref (cs_Model req)) \<and>
     input_ref_ok ''weather'' (BucketWeather (sv_cfg s)) (ar_Ref (cs_Weather req))"
  by (auto simp: check_simulation_def validate_model [symmetric] validate_weather [symmetric] split: option.splits)
     (auto simp: validate_model validate_weather input_ref_ok_def)

lemma insert_single_ok:
  assumes "x_uuid_in x (p_UserID p) = Some u" and "p_BatchID p = None"
    and "int4 (p_Priority p)" and "p_State p \<in> set sim_states" and "x_uuid x \<notin> s_id ` set (simulations d)"
    and "u \<in> u_id ` set (users d)"
  shows "insert_simulation p fin x d = (Inr (x_uuid x), insert_row (new_sim_row p u None fin x) d)"
proof -
  have "query_row (\<lambda>s. s_id s = x_uuid x) (simulations d) = None" using assms(5) unfolding query_row_None by force
  moreover have "query_row (\<lambda>r. u_id r = u) (users d) \<noteq> None" using assms(6) by (auto simp: query_row_None)
  ultimately show ?thesis using assms(1-4) by (simp add: insert_simulation_def)
qed

definition sim_cached :: "createSimulationRequest \<Rightarrow> db \<Rightarrow> bool" where
  "sim_cached req d \<longleftrightarrow>
     ar_SHA256 (cs_Model req) \<noteq> [] \<and> ar_SHA256 (cs_Weather req) \<noteq> [] \<and>
     List.member (map r_content_hash (results d))
       (ContentHash (ar_SHA256 (cs_Model req)) (ar_SHA256 (cs_Weather req)) (cs_EngineVersion req))"

lemma sim_state_quiet:
  assumes "quiet e" and "sv_store s = pgStore e"
  shows "\<exists>t. w_tick w \<le> t \<and> sim_state s req w =
    (Inr (if sim_cached req (w_db w) then ''succeeded'' else ''queued''), w\<lparr> w_tick := t \<rparr>)"
proof (cases "ar_SHA256 (cs_Model req) \<noteq> [] \<and> ar_SHA256 (cs_Weather req) \<noteq> []")
  case True
  then show ?thesis
    by (intro exI [of _ "Suc (w_tick w)"])
       (auto simp: sim_state_def assms(2) HasResult_def quiet_call [OF assms(1)] exists_result_def sim_cached_def
         query_row_None image_iff eq_commute [of "ContentHash _ _ _"])
next
  case False
  then show ?thesis by (intro exI [of _ "w_tick w"]) (auto simp: sim_state_def sim_cached_def)
qed

lemma create_simulation_inserts:
  assumes "quiet e" and "canonical e (userID r)" and "userID r \<in> u_id ` set (users (w_db w))"
    and "\<forall>n \<ge> w_tick w. e_uuid e n \<notin> s_id ` set (simulations (w_db w))"
    and "Decode decode_sim r = Some req" and "check_simulation (apiServer e mio p cfg isPrint flt) req = None"
    and st: "st = (if sim_cached req (w_db w) then ''succeeded'' else ''queued'')"
  shows "\<exists>t fin row. row = new_sim_row (sim_params req (userID r) st) (userID r) None fin (ctx e (e_now e t) (e_uuid e t)) \<and>
    handleCreateSimulation (apiServer e mio p cfg isPrint flt) r w =
      (writeJSON 201 (json_map [(''id'', JStr (s_id row)), (''state'', JStr st)]),
       w\<lparr> w_db := insert_row row (w_db w), w_tick := Suc t \<rparr>)"
proof -
  let ?s = "apiServer e mio p cfg isPrint flt"
  have st_ok: "st \<in> set sim_states" using st by (simp add: sim_states_def)
  obtain t where t: "w_tick w \<le> t" and state: "sim_state ?s req w = (Inr st, w\<lparr> w_tick := t \<rparr>)"
    using sim_state_quiet [OF assms(1), of ?s w req] st by auto
  let ?q = "sim_params req (userID r) st" and ?x = "ctx e (e_now e t) (e_uuid e t)"
  define fin where fin: "fin = (if p_State ?q = ''succeeded'' then Some (e_gonow e t) else None)"
  let ?row = "new_sim_row ?q (userID r) None fin ?x"
  have "insert_simulation ?q fin ?x (w_db w) = (Inr (e_uuid e t), insert_row ?row (w_db w))"
    using assms(2-4) t normalizePriority_range [of "cs_Priority req"]
    by (subst insert_single_ok) (auto simp: sim_params_def canonical_def int4_def st_ok)
  then have ins: "InsertSimulation e ?q (w\<lparr> w_tick := t \<rparr>) =
      (Inr (e_uuid e t), w\<lparr> w_db := insert_row ?row (w_db w), w_tick := Suc t \<rparr>)"
    by (cases "p_State ?q = ''succeeded''") (simp_all add: InsertSimulation_def Let_def quiet_call [OF assms(1)] fin)
  have "s_id ?row = e_uuid e t" by (simp add: new_sim_row_def)
  then have "handleCreateSimulation ?s r w =
      (writeJSON 201 (json_map [(''id'', JStr (s_id ?row)), (''state'', JStr st)]),
       w\<lparr> w_db := insert_row ?row (w_db w), w_tick := Suc t \<rparr>)"
    using assms(5,6) state ins by (simp add: handleCreateSimulation_def)
  then show ?thesis by blast
qed

text \<open>
  C21. A valid submission by a known user, undisturbed, is answered 201 and writes exactly one row, with
  the id and state of the answer: owned by the caller, outside any batch, with the submitted
  version and references, a priority clamped to 0, 1 or 2, the content hash of the digests, and
  \<open>succeeded\<close> exactly when both digests were given and a result is cached.
\<close>

theorem create_simulation_writes_one_row:
  assumes "quiet e" and "canonical e (userID r)" and "userID r \<in> u_id ` set (users (w_db w))"
    and "\<forall>n \<ge> w_tick w. e_uuid e n \<notin> s_id ` set (simulations (w_db w))"
    and "Decode decode_sim r = Some req"
    and "check_simulation (apiServer e mio p cfg isPrint flt) req = None"
  shows "\<exists>row w'. handleCreateSimulation (apiServer e mio p cfg isPrint flt) r w =
      (writeJSON 201 (json_map [(''id'', JStr (s_id row)), (''state'', JStr (s_state row))]), w') \<and>
    simulations (w_db w') = simulations (w_db w) @ [row] \<and>
    row_view row = (None, userID r, cs_EngineVersion req, normalizePriority (cs_Priority req),
      ar_Ref (cs_Model req), ar_Ref (cs_Weather req),
      Some (ContentHash (ar_SHA256 (cs_Model req)) (ar_SHA256 (cs_Weather req)) (cs_EngineVersion req)),
      if sim_cached req (w_db w) then ''succeeded'' else ''queued'') \<and>
    s_priority row \<in> {0, 1, 2} \<and>
    input_ref_ok ''models'' (BucketModels cfg) (s_model_ref row) \<and>
    input_ref_ok ''weather'' (BucketWeather cfg) (s_weather_ref row)"
proof -
  define st where st: "st = (if sim_cached req (w_db w) then ''succeeded'' else ''queued'')"
  from create_simulation_inserts [OF assms st] obtain t fin row where
    row: "row = new_sim_row (sim_params req (userID r) st) (userID r) None fin (ctx e (e_now e t) (e_uuid e t))"
    and run: "handleCreateSimulation (apiServer e mio p cfg isPrint flt) r w =
      (writeJSON 201 (json_map [(''id'', JStr (s_id row)), (''state'', JStr st)]),
       w\<lparr> w_db := insert_row row (w_db w), w_tick := Suc t \<rparr>)" by blast
  have "s_state row = st" "row_view row = (None, userID r, cs_EngineVersion req, normalizePriority (cs_Priority req),
      ar_Ref (cs_Model req), ar_Ref (cs_Weather req),
      Some (ContentHash (ar_SHA256 (cs_Model req)) (ar_SHA256 (cs_Weather req)) (cs_EngineVersion req)), st)"
    by (simp_all add: row row_view_def new_sim_row_def sim_params_def)
  moreover have "input_ref_ok ''models'' (BucketModels cfg) (s_model_ref row)"
    "input_ref_ok ''weather'' (BucketWeather cfg) (s_weather_ref row)" "s_priority row \<in> {0, 1, 2}"
    using assms(6) normalizePriority_range [of "cs_Priority req"] by (simp_all add: row check_simulation_iff new_sim_row_def sim_params_def)
  ultimately show ?thesis unfolding st [symmetric] using run
    by (intro exI [of _ row] exI [of _ "w\<lparr> w_db := insert_row row (w_db w), w_tick := Suc t \<rparr>"])
       (simp del: insert_iff)
qed

section \<open>Batch submissions\<close>

lemma check_variants_iff:
  "check_variants s i vs = None \<longleftrightarrow>
     (\<forall>v \<in> set vs. input_ref_ok ''models'' (BucketModels (sv_cfg s)) (ar_Ref (vr_Model v)))"
  by (induction vs arbitrary: i) (auto simp: validate_model [symmetric] split: option.splits)

text \<open>
  C36. A batch submission passes the checks exactly when it names an allowed version, a valid weather
  reference, and between one and \<open>MaxBatchVariants\<close> variants whose model references are all
  valid; otherwise the answer is 400 and nothing was sent to the database.
\<close>

theorem create_batch_checks:
  assumes "Decode decode_batch r = Some req"
  shows "(check_batch s req = None \<longleftrightarrow>
      cb_EngineVersion req \<noteq> [] \<and> EngineVersionAllowed (sv_cfg s) (cb_EngineVersion req) \<and>
      input_ref_ok ''weather'' (BucketWeather (sv_cfg s)) (ar_Ref (cb_Weather req)) \<and>
      1 \<le> length (cb_Variants req) \<and> int (length (cb_Variants req)) \<le> MaxBatchVariants (sv_cfg s) \<and>
      (\<forall>v \<in> set (cb_Variants req). input_ref_ok ''models'' (BucketModels (sv_cfg s)) (ar_Ref (vr_Model v)))) \<and>
    (check_batch s req \<noteq> None \<longrightarrow>
      rs_Status (fst (handleCreateBatch s r w)) = 400 \<and> snd (handleCreateBatch s r w) = w)"
proof
  have "input_ref_ok l q ref \<Longrightarrow> ref \<noteq> []" for l q ref by (auto simp: input_ref_ok_def)
  then show "check_batch s req = None \<longleftrightarrow>
      cb_EngineVersion req \<noteq> [] \<and> EngineVersionAllowed (sv_cfg s) (cb_EngineVersion req) \<and>
      input_ref_ok ''weather'' (BucketWeather (sv_cfg s)) (ar_Ref (cb_Weather req)) \<and>
      1 \<le> length (cb_Variants req) \<and> int (length (cb_Variants req)) \<le> MaxBatchVariants (sv_cfg s) \<and>
      (\<forall>v \<in> set (cb_Variants req). input_ref_ok ''models'' (BucketModels (sv_cfg s)) (ar_Ref (vr_Model v)))"
    by (auto simp: check_batch_def check_variants_iff [of s 0] validate_weather [symmetric] Suc_le_eq split: option.splits)
       (auto simp: validate_weather)
  show "check_batch s req \<noteq> None \<longrightarrow>
      rs_Status (fst (handleCreateBatch s r w)) = 400 \<and> snd (handleCreateBatch s r w) = w"
    using assms by (auto simp: handleCreateBatch_def)
qed

text \<open>The batch of user \<open>u\<close> under idempotency key \<open>k\<close> is \<open>i\<close>.\<close>

definition keyed :: "string \<Rightarrow> string \<Rightarrow> string \<Rightarrow> db \<Rightarrow> bool" where
  "keyed u k i d \<longleftrightarrow> (\<exists>b \<in> set (batches d). b_id b = i \<and> b_user_id b = u \<and> b_idempotency_key b = Some k)"

lemma keyed_extends:
  assumes "extends d d'" and "keyed u k i d"
  shows "keyed u k i d'"
proof -
  from assms(2) obtain b where b: "b \<in> set (batches d)" "b_id b = i" "b_user_id b = u" "b_idempotency_key b = Some k"
    by (auto simp: keyed_def)
  from extends_batch [OF assms(1) b(1)] obtain b' where "b' \<in> set (batches d')" "batch_frame b' = batch_frame b" .
  with b show ?thesis unfolding keyed_def by (intro bexI [of _ b']) (simp_all add: batch_frame_def)
qed

lemma keyed_unique:
  assumes "db_inv d" and "keyed u k i d" and "keyed u k i' d"
  shows "i = i'"
proof -
  let ?f = "filter (\<lambda>b. b_idempotency_key b \<noteq> None) (batches d)"
  let ?key = "\<lambda>b. (b_user_id b, b_idempotency_key b)"
  from assms(2) obtain b where b: "b \<in> set ?f" "b_id b = i" "?key b = (u, Some k)" by (auto simp: keyed_def)
  from assms(3) obtain b' where b': "b' \<in> set ?f" "b_id b' = i'" "?key b' = (u, Some k)" by (auto simp: keyed_def)
  have "distinct (map ?key ?f)" using assms(1) by (simp add: db_inv_def idem_ok_def)
  from distinct_map_eqD [OF this b(1) b'(1)] b b' show ?thesis by simp
qed

lemma select_batch_by_key_Inr:
  assumes "select_batch_by_key u k x d = (Inr b, d')" and "x_uuid_in x u = Some u"
  shows "keyed u k (bat_ID b) d'"
  using assms by (auto simp: select_batch_by_key_def select_batch_def keyed_def scanBatch_def
      split: option.splits dest!: query_row_Some)

lemma find_batch_keyed:
  assumes "canonical e u" and "FindBatchByIdempotencyKey e u k w = (Inr b, w')"
  shows "keyed u k (bat_ID b) (w_db w')"
  using db_call_Inr [of e "select_batch_by_key u k" w b] select_batch_by_key_Inr assms
  by (auto simp: FindBatchByIdempotencyKey_def canonical_def)

lemma insert_batch_keyed:
  assumes "insert_batch u n (Some k) x d = (Inr i, d')" and "x_uuid_in x u = Some u"
  shows "keyed u k i d'"
  using assms
  by (cases rule: insert_batch_cases [where userID = u and n = n and key = "Some k" and x = x and d = d])
     (auto simp: keyed_def)

lemma create_batch_keyed:
  assumes "canonical e u" and "CreateBatch e u n (Some k) w = (Inr i, w')"
  shows "keyed u k i (w_db w')"
  using db_call_Inr [of e "insert_batch u n (Some k)" w i] insert_batch_keyed assms
  by (auto simp: CreateBatch_def canonical_def)

lemma Expand_extends:
  assumes "world_inv e w" and "owns_world e (sp_BatchID spec) (sp_UserID spec) w"
  shows "extends (w_db w) (w_db (snd (Expand (pgExpander e) spec w)))"
proof -
  from assms(2) obtain j where "e_uuid_in e (sp_BatchID spec) = Some j" by (auto simp: owns_world_def owns_batch_def)
  from expand_variants_rows [OF assms this] show ?thesis by (simp add: Expand_def)
qed

lemma accepted_simps [simp]: "rs_Status (accepted i st) = 202" "accepted i st = writeError n m \<longleftrightarrow> False"
  by (auto simp: accepted_def writeError_def writeJSON_def json_map_def)

lemma submit_batch_keyed:
  assumes w: "world_inv e w" and u: "canonical e uid" and k: "cb_IdempotencyKey req \<noteq> []"
    and v: "cb_Variants req \<noteq> []"
    and ok: "rs_Status (fst (submit_batch (apiServer e mio p cfg isPrint flt) req uid w)) = 202"
  shows "\<exists>i st. fst (submit_batch (apiServer e mio p cfg isPrint flt) req uid w) = accepted i st \<and>
    keyed uid (cb_IdempotencyKey req) i (w_db (snd (submit_batch (apiServer e mio p cfg isPrint flt) req uid w)))"
proof -
  let ?k = "cb_IdempotencyKey req" and ?n = "int (length (cb_Variants req))"
  have os: "optStr ?k = Some ?k" using k by (simp add: optStr_def)
  obtain r1 w1 where c: "CreateBatch e uid ?n (Some ?k) w = (r1, w1)" by fastforce
  have w1: "world_inv e w1" using pg.create_keeps [OF w, of ?n uid "Some ?k"] v c by simp
  show ?thesis
  proof (cases r1)
    case (Inl err)
    obtain r2 w2 where f: "FindBatchByIdempotencyKey e uid ?k w1 = (r2, w2)" by fastforce
    from ok Inl c f k os obtain b where "r2 = Inr b" by (auto simp: submit_batch_def split: sum.splits)
    with find_batch_keyed [OF u, of ?k w1 b w2] f Inl c k os show ?thesis by (auto simp: submit_batch_def)
  next
    case (Inr i)
    let ?spec = "batch_spec req uid i"
    have kd: "keyed uid ?k i (w_db w1)" using create_batch_keyed [OF u] c Inr by blast
    have own: "owns_world e (sp_BatchID ?spec) (sp_UserID ?spec) w1"
      using pg.create_owns [OF w u, of ?n "Some ?k" i] c Inr by (simp add: batch_spec_def)
    obtain r2 w2 where ex: "Expand (pgExpander e) ?spec w1 = (r2, w2)" by fastforce
    have "keyed uid ?k i (w_db w2)" using keyed_extends [OF Expand_extends [OF w1 own] kd] ex by simp
    moreover have "keyed uid ?k i (w_db (ExpandAsync (pgExpander e) ?spec w1))"
      using kd by (simp add: ExpandAsync_def go_expand_def)
    ultimately show ?thesis
      using ok c Inr os ex by (auto simp: submit_batch_def Let_def split: sum.splits)
  qed
qed

text \<open>
  C13. Batch creation is idempotent under concurrency. Whenever a submission with an idempotency key is
  answered 202, under any interleaving with other submissions and any lost statements, the batch id
  in the answer is the one batch the caller has under that key: two submissions that both succeed
  with the same key name the same batch.
\<close>

theorem create_batch_idempotent:
  assumes "world_inv e w" and "canonical e (userID r)" and "Decode decode_batch r = Some req"
    and "cb_IdempotencyKey req \<noteq> []"
    and "rs_Status (fst (handleCreateBatch (apiServer e mio p cfg isPrint flt) r w)) = 202"
  shows "\<exists>i st. fst (handleCreateBatch (apiServer e mio p cfg isPrint flt) r w) = accepted i st \<and>
    keyed (userID r) (cb_IdempotencyKey req) i
      (w_db (snd (handleCreateBatch (apiServer e mio p cfg isPrint flt) r w))) \<and>
    (\<forall>i'. keyed (userID r) (cb_IdempotencyKey req) i'
      (w_db (snd (handleCreateBatch (apiServer e mio p cfg isPrint flt) r w))) \<longrightarrow> i' = i)"
proof -
  let ?s = "apiServer e mio p cfg isPrint flt" and ?u = "userID r" and ?k = "cb_IdempotencyKey req"
  have chk: "check_batch ?s req = None"
    using assms(3,5) by (auto simp: handleCreateBatch_def split: option.splits)
  then have v: "cb_Variants req \<noteq> []" by (auto simp: check_batch_def split: if_splits)
  obtain r1 w1 where f: "FindBatchByIdempotencyKey e ?u ?k w = (r1, w1)" by fastforce
  have w1: "world_inv e w1" using pg.find_keeps [OF assms(1), of ?u ?k] f by simp
  have "\<exists>i st. fst (handleCreateBatch ?s r w) = accepted i st \<and> keyed ?u ?k i (w_db (snd (handleCreateBatch ?s r w)))"
  proof (cases r1)
    case (Inr b)
    with find_batch_keyed [OF assms(2), of ?k w b w1] f chk assms(3,4) show ?thesis
      by (auto simp: handleCreateBatch_def)
  next
    case (Inl err)
    with f chk assms(3-5) have "err = ErrNotFound"
      by (cases err) (auto simp: handleCreateBatch_def)
    with Inl f chk assms(3,4) have h: "handleCreateBatch ?s r w = submit_batch ?s req ?u w1"
      by (simp add: handleCreateBatch_def)
    from submit_batch_keyed [OF w1 assms(2,4) v, of mio p cfg isPrint flt] assms(5) show ?thesis
      unfolding h by blast
  qed
  moreover have "db_inv (w_db (snd (handleCreateBatch ?s r w)))"
    using api.create_batch_keeps [OF assms(1,2), of mio p cfg isPrint flt] by (simp add: world_inv_def)
  ultimately show ?thesis using keyed_unique by blast
qed

text \<open>
  A replay changes nothing: when the caller already has a batch under the key, whatever its state, a
  further valid submission with that key is answered 202 with the id and current state of that
  batch, and no statement but the lookup is sent.
\<close>

lemma create_batch_replay:
  assumes "db_inv (others e (w_tick w) (w_db w))" and "e_fault e (w_tick w) = NoFault"
    and "canonical e (userID r)" and "Decode decode_batch r = Some req"
    and "check_batch (apiServer e mio p cfg isPrint flt) req = None" and "cb_IdempotencyKey req \<noteq> []"
    and "b \<in> set (batches (others e (w_tick w) (w_db w)))" and "b_user_id b = userID r"
    and "b_idempotency_key b = Some (cb_IdempotencyKey req)"
  shows "handleCreateBatch (apiServer e mio p cfg isPrint flt) r w =
    (accepted (b_id b) (b_state b), w\<lparr> w_db := others e (w_tick w) (w_db w), w_tick := Suc (w_tick w) \<rparr>)"
proof -
  let ?d = "others e (w_tick w) (w_db w)"
  obtain b' where q: "query_row (\<lambda>b. b_user_id b = userID r \<and> b_idempotency_key b = Some (cb_IdempotencyKey req)) (batches ?d) = Some b'"
    using assms(7-9) by (cases "query_row (\<lambda>b. b_user_id b = userID r \<and> b_idempotency_key b = Some (cb_IdempotencyKey req)) (batches ?d)")
      (auto simp: query_row_None)
  from query_row_Some [OF q] assms(7-9) keyed_unique [OF assms(1), of "userID r" "cb_IdempotencyKey req" "b_id b" "b_id b'"]
  have "b' \<in> set (batches ?d)" "b_id b = b_id b'" by (auto simp: keyed_def)
  moreover have "distinct (map b_id (batches ?d))" using assms(1) by (simp add: db_inv_def keys_ok_def)
  ultimately have "b' = b" using distinct_map_eqD [of b_id "batches ?d"] assms(7) by metis
  with q assms(2-6) show ?thesis
    by (simp add: handleCreateBatch_def FindBatchByIdempotencyKey_def db_call_def Let_def
        select_batch_by_key_def select_batch_def canonical_def scanBatch_def)
qed

section \<open>Paging\<close>

text \<open>
  The page is always in range, whatever the query says (malformed, negative or overflowing numbers
  included): limit between 1 and 500, offset not negative. A limit from 1 to 500 written in decimal
  is used as it is; a larger one is not clamped to 500 but replaced by the default 50.
\<close>

lemma pageParams_bounds:
  "1 \<le> fst (pageParams r) \<and> fst (pageParams r) \<le> 500 \<and> 0 \<le> snd (pageParams r) \<and>
   (Query_Get r ''limit'' = show_int n \<longrightarrow> MinInt64 \<le> n \<longrightarrow> n \<le> MaxInt64 \<longrightarrow>
      fst (pageParams r) = (if 1 \<le> n \<and> n \<le> 500 then n else 50))"
proof -
  have "show_int n \<noteq> []" by (simp add: show_int_def)
  moreover have "Atoi (show_int n) = Some n" if "MinInt64 \<le> n" "n \<le> MaxInt64" using that by (simp add: Atoi_show_int)
  ultimately show ?thesis by (auto simp: pageParams_def queryInt_def Let_def)
qed

section \<open>Uploads\<close>

definition safe_char :: "char \<Rightarrow> bool" where
  "safe_char c \<longleftrightarrow>
     (65 \<le> byte c \<and> byte c \<le> 90) \<or> (97 \<le> byte c \<and> byte c \<le> 122) \<or> is_digit c \<or>
     c = CHR ''.'' \<or> c = CHR ''_'' \<or> c = CHR ''-''"

lemma sanitize_rune_safe: "list_all safe_char (sanitize_rune x)"
  by (auto simp: sanitize_rune_def safe_char_def split: list.splits)

lemma basenameSanitize_safe: "list_all safe_char (basenameSanitize t)"
  using sanitize_rune_safe by (auto simp: basenameSanitize_def list_all_iff)

lemma safe_no_slash: "list_all safe_char t \<Longrightarrow> CHR ''/'' \<notin> set t"
  by (auto simp: list_all_iff safe_char_def byte_def is_digit_def)


text \<open>
  The digest of an upload is not checked or sanitised: with a slash in it a caller gets a link
  into another user's prefix. The test for a bare slash as file name cannot succeed, because the
  sanitiser has already replaced it; and a file name of two dots is kept.
\<close>

lemma upload_key_reaches_foreign_prefix:
  "upload_key \<lparr> cu_Kind = ''model'', cu_Filename = ''f.idf'', cu_SHA256 = victim @ ''/x'' \<rparr> uid =
     ''uploads/'' @ victim @ ''/x-f.idf''"
proof -
  have "upload_base ''f.idf'' = ''f.idf''" by code_simp
  then show ?thesis by (simp add: upload_key_def)
qed

lemma upload_base_slash: "upload_base fn \<noteq> ''/''"
  using safe_no_slash [of "upload_base fn"] basenameSanitize_safe by (auto simp: upload_base_def)

lemma upload_base_dots: "upload_base ''/'' = ''_'' \<and> upload_base ''..'' = ''..''"
  by code_simp

section \<open>Artifacts\<close>

lemma presign_objects_entries:
  assumes "presign_objects pc bucket prefix objs w = (Inr es, w')"
  shows "list_all2 (\<lambda>obj entry. \<exists>url wa wb. pc_PresignGet pc bucket (so_Key obj) wa = (Inr url, wb) \<and>
    entry = artifact_entry (artifact_name prefix (so_Key obj)) url (so_Size obj)) objs es"
  using assms
proof (induction objs arbitrary: w es)
  case (Cons obj objs)
  obtain r1 w1 where g: "pc_PresignGet pc bucket (so_Key obj) w = (r1, w1)" by fastforce
  obtain r2 w2 where rest: "presign_objects pc bucket prefix objs w1 = (r2, w2)" by fastforce
  from Cons.prems g rest obtain url es' where "r1 = Inr url" "r2 = Inr es'" "w2 = w'"
    "es = artifact_entry (artifact_name prefix (so_Key obj)) url (so_Size obj) # es'"
    by (auto split: sum.splits)
  with Cons.IH [of w1 es'] g rest show ?case by auto
qed auto

lemma artifact_name_under:
  "n \<noteq> [] \<Longrightarrow> \<not> HasPrefix n ''/'' \<Longrightarrow> artifact_name prefix (prefix @ n) = n"
  by (simp add: artifact_name_def TrimPrefix_def Let_def)

lemma resultPrefix_cases:
  "snd (resultPrefix res h bkt) = [] \<or> HasSuffix (snd (resultPrefix res h bkt)) ''/''"
  by (auto simp: resultPrefix_def HasSuffix_iff split: option.splits prod.splits if_splits)

text \<open>
  An artifact listing covers the result's directory and nothing is skipped: when
  \<open>GET /v1/results/{simId}/artifacts\<close> answers 200 for a caller, there is a simulation of the
  caller with a result, and the answer has one entry per object listed under that result's
  prefix, in order, each with a link minted for that very object of the result's bucket.
\<close>

lemma artifacts_cover_listing:
  assumes "rs_Status (fst (handleListArtifacts s r w)) = 200"
  shows "\<exists>pc sim h res objs es w1 w2.
    sv_presigner s = Some pc \<and> fst (ds_GetSimulation (sv_store s) (URLParam r ''simId'') w) = Inr sim \<and>
    sim_UserID sim = userID r \<and> sim_ContentHash sim = Some h \<and>
    fst (ds_GetResult (sv_store s) h w1) = Inr res \<and>
    fst (pc_List pc (fst (resultPrefix res h (BucketResults (sv_cfg s))))
           (snd (resultPrefix res h (BucketResults (sv_cfg s)))) w2) = Inr objs \<and>
    rs_Body (fst (handleListArtifacts s r w)) = BJson (JObj [(''artifacts'', JArr es)]) \<and>
    list_all2 (\<lambda>obj entry. \<exists>url wa wb.
      pc_PresignGet pc (fst (resultPrefix res h (BucketResults (sv_cfg s)))) (so_Key obj) wa = (Inr url, wb) \<and>
      entry = artifact_entry (artifact_name (snd (resultPrefix res h (BucketResults (sv_cfg s)))) (so_Key obj))
                url (so_Size obj)) objs es"
proof -
  from assms obtain pc where pc: "sv_presigner s = Some pc"
    by (auto simp: handleListArtifacts_def split: option.splits)
  obtain r1 w1 where gs: "ds_GetSimulation (sv_store s) (URLParam r ''simId'') w = (r1, w1)" by fastforce
  from assms pc gs obtain sim where sim: "r1 = Inr sim" "sim_UserID sim = userID r"
    by (auto simp: handleListArtifacts_def with_own_sim_def split: sum.splits error.splits if_splits)
  from assms pc gs sim obtain h where h: "sim_ContentHash sim = Some h"
    by (auto simp: handleListArtifacts_def with_own_sim_def with_result_def split: option.splits)
  obtain r2 w2 where gr: "ds_GetResult (sv_store s) h w1 = (r2, w2)" by fastforce
  from assms pc gs sim h gr obtain res where res: "r2 = Inr res"
    by (auto simp: handleListArtifacts_def with_own_sim_def with_result_def split: sum.splits error.splits)
  obtain bkt pre where rp: "resultPrefix res h (BucketResults (sv_cfg s)) = (bkt, pre)" by fastforce
  obtain r3 w3 where ls: "pc_List pc bkt pre w2 = (r3, w3)" by fastforce
  from assms pc gs sim h gr res rp ls obtain objs where objs: "r3 = Inr objs"
    by (auto simp: handleListArtifacts_def with_own_sim_def with_result_def list_artifacts_def split: sum.splits)
  obtain r4 w4 where ps: "presign_objects pc bkt pre objs w3 = (r4, w4)" by fastforce
  from assms pc gs sim h gr res rp ls objs ps obtain es where es: "r4 = Inr es"
    by (auto simp: handleListArtifacts_def with_own_sim_def with_result_def list_artifacts_def split: sum.splits)
  have "rs_Body (fst (handleListArtifacts s r w)) = BJson (JObj [(''artifacts'', JArr es)])"
    using pc gs sim h gr res rp ls objs ps es
    by (simp add: handleListArtifacts_def with_own_sim_def with_result_def list_artifacts_def writeJSON_def)
  moreover note presign_objects_entries [OF ps [unfolded es]]
  ultimately show ?thesis
    using pc gs sim h gr res rp ls objs
    by (intro exI [of _ pc] exI [of _ sim] exI [of _ h] exI [of _ res] exI [of _ objs] exI [of _ es]
        exI [of _ w1] exI [of _ w2]) simp
qed

text \<open>
  The prefix searched for artifacts is a directory: it ends in a slash, so that no object of
  another result whose hash merely starts the same way is listed. It is empty, that is, the whole
  bucket, only if the stored artifact URI is \<open>s3://bucket\<close> with nothing or only a slash behind.
\<close>

lemma resultPrefix_is_directory:
  "(case resultPrefix res h bkt of
      (b, prefix) \<Rightarrow>
        (prefix \<noteq> [] \<longrightarrow> HasSuffix prefix ''/'') \<and>
        (prefix = [] \<longrightarrow> res_ArtifactURI res = Some (''s3://'' @ b) \<or> res_ArtifactURI res = Some (''s3://'' @ b @ ''/'')))"
proof -
  obtain b prefix where rp: "resultPrefix res h bkt = (b, prefix)" by fastforce
  have "res_ArtifactURI res = Some (''s3://'' @ b) \<or> res_ArtifactURI res = Some (''s3://'' @ b @ ''/'')" if "prefix = []"
  proof -
    from rp that obtain uri where uri: "res_ArtifactURI res = Some uri" "HasPrefix uri ''s3://''"
      and pu: "parseS3URI uri = (b, [])"
      by (auto simp: resultPrefix_def split: option.splits if_splits prod.splits)
    from uri(2) obtain rest where rest: "uri = ''s3://'' @ rest" by (auto simp: HasPrefix_iff)
    have "CutPrefix uri ''s3://'' = (rest, True)" unfolding rest by (rule CutPrefix_append)
    with pu obtain f where cut: "Cut rest (CHR ''/'') = (b, [], f)" by (auto simp: parseS3URI_def split: prod.splits)
    then have "rest = b \<or> rest = b @ ''/''"
      using Cut_found [of rest "CHR ''/''" b "[]"] Cut_not_found [of rest "CHR ''/''" b "[]"] by (cases f) auto
    with rest uri show ?thesis by auto
  qed
  with rp resultPrefix_cases [of res h bkt] show ?thesis by auto
qed

end
