(* ===== verification/RunnerPool.thy ===== *)
theory RunnerPool
  imports Lifecycle
begin

text \<open>
  The operator's side: the \<open>RunnerPool\<close> custom resource (\<open>api/v1/runnerpool_types.go\<close>) and its
  reconciler (\<open>internal/controller/runnerpool_controller.go\<close>). The Kubernetes client, the owner
  reference, quantity parsing and \<open>retry.RetryOnConflict\<close> are library code and appear as
  parameters; the objects the reconciler builds and every call it makes are modelled.
\<close>

section \<open>The custom resource\<close>

record RunnerResources =
  rr_CPU :: string
  rr_Memory :: string

record RunnerPoolSpec =
  rps_EngineVersion :: string
  rps_Image :: string
  rps_Resources :: RunnerResources
  rps_MinReplicas :: int
  rps_MaxReplicas :: int
  rps_DefaultUserConcurrency :: int

record RunnerPoolStatus =
  rpt_ReadyReplicas :: int
  rpt_EligibleQueued :: int
  rpt_Conditions :: "(string \<times> string) list"

record RunnerPool =
  rp_Name :: string
  rp_Namespace :: string
  rp_UID :: string
  rp_Spec :: RunnerPoolSpec
  rp_Status :: RunnerPoolStatus

section \<open>Managed objects\<close>

record EnvVar =
  ev_Name :: string
  ev_Value :: string
  ev_FieldPath :: "string option"

record Toleration =
  tol_Key :: string
  tol_Operator :: string
  tol_Value :: string
  tol_Effect :: string
  tol_Seconds :: "int option"

record Container =
  ct_Name :: string
  ct_Image :: string
  ct_Env :: "EnvVar list"
  ct_Requests :: "(string \<times> string) list"
  ct_Limits :: "(string \<times> string) list"

record PodTemplate =
  pt_Labels :: "(string \<times> string) list"
  pt_ServiceAccountName :: string
  pt_Tolerations :: "Toleration list"
  pt_Containers :: "Container list"

record Deployment =
  dp_Name :: string
  dp_Namespace :: string
  dp_ResourceVersion :: string
  dp_Owner :: "string option"
  dp_Labels :: "(string \<times> string) list"
  dp_Selector :: "(string \<times> string) list"
  dp_Replicas :: "int option"
  dp_Template :: PodTemplate
  dp_ReadyReplicas :: int

record ScaledObject =
  sdo_Name :: string
  sdo_Namespace :: string
  sdo_ResourceVersion :: string
  sdo_Owner :: "string option"
  sdo_Labels :: "(string \<times> string) list"
  sdo_TargetName :: string
  sdo_MinReplicaCount :: int
  sdo_MaxReplicaCount :: int
  sdo_TriggerType :: string
  sdo_TriggerMetadata :: "(string \<times> string) list"

datatype kerror = KNotFound | KConflict | KOther string

type_synonym 'a kres = "kerror + 'a"

text \<open>The client's calls on the cluster \<open>'k\<close>; a key is a namespace and a name.\<close>

record 'k kubeClient =
  kc_GetPool :: "string \<times> string \<Rightarrow> 'k \<Rightarrow> RunnerPool kres \<times> 'k"
  kc_UpdateStatus :: "RunnerPool \<Rightarrow> 'k \<Rightarrow> unit kres \<times> 'k"
  kc_GetDeployment :: "string \<times> string \<Rightarrow> 'k \<Rightarrow> Deployment kres \<times> 'k"
  kc_CreateDeployment :: "Deployment \<Rightarrow> 'k \<Rightarrow> unit kres \<times> 'k"
  kc_UpdateDeployment :: "Deployment \<Rightarrow> 'k \<Rightarrow> unit kres \<times> 'k"
  kc_GetScaledObject :: "string \<times> string \<Rightarrow> 'k \<Rightarrow> ScaledObject kres \<times> 'k"
  kc_CreateScaledObject :: "ScaledObject \<Rightarrow> 'k \<Rightarrow> unit kres \<times> 'k"
  kc_UpdateScaledObject :: "ScaledObject \<Rightarrow> 'k \<Rightarrow> unit kres \<times> 'k"

text \<open>Library functions the reconciler calls: owner references, quantities, the conflict retry.\<close>

record 'k kubeLib =
  kl_OwnerRef :: "RunnerPool \<Rightarrow> string kres"
  kl_ParseQuantity :: "string \<Rightarrow> string option"
  kl_RetryOnConflict :: "('k \<Rightarrow> unit kres \<times> 'k) \<Rightarrow> 'k \<Rightarrow> unit kres \<times> 'k"

record 'k RunnerPoolReconciler =
  rc_Client :: "'k kubeClient"
  rc_Lib :: "'k kubeLib"
  rc_RunnerEnv :: "EnvVar list"
  rc_RunnerServiceAccount :: string
  rc_RunnerTolerations :: "Toleration list"

section \<open>Names, defaults and the desired objects\<close>

definition resourceName :: "RunnerPool \<Rightarrow> string" where
  "resourceName p = ''runner-'' @ rp_Name p"

definition deployKey :: "RunnerPool \<Rightarrow> string \<times> string" where
  "deployKey p = (rp_Namespace p, resourceName p)"

definition runnerImageRepo :: string where
  "runnerImageRepo = ''ghcr.io/city-syntax/synergyplus-runner''"

definition runnerImage :: "RunnerPool \<Rightarrow> string" where
  "runnerImage pool =
     (if rps_Image (rp_Spec pool) \<noteq> [] then rps_Image (rp_Spec pool)
      else runnerImageRepo @ '':'' @ rps_EngineVersion (rp_Spec pool))"

definition orDefault :: "int \<Rightarrow> int \<Rightarrow> int" where
  "orDefault v def = (if v \<le> 0 then def else v)"

definition pool_labels :: "RunnerPool \<Rightarrow> (string \<times> string) list" where
  "pool_labels pool =
     [(''app.kubernetes.io/name'', ''synergyplus-runner''),
      (''app.kubernetes.io/managed-by'', ''synergyplus-operator''),
      (''synergyplus.io/pool'', rp_Name pool),
      (''synergyplus.io/engine'', rps_EngineVersion (rp_Spec pool))]"

definition runner_env :: "'k RunnerPoolReconciler \<Rightarrow> RunnerPool \<Rightarrow> EnvVar list" where
  "runner_env r pool =
     rc_RunnerEnv r @
     [\<lparr> ev_Name = ''SP_ENGINE_VERSION'', ev_Value = rps_EngineVersion (rp_Spec pool), ev_FieldPath = None \<rparr>,
      \<lparr> ev_Name = ''SP_PER_USER_CAP'',
        ev_Value = show_int (orDefault (rps_DefaultUserConcurrency (rp_Spec pool)) 50), ev_FieldPath = None \<rparr>,
      \<lparr> ev_Name = ''SP_RUNNER_ID'', ev_Value = [], ev_FieldPath = Some ''metadata.name'' \<rparr>]"

definition desired_template :: "'k RunnerPoolReconciler \<Rightarrow> RunnerPool \<Rightarrow> string \<Rightarrow> string \<Rightarrow> PodTemplate" where
  "desired_template r pool cpuQ memQ =
     \<lparr> pt_Labels = pool_labels pool, pt_ServiceAccountName = rc_RunnerServiceAccount r,
       pt_Tolerations = rc_RunnerTolerations r,
       pt_Containers =
         [\<lparr> ct_Name = ''runner'', ct_Image = runnerImage pool, ct_Env = runner_env r pool,
            ct_Requests = [(''cpu'', cpuQ), (''memory'', memQ)], ct_Limits = [(''memory'', memQ)] \<rparr>] \<rparr>"

definition desired_deployment ::
  "'k RunnerPoolReconciler \<Rightarrow> RunnerPool \<Rightarrow> string \<Rightarrow> string \<Rightarrow> string \<Rightarrow> Deployment" where
  "desired_deployment r pool cpuQ memQ owner =
     \<lparr> dp_Name = resourceName pool, dp_Namespace = rp_Namespace pool, dp_ResourceVersion = [],
       dp_Owner = Some owner, dp_Labels = pool_labels pool,
       dp_Selector = [(''synergyplus.io/pool'', rp_Name pool)], dp_Replicas = None,
       dp_Template = desired_template r pool cpuQ memQ, dp_ReadyReplicas = 0 \<rparr>"

definition eligibleQuery :: "RunnerPool \<Rightarrow> string" where
  "eligibleQuery pool =
     ''SELECT count(*) FROM app.eligible_simulations('' @ [CHR 0x27] @ rps_EngineVersion (rp_Spec pool) @
     [CHR 0x27] @ '', '' @ show_int (orDefault (rps_DefaultUserConcurrency (rp_Spec pool)) 50) @ '')''"

definition desired_scaledobject :: "RunnerPool \<Rightarrow> string \<Rightarrow> ScaledObject" where
  "desired_scaledobject pool owner =
     \<lparr> sdo_Name = resourceName pool, sdo_Namespace = rp_Namespace pool, sdo_ResourceVersion = [],
       sdo_Owner = Some owner, sdo_Labels = [(''synergyplus.io/pool'', rp_Name pool)],
       sdo_TargetName = resourceName pool, sdo_MinReplicaCount = rps_MinReplicas (rp_Spec pool),
       sdo_MaxReplicaCount = orDefault (rps_MaxReplicas (rp_Spec pool)) 200, sdo_TriggerType = ''postgresql'',
       sdo_TriggerMetadata =
         [(''connectionFromEnv'', ''DATABASE_URL''), (''query'', eligibleQuery pool), (''targetQueryValue'', ''1'')] \<rparr>"

section \<open>Reconciliation\<close>

text \<open>One attempt at the read-modify-write of the Deployment.\<close>

definition write_deployment :: "'k kubeClient \<Rightarrow> Deployment \<Rightarrow> 'k \<Rightarrow> unit kres \<times> 'k" where
  "write_deployment kc desired k =
     (case kc_GetDeployment kc (dp_Namespace desired, dp_Name desired) k of
        (Inl KNotFound, k1) \<Rightarrow> kc_CreateDeployment kc desired k1
      | (Inl err, k1) \<Rightarrow> (Inl err, k1)
      | (Inr existing, k1) \<Rightarrow>
          kc_UpdateDeployment kc
            (existing\<lparr> dp_Labels := dp_Labels desired, dp_Selector := dp_Selector desired,
                       dp_Template := dp_Template desired \<rparr>) k1)"

definition reconcileDeployment :: "'k RunnerPoolReconciler \<Rightarrow> RunnerPool \<Rightarrow> 'k \<Rightarrow> unit kres \<times> 'k" where
  "reconcileDeployment r pool k =
     (let cpu = (if rr_CPU (rps_Resources (rp_Spec pool)) = [] then ''1'' else rr_CPU (rps_Resources (rp_Spec pool)));
          mem = (if rr_Memory (rps_Resources (rp_Spec pool)) = [] then ''2Gi'' else rr_Memory (rps_Resources (rp_Spec pool)))
      in case kl_ParseQuantity (rc_Lib r) cpu of
           None \<Rightarrow> (Inl (KOther ''parse cpu''), k)
         | Some cpuQ \<Rightarrow>
             (case kl_ParseQuantity (rc_Lib r) mem of
                None \<Rightarrow> (Inl (KOther ''parse memory''), k)
              | Some memQ \<Rightarrow>
                  (case kl_OwnerRef (rc_Lib r) pool of
                     Inl err \<Rightarrow> (Inl err, k)
                   | Inr owner \<Rightarrow>
                       kl_RetryOnConflict (rc_Lib r)
                         (write_deployment (rc_Client r) (desired_deployment r pool cpuQ memQ owner)) k)))"

definition reconcileScaledObject :: "'k RunnerPoolReconciler \<Rightarrow> RunnerPool \<Rightarrow> 'k \<Rightarrow> unit kres \<times> 'k" where
  "reconcileScaledObject r pool k =
     (case kl_OwnerRef (rc_Lib r) pool of
        Inl err \<Rightarrow> (Inl err, k)
      | Inr owner \<Rightarrow>
          let so = desired_scaledobject pool owner in
          (case kc_GetScaledObject (rc_Client r) (sdo_Namespace so, sdo_Name so) k of
             (Inl KNotFound, k1) \<Rightarrow> kc_CreateScaledObject (rc_Client r) so k1
           | (Inl err, k1) \<Rightarrow> (Inl err, k1)
           | (Inr existing, k1) \<Rightarrow>
               kc_UpdateScaledObject (rc_Client r) (so\<lparr> sdo_ResourceVersion := sdo_ResourceVersion existing \<rparr>) k1))"

text \<open>Mirroring the ready replicas; a failed status write is only logged.\<close>

definition mirror_status :: "'k RunnerPoolReconciler \<Rightarrow> RunnerPool \<Rightarrow> 'k \<Rightarrow> 'k" where
  "mirror_status r pool k =
     (case kc_GetDeployment (rc_Client r) (deployKey pool) k of
        (Inl err, k1) \<Rightarrow> k1
      | (Inr dep, k1) \<Rightarrow>
          if rpt_ReadyReplicas (rp_Status pool) \<noteq> dp_ReadyReplicas dep
          then snd (kc_UpdateStatus (rc_Client r)
                 (pool\<lparr> rp_Status := (rp_Status pool)\<lparr> rpt_ReadyReplicas := dp_ReadyReplicas dep \<rparr> \<rparr>) k1)
          else k1)"

definition Reconcile :: "'k RunnerPoolReconciler \<Rightarrow> string \<times> string \<Rightarrow> 'k \<Rightarrow> unit kres \<times> 'k" where
  "Reconcile r key k =
     (case kc_GetPool (rc_Client r) key k of
        (Inl KNotFound, k1) \<Rightarrow> (Inr (), k1)
      | (Inl err, k1) \<Rightarrow> (Inl err, k1)
      | (Inr pool, k1) \<Rightarrow>
          (case reconcileDeployment r pool k1 of
             (Inl err, k2) \<Rightarrow> (Inl (KOther ''reconcile deployment''), k2)
           | (Inr _, k2) \<Rightarrow>
               (case reconcileScaledObject r pool k2 of
                  (Inl err, k3) \<Rightarrow> (Inl (KOther ''reconcile scaledobject''), k3)
                | (Inr _, k3) \<Rightarrow> (Inr (), mirror_status r pool k3))))"

section \<open>What the libraries promise\<close>

text \<open>
  \<open>RetryOnConflict\<close> with \<open>DefaultRetry\<close>: at most five attempts, repeated only while the attempt
  returns a conflict; the last result is returned.
\<close>

fun retry_spec :: "nat \<Rightarrow> ('k \<Rightarrow> unit kres \<times> 'k) \<Rightarrow> 'k \<Rightarrow> unit kres \<times> 'k" where
  "retry_spec 0 fn k = (Inl KConflict, k)"
| "retry_spec (Suc 0) fn k = fn k"
| "retry_spec (Suc (Suc n)) fn k =
     (case fn k of (Inl KConflict, k1) \<Rightarrow> retry_spec (Suc n) fn k1 | (res, k1) \<Rightarrow> (res, k1))"

text \<open>
  The API server's optimistic concurrency. \<open>dep k\<close> are the Deployments stored in cluster \<open>k\<close>,
  \<open>pre k\<close> is the cluster after the other writers' changes that precede the next call. A read
  returns the stored object; an update succeeds exactly when it carries the stored object's
  resource version, which then changes, and two objects under one key with one version are equal.
\<close>

definition kube_laws ::
  "'k kubeClient \<Rightarrow> ('k \<Rightarrow> string \<times> string \<Rightarrow> Deployment option) \<Rightarrow> ('k \<Rightarrow> 'k) \<Rightarrow> bool" where
  "kube_laws kc dep pre \<longleftrightarrow>
     (\<forall>key k. kc_GetDeployment kc key k =
        (case dep (pre k) key of None \<Rightarrow> Inl KNotFound | Some d \<Rightarrow> Inr d, pre k)) \<and>
     (\<forall>d k. case dep (pre k) (dp_Namespace d, dp_Name d) of
        None \<Rightarrow> \<exists>v k'. kc_CreateDeployment kc d k = (Inr (), k') \<and>
                  dep k' = (dep (pre k))((dp_Namespace d, dp_Name d) \<mapsto> d\<lparr> dp_ResourceVersion := v \<rparr>)
      | Some d0 \<Rightarrow> \<exists>m. kc_CreateDeployment kc d k = (Inl (KOther m), pre k)) \<and>
     (\<forall>d k. case dep (pre k) (dp_Namespace d, dp_Name d) of
        None \<Rightarrow> kc_UpdateDeployment kc d k = (Inl KNotFound, pre k)
      | Some d0 \<Rightarrow>
          if dp_ResourceVersion d0 = dp_ResourceVersion d
          then \<exists>v k'. kc_UpdateDeployment kc d k = (Inr (), k') \<and>
                 dep k' = (dep (pre k))((dp_Namespace d, dp_Name d) \<mapsto> d\<lparr> dp_ResourceVersion := v \<rparr>)
          else kc_UpdateDeployment kc d k = (Inl KConflict, pre k)) \<and>
     (\<forall>k key d. dep k key = Some d \<longrightarrow> (dp_Namespace d, dp_Name d) = key) \<and>
     (\<forall>k key d d0. dep k key = Some d \<longrightarrow> dep (pre k) key = Some d0 \<longrightarrow>
        dp_ResourceVersion d0 = dp_ResourceVersion d \<longrightarrow> d0 = d)"

lemma retry_spec_Inr:
  "retry_spec n fn k = (Inr (), k') \<Longrightarrow> \<exists>k0. fn k0 = (Inr (), k')"
  by (induction n fn k rule: retry_spec.induct) (auto split: prod.splits sum.splits kerror.splits)

text \<open>The outcome of one successful attempt: created, or replaced without touching what others own.\<close>

definition landed ::
  "('k \<Rightarrow> string \<times> string \<Rightarrow> Deployment option) \<Rightarrow> Deployment \<Rightarrow> 'k \<Rightarrow> bool" where
  "landed dep desired k' \<longleftrightarrow>
     (\<exists>k0 d'. dep k' = (dep k0)((dp_Namespace desired, dp_Name desired) \<mapsto> d') \<and>
        dp_Template d' = dp_Template desired \<and> dp_Labels d' = dp_Labels desired \<and>
        dp_Selector d' = dp_Selector desired \<and>
        (case dep k0 (dp_Namespace desired, dp_Name desired) of
           None \<Rightarrow> dp_Replicas d' = dp_Replicas desired \<and> dp_Owner d' = dp_Owner desired
         | Some d0 \<Rightarrow> dp_Replicas d' = dp_Replicas d0 \<and> dp_Owner d' = dp_Owner d0))"

lemma write_deployment_lands:
  assumes laws: "kube_laws kc dep pre" and ok: "write_deployment kc desired k = (Inr (), k')"
  shows "landed dep desired k'"
proof -
  let ?key = "(dp_Namespace desired, dp_Name desired)"
  have get: "kc_GetDeployment kc ?key k =
      (case dep (pre k) ?key of None \<Rightarrow> Inl KNotFound | Some d \<Rightarrow> Inr d, pre k)"
    using laws by (simp add: kube_laws_def)
  show ?thesis
  proof (cases "dep (pre k) ?key")
    case None
    then have c: "kc_CreateDeployment kc desired (pre k) = (Inr (), k')"
      using get ok by (simp add: write_deployment_def)
    from laws have "case dep (pre (pre k)) ?key of
        None \<Rightarrow> \<exists>v k'. kc_CreateDeployment kc desired (pre k) = (Inr (), k') \<and>
                  dep k' = (dep (pre (pre k)))(?key \<mapsto> desired\<lparr> dp_ResourceVersion := v \<rparr>)
      | Some d0 \<Rightarrow> \<exists>m. kc_CreateDeployment kc desired (pre k) = (Inl (KOther m), pre (pre k))"
      by (simp add: kube_laws_def)
    with c obtain v where "dep (pre (pre k)) ?key = None"
      "dep k' = (dep (pre (pre k)))(?key \<mapsto> desired\<lparr> dp_ResourceVersion := v \<rparr>)"
      by (auto split: option.splits)
    then show ?thesis unfolding landed_def
      by (intro exI [of _ "pre (pre k)"] exI [of _ "desired\<lparr> dp_ResourceVersion := v \<rparr>"]) simp
  next
    case (Some d)
    let ?d = "d\<lparr> dp_Labels := dp_Labels desired, dp_Selector := dp_Selector desired, dp_Template := dp_Template desired \<rparr>"
    have u: "kc_UpdateDeployment kc ?d (pre k) = (Inr (), k')"
      using get ok Some by (simp add: write_deployment_def)
    have key: "(dp_Namespace ?d, dp_Name ?d) = ?key" using laws Some by (simp add: kube_laws_def)
    from laws have "case dep (pre (pre k)) (dp_Namespace ?d, dp_Name ?d) of
        None \<Rightarrow> kc_UpdateDeployment kc ?d (pre k) = (Inl KNotFound, pre (pre k))
      | Some d0 \<Rightarrow>
          if dp_ResourceVersion d0 = dp_ResourceVersion ?d
          then \<exists>v k'. kc_UpdateDeployment kc ?d (pre k) = (Inr (), k') \<and>
                 dep k' = (dep (pre (pre k)))((dp_Namespace ?d, dp_Name ?d) \<mapsto> ?d\<lparr> dp_ResourceVersion := v \<rparr>)
          else kc_UpdateDeployment kc ?d (pre k) = (Inl KConflict, pre (pre k))"
      unfolding kube_laws_def by blast
    with u key obtain d0 v where d0: "dep (pre (pre k)) ?key = Some d0" "dp_ResourceVersion d0 = dp_ResourceVersion d"
      and k': "dep k' = (dep (pre (pre k)))(?key \<mapsto> ?d\<lparr> dp_ResourceVersion := v \<rparr>)"
      by (auto split: option.splits if_splits)
    from laws Some d0 have "d0 = d" unfolding kube_laws_def by blast
    with d0 k' show ?thesis unfolding landed_def
      by (intro exI [of _ "pre (pre k)"] exI [of _ "?d\<lparr> dp_ResourceVersion := v \<rparr>"]) simp
  qed
qed

section \<open>Properties\<close>


lemma retry_spec_first:
  assumes "\<forall>i < m. fst (fn (((\<lambda>k. snd (fn k)) ^^ i) k)) = Inl KConflict" and "m < n"
    and "fst (fn (((\<lambda>k. snd (fn k)) ^^ m) k)) \<noteq> Inl KConflict"
  shows "retry_spec n fn k = fn (((\<lambda>k. snd (fn k)) ^^ m) k)"
  using assms
proof (induction m arbitrary: n k)
  case 0
  then obtain n' where n: "n = Suc n'" by (cases n) auto
  from 0 show ?case
    by (cases n') (auto simp: n split: prod.splits sum.splits kerror.splits)
next
  case (Suc m)
  then obtain n' where n: "n = Suc (Suc n')" by (metis Suc_less_eq less_Suc_eq_0_disj not0_implies_Suc not_less0)
  have "fst (fn k) = Inl KConflict" using Suc.prems(1) by force
  then obtain k1 where k1: "fn k = (Inl KConflict, k1)" by (cases "fn k") auto
  have shift: "((\<lambda>k. snd (fn k)) ^^ Suc i) k = ((\<lambda>k. snd (fn k)) ^^ i) k1" for i
    using k1 by (simp add: funpow_Suc_right del: funpow.simps)
  have "retry_spec (Suc n') fn k1 = fn (((\<lambda>k. snd (fn k)) ^^ m) k1)"
  proof (rule Suc.IH)
    show "\<forall>i<m. fst (fn (((\<lambda>k. snd (fn k)) ^^ i) k1)) = Inl KConflict"
      using Suc.prems(1) shift by (metis Suc_less_eq)
    show "m < Suc n'" using Suc.prems(2) n by simp
    show "fst (fn (((\<lambda>k. snd (fn k)) ^^ m) k1)) \<noteq> Inl KConflict" using Suc.prems(3) shift by metis
  qed
  then show ?case unfolding shift n by (simp add: k1)
qed

text \<open>
  A reconcile outlives the write race it was built for: if at most the first four attempts lose the
  race and the next one does not, its outcome is the outcome of the reconcile.
\<close>

lemma reconcile_retries_conflicts:
  assumes "\<forall>fn k. kl_RetryOnConflict (rc_Lib r) fn k = retry_spec 5 fn k"
    and "kl_ParseQuantity (rc_Lib r) (if rr_CPU (rps_Resources (rp_Spec pool)) = [] then ''1''
           else rr_CPU (rps_Resources (rp_Spec pool))) = Some cpuQ"
    and "kl_ParseQuantity (rc_Lib r) (if rr_Memory (rps_Resources (rp_Spec pool)) = [] then ''2Gi''
           else rr_Memory (rps_Resources (rp_Spec pool))) = Some memQ"
    and "kl_OwnerRef (rc_Lib r) pool = Inr owner"
    and "attempt = write_deployment (rc_Client r) (desired_deployment r pool cpuQ memQ owner)" and "m < 5"
    and "\<forall>i < m. fst (attempt (((\<lambda>k. snd (attempt k)) ^^ i) k)) = Inl KConflict"
    and "fst (attempt (((\<lambda>k. snd (attempt k)) ^^ m) k)) \<noteq> Inl KConflict"
  shows "reconcileDeployment r pool k = attempt (((\<lambda>k. snd (attempt k)) ^^ m) k)"
  using retry_spec_first [OF assms(7) _ assms(8), of 5] assms(1-6)
  by (simp add: reconcileDeployment_def Let_def)

text \<open>
  C34. Scaler and runners agree. For every pool the Deployment's runners get, as the last value of
  \<open>SP_PER_USER_CAP\<close> and \<open>SP_ENGINE_VERSION\<close>, exactly the cap (positive, 50 when unset) and the
  version in the query the autoscaler counts with, and the ScaledObject targets the Deployment.
\<close>

theorem trigger_matches_runner_env:
  "map_of (rev (map (\<lambda>v. (ev_Name v, ev_Value v)) (runner_env r pool))) ''SP_ENGINE_VERSION'' =
     Some (rps_EngineVersion (rp_Spec pool)) \<and>
   (\<exists>cap. 0 < cap \<and>
      map_of (rev (map (\<lambda>v. (ev_Name v, ev_Value v)) (runner_env r pool))) ''SP_PER_USER_CAP'' = Some (show_int cap) \<and>
      map_of (sdo_TriggerMetadata (desired_scaledobject pool owner)) ''query'' =
        Some (''SELECT count(*) FROM app.eligible_simulations('' @ [CHR 0x27] @ rps_EngineVersion (rp_Spec pool) @
              [CHR 0x27] @ '', '' @ show_int cap @ '')'')) \<and>
   sdo_TargetName (desired_scaledobject pool owner) = dp_Name (desired_deployment r pool cpuQ memQ owner') \<and>
   deployKey pool = (dp_Namespace (desired_deployment r pool cpuQ memQ owner'),
                     dp_Name (desired_deployment r pool cpuQ memQ owner'))"
  by (intro conjI exI [of _ "orDefault (rps_DefaultUserConcurrency (rp_Spec pool)) 50"])
     (simp_all add: runner_env_def desired_scaledobject_def desired_deployment_def eligibleQuery_def deployKey_def
      orDefault_def)

text \<open>The version is put into the query's string literal as it is: a quote in it ends the literal.\<close>

lemma eligibleQuery_unescaped:
  assumes "rps_EngineVersion (rp_Spec pool) = v @ [CHR 0x27] @ rest"
  shows "HasPrefix (eligibleQuery pool)
    (''SELECT count(*) FROM app.eligible_simulations('' @ [CHR 0x27] @ v @ [CHR 0x27] @ rest)"
  unfolding HasPrefix_iff eligibleQuery_def assms by simp

section \<open>Witnesses\<close>

text \<open>A small cluster: Deployments by key and a counter for resource versions.\<close>

type_synonym cluster = "(string \<times> string \<Rightarrow> Deployment option) \<times> nat"

definition stored :: "cluster \<Rightarrow> string \<times> string \<Rightarrow> Deployment option" where
  "stored k key =
     (case fst k key of None \<Rightarrow> None | Some d \<Rightarrow> if (dp_Namespace d, dp_Name d) = key then Some d else None)"

definition put_dep :: "Deployment \<Rightarrow> cluster \<Rightarrow> cluster" where
  "put_dep d k =
     ((stored k)((dp_Namespace d, dp_Name d) \<mapsto> d\<lparr> dp_ResourceVersion := show_nat (snd k) \<rparr>), Suc (snd k))"

definition demo_kube :: "cluster kubeClient" where
  "demo_kube =
     \<lparr> kc_GetPool = (\<lambda>key k. (Inl KNotFound, k)), kc_UpdateStatus = (\<lambda>pool k. (Inr (), k)),
       kc_GetDeployment = (\<lambda>key k. (case stored k key of None \<Rightarrow> Inl KNotFound | Some d \<Rightarrow> Inr d, k)),
       kc_CreateDeployment = (\<lambda>d k. case stored k (dp_Namespace d, dp_Name d) of
          None \<Rightarrow> (Inr (), put_dep d k) | Some d0 \<Rightarrow> (Inl (KOther ''exists''), k)),
       kc_UpdateDeployment = (\<lambda>d k. case stored k (dp_Namespace d, dp_Name d) of
          None \<Rightarrow> (Inl KNotFound, k)
        | Some d0 \<Rightarrow> if dp_ResourceVersion d0 = dp_ResourceVersion d then (Inr (), put_dep d k) else (Inl KConflict, k)),
       kc_GetScaledObject = (\<lambda>key k. (Inl KNotFound, k)), kc_CreateScaledObject = (\<lambda>x k. (Inr (), k)),
       kc_UpdateScaledObject = (\<lambda>x k. (Inr (), k)) \<rparr>"

lemma stored_put_dep:
  "stored (put_dep d k) = (stored k)((dp_Namespace d, dp_Name d) \<mapsto> d\<lparr> dp_ResourceVersion := show_nat (snd k) \<rparr>)"
  by (rule ext) (auto simp: stored_def put_dep_def split: option.splits)

lemma demo_kube_laws: "kube_laws demo_kube stored (\<lambda>k. k)"
proof -
  have key: "stored k key = Some d \<Longrightarrow> (dp_Namespace d, dp_Name d) = key" for k key d
    by (auto simp: stored_def split: option.splits if_splits)
  show ?thesis unfolding kube_laws_def
    by (intro conjI allI) (auto simp: demo_kube_def stored_put_dep dest: key split: option.splits)
qed

definition demo_lib :: "'k kubeLib" where
  "demo_lib =
     \<lparr> kl_OwnerRef = (\<lambda>pool. Inr (rp_UID pool)), kl_ParseQuantity = Some, kl_RetryOnConflict = retry_spec 5 \<rparr>"

definition demo_reconciler :: "'k kubeClient \<Rightarrow> 'k RunnerPoolReconciler" where
  "demo_reconciler kc =
     \<lparr> rc_Client = kc, rc_Lib = demo_lib, rc_RunnerEnv = [], rc_RunnerServiceAccount = [], rc_RunnerTolerations = [] \<rparr>"

definition demo_pool :: RunnerPool where
  "demo_pool =
     \<lparr> rp_Name = ''v24'', rp_Namespace = ''sp'', rp_UID = ''uid'',
       rp_Spec = \<lparr> rps_EngineVersion = ''24.1.0'', rps_Image = [], rps_Resources = \<lparr> rr_CPU = [], rr_Memory = [] \<rparr>,
                   rps_MinReplicas = 0, rps_MaxReplicas = 0, rps_DefaultUserConcurrency = 0 \<rparr>,
       rp_Status = \<lparr> rpt_ReadyReplicas = 0, rpt_EligibleQueued = 0, rpt_Conditions = [] \<rparr> \<rparr>"

text \<open>The autoscaler has set 80 replicas; a reconcile then changes the template and keeps the 80.\<close>

definition demo_scaled :: Deployment where
  "demo_scaled =
     (desired_deployment (demo_reconciler demo_kube) demo_pool ''1'' ''1Gi'' ''uid'')
       \<lparr> dp_ResourceVersion := ''7'', dp_Replicas := Some 80 \<rparr>"

definition demo_cluster :: cluster where
  "demo_cluster = ((\<lambda>key. None)((''sp'', ''runner-v24'') \<mapsto> demo_scaled), 8)"


text \<open>A cluster that only counts the conflicts still to come.\<close>

definition racing_kube :: "nat kubeClient" where
  "racing_kube =
     \<lparr> kc_GetPool = (\<lambda>key k. (Inl KNotFound, k)), kc_UpdateStatus = (\<lambda>pool k. (Inr (), k)),
       kc_GetDeployment = (\<lambda>key k. (Inr demo_scaled, k)), kc_CreateDeployment = (\<lambda>d k. (Inr (), k)),
       kc_UpdateDeployment = (\<lambda>d k. if 0 < k then (Inl KConflict, k - 1) else (Inr (), 0)),
       kc_GetScaledObject = (\<lambda>key k. (Inl KNotFound, k)), kc_CreateScaledObject = (\<lambda>x k. (Inr (), k)),
       kc_UpdateScaledObject = (\<lambda>x k. (Inr (), k)) \<rparr>"

end
