(* ===== verification/Boot.thy ===== *)
theory Boot
  imports ApiInputs RunnerPool
begin

text \<open>
  Start-up of the two programs: opening the store and applying migrations
  (\<open>internal/store/store.go\<close>), the apiserver's wiring (\<open>cmd/apiserver/main.go\<close>) and the operator's
  (\<open>cmd/operator/main.go\<close>). The file system and the pgx pool are parameters.
\<close>

section \<open>The store\<close>

text \<open>The pool library: parsing the URL, opening a pool, pinging it, executing a script.\<close>

record ('c, 'p) pgxpool =
  px_ParseConfig :: "string \<Rightarrow> 'c res"
  px_NewWithConfig :: "'c \<Rightarrow> 'p res"
  px_Ping :: "'p \<Rightarrow> unit res"
  px_Exec :: "'p \<Rightarrow> string \<Rightarrow> unit res"

text \<open>\<open>New\<close>: the pool or an error, and the pools it closed.\<close>

definition store_New :: "('c, 'p) pgxpool \<Rightarrow> string \<Rightarrow> 'p res \<times> 'p list" where
  "store_New px databaseURL =
     (case px_ParseConfig px databaseURL of
        Inl err \<Rightarrow> (Inl (ErrMsg ''parse DATABASE_URL''), [])
      | Inr cfg \<Rightarrow>
          (case px_NewWithConfig px cfg of
             Inl err \<Rightarrow> (Inl (ErrMsg ''connect''), [])
           | Inr pool \<Rightarrow>
               (case px_Ping px pool of
                  Inl err \<Rightarrow> (Inl (ErrMsg ''ping''), [pool])
                | Inr _ \<Rightarrow> (Inr pool, []))))"

record fs =
  fs_ReadDir :: "string \<Rightarrow> (string \<times> bool) list res"
  fs_ReadFile :: "string \<Rightarrow> string res"
  fs_IsDir :: "string \<Rightarrow> bool"

text \<open>\<open>filepath.Ext\<close> of a base name: from the last dot on, empty without one.\<close>

definition filepath_Ext :: "string \<Rightarrow> string" where
  "filepath_Ext name =
     (if List.member name (CHR ''.'') then CHR ''.'' # rev (takeWhile (\<lambda>c. c \<noteq> CHR ''.'') (rev name)) else [])"

definition migration_files :: "(string \<times> bool) list \<Rightarrow> string list" where
  "migration_files entries =
     sort (map fst (filter (\<lambda>(name, isdir). \<not> (isdir \<or> filepath_Ext name \<noteq> ''.sql'')) entries))"

text \<open>The loop over the files: the error, if any, and the scripts that were executed.\<close>

fun apply_migrations ::
  "('c, 'p) pgxpool \<Rightarrow> fs \<Rightarrow> 'p \<Rightarrow> string \<Rightarrow> string list \<Rightarrow> unit res \<times> string list" where
  "apply_migrations px f pool dir [] = (Inr (), [])"
| "apply_migrations px f pool dir (x # xs) =
     (case fs_ReadFile f (dir @ ''/'' @ x) of
        Inl err \<Rightarrow> (Inl (ErrMsg (''read migration '' @ x)), [])
      | Inr sql \<Rightarrow>
          (case px_Exec px pool sql of
             Inl err \<Rightarrow> (Inl (ErrMsg (''apply migration '' @ x)), [])
           | Inr _ \<Rightarrow>
               (case apply_migrations px f pool dir xs of (res, execd) \<Rightarrow> (res, sql # execd))))"

definition Migrate :: "('c, 'p) pgxpool \<Rightarrow> fs \<Rightarrow> 'p \<Rightarrow> string \<Rightarrow> unit res \<times> string list" where
  "Migrate px f pool dir =
     (case fs_ReadDir f dir of
        Inl err \<Rightarrow> (Inl (ErrMsg ''read migrations dir''), [])
      | Inr entries \<Rightarrow>
          let files = migration_files entries in
          if length files = 0 then (Inl (ErrMsg ''no .sql migrations found''), [])
          else apply_migrations px f pool dir files)"

definition ResolveMigrationsDir :: "environ \<Rightarrow> fs \<Rightarrow> string" where
  "ResolveMigrationsDir env f =
     (if Getenv env ''MIGRATIONS_DIR'' \<noteq> [] then Getenv env ''MIGRATIONS_DIR''
      else case find (fs_IsDir f) [''/app/db/migrations'', ''./db/migrations''] of
             Some c \<Rightarrow> c
           | None \<Rightarrow> ''/app/db/migrations'')"

section \<open>The apiserver\<close>

text \<open>The presigner \<open>main\<close> builds: static credentials, web identity, or none.\<close>

definition main_presigner :: "'c minio \<Rightarrow> environ \<Rightarrow> Config \<Rightarrow> 'c Presigner option res" where
  "main_presigner mio env cfg =
     (if S3AccessKey cfg \<noteq> [] then
        (case storage_New mio
                \<lparr> sc_Endpoint = S3Endpoint cfg, sc_PublicEndpoint = S3PublicEndpoint cfg,
                  sc_AccessKey = S3AccessKey cfg, sc_SecretKey = S3SecretKey cfg,
                  sc_Region = S3Region cfg, sc_Expiry = PresignExpiry cfg \<rparr> of
           Inl err \<Rightarrow> Inl err | Inr p \<Rightarrow> Inr (Some p))
      else if Getenv env ''AWS_WEB_IDENTITY_TOKEN_FILE'' \<noteq> [] then
        (case storage_New mio
                \<lparr> sc_Endpoint = [], sc_PublicEndpoint = [], sc_AccessKey = [], sc_SecretKey = [],
                  sc_Region = S3Region cfg, sc_Expiry = PresignExpiry cfg \<rparr> of
           Inl err \<Rightarrow> Inl err | Inr p \<Rightarrow> Inr (Some p))
      else Inr None)"

datatype 'a boot = Exit nat | Serve string 'a

definition apiserver_main ::
  "('d, 'p) pgxpool \<Rightarrow> fs \<Rightarrow> 'c minio \<Rightarrow> environ \<Rightarrow> env \<Rightarrow> (string \<Rightarrow> bool) \<Rightarrow> (string \<Rightarrow> string option) \<Rightarrow>
   world Server boot" where
  "apiserver_main px f mio environ e isPrint flt =
     (let cfg = LoadConfig environ in
      if DatabaseURL cfg = [] then Exit 1
      else (case fst (store_New px (DatabaseURL cfg)) of
              Inl err \<Rightarrow> Exit 1
            | Inr pool \<Rightarrow>
                (case fst (Migrate px f pool (ResolveMigrationsDir environ f)) of
                   Inl err \<Rightarrow> Exit 1
                 | Inr _ \<Rightarrow>
                     (case main_presigner mio environ cfg of
                        Inl err \<Rightarrow> Exit 1
                      | Inr p \<Rightarrow> Serve (Addr cfg) (apiServer e mio p cfg isPrint flt)))))"

section \<open>The operator\<close>

definition runnerEnv_keys :: "string list" where
  "runnerEnv_keys =
     [''DATABASE_URL'', ''S3_ENDPOINT'', ''S3_REGION'', ''S3_ACCESS_KEY'', ''S3_SECRET_KEY'',
      ''S3_BUCKET_MODELS'', ''S3_BUCKET_WEATHER'', ''S3_BUCKET_RESULTS'',
      ''SP_LEASE_SECONDS'', ''SP_HEARTBEAT_SECONDS'']"

definition runnerEnv :: "environ \<Rightarrow> EnvVar list" where
  "runnerEnv env =
     List.map_filter (\<lambda>k. map_option (\<lambda>v. \<lparr> ev_Name = k, ev_Value = v, ev_FieldPath = None \<rparr>) (env k)) runnerEnv_keys"

definition runnerServiceAccount :: "environ \<Rightarrow> string" where
  "runnerServiceAccount env = Getenv env ''SP_RUNNER_SERVICE_ACCOUNT''"

definition put_toleration :: "string \<Rightarrow> json \<Rightarrow> Toleration \<Rightarrow> Toleration option" where
  "put_toleration f v r =
     (if f = ''key'' then map_option (\<lambda>x. r\<lparr> tol_Key := x \<rparr>) (decode_string v (tol_Key r))
      else if f = ''operator'' then map_option (\<lambda>x. r\<lparr> tol_Operator := x \<rparr>) (decode_string v (tol_Operator r))
      else if f = ''value'' then map_option (\<lambda>x. r\<lparr> tol_Value := x \<rparr>) (decode_string v (tol_Value r))
      else if f = ''effect'' then map_option (\<lambda>x. r\<lparr> tol_Effect := x \<rparr>) (decode_string v (tol_Effect r))
      else map_option (\<lambda>x. r\<lparr> tol_Seconds := x \<rparr>) (decode_int_ptr v (tol_Seconds r)))"

definition zero_toleration :: Toleration where
  "zero_toleration = \<lparr> tol_Key = [], tol_Operator = [], tol_Value = [], tol_Effect = [], tol_Seconds = None \<rparr>"

text \<open>\<open>None\<close> is the error of a malformed value.\<close>

definition parseTolerations :: "string \<Rightarrow> Toleration list option" where
  "parseTolerations raw =
     (if raw = [] then Some []
      else case json_Unmarshal raw of
             None \<Rightarrow> None
           | Some j \<Rightarrow>
               decode_slice (decode_struct [''key'', ''operator'', ''value'', ''effect'', ''tolerationSeconds''] put_toleration)
                 zero_toleration j [])"

text \<open>\<open>None\<close>: the operator exits because the tolerations are malformed.\<close>

definition newRunnerPoolReconciler ::
  "environ \<Rightarrow> 'k kubeClient \<Rightarrow> 'k kubeLib \<Rightarrow> 'k RunnerPoolReconciler option" where
  "newRunnerPoolReconciler env c lib =
     (case parseTolerations (Getenv env ''SP_RUNNER_TOLERATIONS'') of
        None \<Rightarrow> None
      | Some tols \<Rightarrow>
          Some \<lparr> rc_Client = c, rc_Lib = lib, rc_RunnerEnv = runnerEnv env,
                 rc_RunnerServiceAccount = runnerServiceAccount env, rc_RunnerTolerations = tols \<rparr>)"

section \<open>Properties\<close>

lemma apply_migrations_prefix:
  "apply_migrations px f pool dir xs = (res, execd) \<Longrightarrow>
     \<exists>n. map (\<lambda>x. fs_ReadFile f (dir @ ''/'' @ x)) (take n xs) = map Inr execd \<and> length execd = n \<and>
         (res = Inr () \<longleftrightarrow> n = length xs) \<and> (\<forall>sql \<in> set execd. px_Exec px pool sql = Inr ())"
proof (induction xs arbitrary: res execd)
  case (Cons x xs)
  show ?case
  proof (cases "\<exists>sql. fs_ReadFile f (dir @ ''/'' @ x) = Inr sql \<and> px_Exec px pool sql = Inr ()")
    case True
    then obtain sql where sql: "fs_ReadFile f (dir @ ''/'' @ x) = Inr sql" "px_Exec px pool sql = Inr ()" by blast
    obtain res' execd' where rest: "apply_migrations px f pool dir xs = (res', execd')" by fastforce
    with Cons.prems sql have "res = res'" "execd = sql # execd'" by auto
    with Cons.IH [OF rest] sql show ?thesis by (auto intro!: exI [of _ "Suc (length execd')"])
  next
    case False
    with Cons.prems have "res \<noteq> Inr ()" "execd = []" by (auto split: sum.splits)
    then show ?thesis by (intro exI [of _ 0]) auto
  qed
qed simp

text \<open>
  Migrations run in order and stop at the first failure: the scripts executed are those of a
  prefix of the directory's \<open>.sql\<close> files in lexical order, and the whole list exactly when
  \<open>Migrate\<close> returns without error; an empty directory is an error.
\<close>

lemma Migrate_runs_prefix:
  assumes "fs_ReadDir f dir = Inr entries"
  shows "\<exists>n. map (\<lambda>x. fs_ReadFile f (dir @ ''/'' @ x)) (take n (migration_files entries)) =
        map Inr (snd (Migrate px f pool dir)) \<and>
      length (snd (Migrate px f pool dir)) = n \<and>
      (fst (Migrate px f pool dir) = Inr () \<longleftrightarrow> n = length (migration_files entries) \<and> n \<noteq> 0) \<and>
      sorted (migration_files entries) \<and>
      (\<forall>x. x \<in> set (migration_files entries) \<longleftrightarrow> (x, False) \<in> set entries \<and> filepath_Ext x = ''.sql'')"
proof -
  obtain res execd where m: "apply_migrations px f pool dir (migration_files entries) = (res, execd)" by fastforce
  have "sorted (migration_files entries)"
    "\<forall>x. x \<in> set (migration_files entries) \<longleftrightarrow> (x, False) \<in> set entries \<and> filepath_Ext x = ''.sql''"
    by (force simp: migration_files_def image_iff)+
  with apply_migrations_prefix [OF m] assms m show ?thesis
    by (cases "migration_files entries = []") (auto simp: Migrate_def Let_def)
qed

lemma storage_New_expiry: "storage_New mio c = Inr p \<Longrightarrow> expiry p = (if sc_Expiry c \<le> 0 then 5 * Minute else sc_Expiry c)"
  by (auto simp: storage_New_def Let_def split: sum.splits)

lemma LoadConfig_expiry_range:
  "0 < PresignExpiry (LoadConfig env) \<and> PresignExpiry (LoadConfig env) \<le> 15 * Minute"
  by (simp add: LoadConfig_def Let_def Minute_def Second_def)

text \<open>
  C38. The apiserver as \<open>main\<close> starts it: it serves only with a database URL, a reachable database and
  all migrations applied; presigning is configured exactly when an S3 access key or a web
  identity is, and then links live at most 15 minutes, whatever the environment says, so that the
  \<open>expiresIn\<close> an upload reports is between 0 and 900 seconds.
\<close>

theorem apiserver_main_serves:
  assumes "apiserver_main px f mio environ e isPrint flt = Serve addr s"
  shows "DatabaseURL (LoadConfig environ) \<noteq> [] \<and>
    (\<exists>pool p. fst (store_New px (DatabaseURL (LoadConfig environ))) = Inr pool \<and>
       fst (Migrate px f pool (ResolveMigrationsDir environ f)) = Inr () \<and>
       s = apiServer e mio p (LoadConfig environ) isPrint flt \<and>
       (p \<noteq> None \<longleftrightarrow> S3AccessKey (LoadConfig environ) \<noteq> [] \<or> Getenv environ ''AWS_WEB_IDENTITY_TOKEN_FILE'' \<noteq> [])) \<and>
    (\<forall>pc. sv_presigner s = Some pc \<longrightarrow>
       0 < pc_ExpiresIn pc \<and> pc_ExpiresIn pc \<le> 15 * Minute \<and>
       0 \<le> seconds (pc_ExpiresIn pc) \<and> seconds (pc_ExpiresIn pc) \<le> 900)"
proof -
  let ?cfg = "LoadConfig environ"
  from assms obtain pool p where
    1: "DatabaseURL ?cfg \<noteq> []" "fst (store_New px (DatabaseURL ?cfg)) = Inr pool"
      "fst (Migrate px f pool (ResolveMigrationsDir environ f)) = Inr ()"
      "main_presigner mio environ ?cfg = Inr p" "s = apiServer e mio p ?cfg isPrint flt"
    by (auto simp: apiserver_main_def Let_def split: if_splits sum.splits)
  have some: "p \<noteq> None \<longleftrightarrow> S3AccessKey ?cfg \<noteq> [] \<or> Getenv environ ''AWS_WEB_IDENTITY_TOKEN_FILE'' \<noteq> []"
    using 1(4) by (auto simp: main_presigner_def split: if_splits sum.splits)
  have "expiry q = PresignExpiry ?cfg" if "p = Some q" for q
    using 1(4) that storage_New_expiry [of mio _ q] LoadConfig_expiry_range [of environ]
    by (auto simp: main_presigner_def split: if_splits sum.splits)
  then have ex: "0 < pc_ExpiresIn pc \<and> pc_ExpiresIn pc \<le> 15 * Minute" if "sv_presigner s = Some pc" for pc
    using that 1(5) LoadConfig_expiry_range [of environ]
    by (auto simp: NewPresignerAdapter_def PresignerAdapter_def ExpiresIn_def)
  have "0 \<le> seconds d \<and> seconds d \<le> 900" if "0 < d" "d \<le> 15 * Minute" for d
    using that zdiv_mono1 [of d "15 * Minute" Second] by (simp add: seconds_def Minute_def Second_def)
  with 1 some ex show ?thesis by blast
qed

lemma map_of_env_vars:
  "distinct ks \<Longrightarrow>
   map_of (rev (map (\<lambda>v. (ev_Name v, ev_Value v))
     (List.map_filter (\<lambda>k. map_option (\<lambda>v. \<lparr> ev_Name = k, ev_Value = v, ev_FieldPath = None \<rparr>) (env k)) ks))) k =
   (if k \<in> set ks then env k else None)"
proof (induction ks)
  case (Cons x ks)
  then show ?case by (cases "env x") (auto simp: List.map_filter_simps map_add_def split: option.splits)
qed (simp add: List.map_filter_simps)

lemma runnerEnv_keys_distinct: "distinct runnerEnv_keys"
  by (simp add: runnerEnv_keys_def)

lemma pool_keys_not_base: "\<forall>k \<in> set runnerEnv_keys. k \<notin> {''SP_ENGINE_VERSION'', ''SP_PER_USER_CAP'', ''SP_RUNNER_ID''}"
  by (simp add: runnerEnv_keys_def)

text \<open>
  What the operator reads from its environment reaches the pods: the reconciler built by
  \<open>newRunnerPoolReconciler\<close> puts exactly the parsed tolerations and the configured service account
  into the template, passes every set variable of the base list on with its value, and a pool's
  own version and cap win over them; with malformed tolerations there is no reconciler at all.
\<close>

lemma operator_env_reaches_pods:
  "(case newRunnerPoolReconciler env c lib of
      None \<Rightarrow> parseTolerations (Getenv env ''SP_RUNNER_TOLERATIONS'') = None
    | Some r \<Rightarrow>
        parseTolerations (Getenv env ''SP_RUNNER_TOLERATIONS'') =
          Some (pt_Tolerations (desired_template r pool cpuQ memQ)) \<and>
        pt_ServiceAccountName (desired_template r pool cpuQ memQ) = Getenv env ''SP_RUNNER_SERVICE_ACCOUNT'' \<and>
        (\<forall>k \<in> set runnerEnv_keys.
           map_of (rev (map (\<lambda>v. (ev_Name v, ev_Value v)) (runner_env r pool))) k = env k) \<and>
        map_of (rev (map (\<lambda>v. (ev_Name v, ev_Value v)) (runner_env r pool))) ''SP_ENGINE_VERSION'' =
          Some (rps_EngineVersion (rp_Spec pool)))"
proof -
  have base: "map_of (rev (map (\<lambda>v. (ev_Name v, ev_Value v)) (runnerEnv env))) k = env k"
    if "k \<in> set runnerEnv_keys" for k
    using map_of_env_vars [OF runnerEnv_keys_distinct, of env k] that by (simp add: runnerEnv_def)
  show ?thesis
  proof (cases "parseTolerations (Getenv env ''SP_RUNNER_TOLERATIONS'')")
    case (Some tols)
    let ?r = "\<lparr> rc_Client = c, rc_Lib = lib, rc_RunnerEnv = runnerEnv env,
      rc_RunnerServiceAccount = runnerServiceAccount env, rc_RunnerTolerations = tols \<rparr>"
    have "map_of (rev (map (\<lambda>v. (ev_Name v, ev_Value v)) (runner_env ?r pool))) k = env k"
      if "k \<in> set runnerEnv_keys" for k
      using base [OF that] pool_keys_not_base that by (auto simp: runner_env_def)
    with Some show ?thesis
      by (simp add: newRunnerPoolReconciler_def desired_template_def runner_env_def runnerServiceAccount_def)
  qed (simp add: newRunnerPoolReconciler_def)
qed

end
