(* ===== verification/Apiserver.thy ===== *)
theory Apiserver
  imports Boot
begin

text \<open>
  The running apiserver: HTTP requests, ticks of the reaper and goroutines of the expander, one
  after the other in any order, each of them interleaved statement by statement with the other
  participants of the database; and the life of the process around them, with shutdown, crashes
  and restarts (the end of \<open>cmd/apiserver/main.go\<close>). What holds in every world reached this way
  follows from the preservation lemmas of the components.
\<close>

section \<open>Events while the process runs\<close>

datatype event = Http request | ReaperTick | Background

definition handle_event :: "chi \<Rightarrow> world Server \<Rightarrow> env \<Rightarrow> event \<Rightarrow> world \<Rightarrow> world" where
  "handle_event chi s e ev w =
     (case ev of
        Http r \<Rightarrow> snd (Router chi s r w)
      | ReaperTick \<Rightarrow> snd (reaper_tick e w)
      | Background \<Rightarrow> snd (run_job (pgExpander e) w))"

definition boot_world :: world where
  "boot_world = \<lparr> w_db = empty_db, w_tick = 0, w_jobs = [] \<rparr>"

lemma boot_world_inv: "env_ok e \<Longrightarrow> world_inv e boot_world"
  using reachable_inv [OF reachable_init] by (simp add: world_inv_def boot_world_def users_canon_def empty_db_def)

interpretation apiserver: labelled_invariant boot_world "handle_event chi (apiServer e mio p cfg isPrint flt) e"
    "\<lambda>w. env_ok e \<longrightarrow> world_inv e w" for chi e mio p cfg isPrint flt
proof
  fix w ev assume w: "env_ok e \<longrightarrow> world_inv e w"
  show "env_ok e \<longrightarrow> world_inv e (handle_event chi (apiServer e mio p cfg isPrint flt) e ev w)"
  proof
    assume "env_ok e"
    with w have "world_inv e w" by simp
    then show "world_inv e (handle_event chi (apiServer e mio p cfg isPrint flt) e ev w)"
      by (cases ev) (simp_all add: handle_event_def api.Router_keeps run_job_keeps reaper_tick_keeps)
  qed
qed (simp add: boot_world_inv)

section \<open>The process\<close>

text \<open>
  \<open>main\<close> listens until the context is done: a signal, or the listener failing and calling \<open>stop\<close>.
  From then on the reaper has returned and no connection is accepted, while requests in flight and
  background goroutines go on until \<open>Shutdown\<close> returns and with it \<open>main\<close>; goroutines that are
  still waiting are lost with the process. A request or a goroutine that is cut off in the middle
  is one whose remaining statements never reach the server. A crash ends the process from any
  phase. Whatever started it runs it again; the migrations find the schema in place, and the
  database is what the last process left.
\<close>

datatype proc_phase = Listening | Draining | Exited

record process =
  pr_phase :: proc_phase
  pr_world :: world

datatype proc_event = Accept request | Reap | Goroutine | Stop | ShutdownReturns | Crash | Restart

definition proc_step :: "chi \<Rightarrow> world Server \<Rightarrow> env \<Rightarrow> proc_event \<Rightarrow> process \<Rightarrow> process" where
  "proc_step chi s e ev pr =
     (let w = pr_world pr;
          exited = pr\<lparr> pr_phase := Exited, pr_world := w\<lparr> w_jobs := [] \<rparr> \<rparr>
      in case ev of
           Accept r \<Rightarrow> if pr_phase pr = Listening then pr\<lparr> pr_world := handle_event chi s e (Http r) w \<rparr> else pr
         | Reap \<Rightarrow> if pr_phase pr = Listening then pr\<lparr> pr_world := handle_event chi s e ReaperTick w \<rparr> else pr
         | Goroutine \<Rightarrow> if pr_phase pr \<noteq> Exited then pr\<lparr> pr_world := handle_event chi s e Background w \<rparr> else pr
         | Stop \<Rightarrow> if pr_phase pr = Listening then pr\<lparr> pr_phase := Draining \<rparr> else pr
         | ShutdownReturns \<Rightarrow> if pr_phase pr = Draining then exited else pr
         | Crash \<Rightarrow> exited
         | Restart \<Rightarrow> if pr_phase pr = Exited then pr\<lparr> pr_phase := Listening \<rparr> else pr)"

definition first_boot :: process where
  "first_boot = \<lparr> pr_phase = Listening, pr_world = boot_world \<rparr>"

definition serve :: "chi \<Rightarrow> world Server \<Rightarrow> env \<Rightarrow> proc_event list \<Rightarrow> process" where
  "serve chi s e evs = fold (proc_step chi s e) evs first_boot"

definition proc_inv :: "env \<Rightarrow> process \<Rightarrow> bool" where
  "proc_inv e pr \<longleftrightarrow> (env_ok e \<longrightarrow> world_inv e (pr_world pr)) \<and> (pr_phase pr = Exited \<longrightarrow> w_jobs (pr_world pr) = [])"

lemma world_inv_jobs: "world_inv e w \<Longrightarrow> world_inv e (w\<lparr> w_jobs := [] \<rparr>)"
  by (simp add: world_inv_def)

interpretation proc: labelled_invariant first_boot "proc_step chi (apiServer e mio p cfg isPrint flt) e"
    "proc_inv e" for chi e mio p cfg isPrint flt
proof
  fix pr ev assume pr: "proc_inv e pr"
  show "proc_inv e (proc_step chi (apiServer e mio p cfg isPrint flt) e ev pr)"
    using pr apiserver.inv_step [of e "pr_world pr"]
    by (cases ev) (auto simp: proc_step_def proc_inv_def Let_def world_inv_jobs)
qed (simp add: proc_inv_def first_boot_def boot_world_inv)

text \<open>
  C1. However long the apiserver runs, whatever requests it receives, whenever the reaper ticks and the
  expander's goroutines are scheduled, however often it is stopped, crashes and is started again,
  whatever runners and the portal commit between any two of its statements, and whichever
  statements fail, each statement with its triggers taken as one step: every batch row carries the
  true counts and state of its simulations, every simulation of a batch belongs to the batch's user,
  every pending expansion is for a batch of its own user, and a process that has ended has none
  pending.
\<close>

theorem serving_keeps_database_consistent:
  assumes "env_ok e" and "pr = serve chi (apiServer e mio p cfg isPrint flt) e evs" and "w = pr_world pr"
  shows "(\<forall>b \<in> set (batches (w_db w)). counts_exact (w_db w) b) \<and>
    (\<forall>s \<in> set (simulations (w_db w)). \<forall>b \<in> set (batches (w_db w)).
       s_batch_id s = Some (b_id b) \<longrightarrow> s_user_id s = b_user_id b) \<and>
    (\<forall>j \<in> set (w_jobs w). \<exists>b \<in> set (batches (w_db w)).
       e_uuid_in e (sp_BatchID j) = Some (b_id b) \<and> b_user_id b = sp_UserID j) \<and>
    (pr_phase pr = Exited \<longrightarrow> w_jobs w = [])"
proof -
  have proc: "proc_inv e pr"
    using proc.inv_run_init [of e chi mio p cfg isPrint flt evs] assms(2) by (simp add: serve_def)
  with assms have inv: "world_inv e w" by (simp add: proc_inv_def)
  then have db: "db_inv (w_db w)" by (simp add: world_inv_def)
  have "s_user_id s = b_user_id b"
    if s: "s \<in> set (simulations (w_db w))" and b: "b \<in> set (batches (w_db w))" and sb: "s_batch_id s = Some (b_id b)" for s b
    using db_inv_same_owner [OF db s b sb] .
  with inv db db_inv_counts_exact [OF db] proc assms(3) show ?thesis
    unfolding world_inv_def owns_batch_def proc_inv_def by blast
qed


end
