(* ===== verification/ApiTypes.thy ===== *)
theory ApiTypes
  imports Handlers
begin

text \<open>
  The shape of what the server answers: which status codes occur, that a JSON body is an object
  the encoder can write with every number a JSON number, and that the error envelope
  \<open>{"error": ...}\<close> is sent with the error codes and only with them. Nothing is assumed of the store
  or the presigner.
\<close>

section \<open>Well-typed responses\<close>

definition error_body :: "json \<Rightarrow> bool" where
  "error_body v \<longleftrightarrow> (\<exists>m. v = JObj [(''error'', JStr m)])"

definition response_ok :: "response \<Rightarrow> bool" where
  "response_ok rs \<longleftrightarrow>
     (case rs_Body rs of
        BText t \<Rightarrow> rs_Status rs \<in> {200, 404, 405}
      | BJson v \<Rightarrow>
          rs_Status rs \<in> {200, 201, 202, 400, 401, 404, 500, 503} \<and>
          json_ok (maxNestingDepth + 2) v \<and> (\<exists>ms. v = JObj ms) \<and> (400 \<le> rs_Status rs \<longleftrightarrow> error_body v))"

lemma response_ok_error [simp]: "n \<in> {400, 401, 404, 500, 503} \<Longrightarrow> response_ok (writeError n m)"
  by (auto simp: response_ok_def writeError_def writeJSON_def json_map_def error_body_def)

lemma response_ok_object:
  assumes "n \<in> {200, 201, 202}" "\<And>k v. (k, v) \<in> set ms \<Longrightarrow> json_ok (Suc maxNestingDepth) v" "\<exists>x \<in> set ms. fst x \<noteq> ''error''"
  shows "response_ok (writeJSON n (JObj ms))"
  using assms by (auto simp: response_ok_def writeJSON_def error_body_def)

lemma response_ok_map:
  assumes "n \<in> {200, 201, 202}" "\<And>k v. (k, v) \<in> set ms \<Longrightarrow> json_ok (Suc maxNestingDepth) v" "\<exists>x \<in> set ms. fst x \<noteq> ''error''"
  shows "response_ok (writeJSON n (json_map ms))"
  unfolding json_map_def by (rule response_ok_object) (use assms in auto)

section \<open>Payloads\<close>

lemma json_ok_JInt [simp]: "json_ok d (JInt i)"
  by (simp add: JInt_def)

lemma json_ok_mono: "json_ok d v \<Longrightarrow> d \<le> d' \<Longrightarrow> json_ok d' v"
proof (induction v arbitrary: d d')
  case (JArr vs)
  then show ?case by (auto intro: JArr.IH [of _ "d - 1"])
next
  case (JObj ms)
  then show ?case by (auto intro: JObj.IH [of _ _ "d - 1"] split: prod.splits)
qed simp_all

lemma json_ok_map: "json_ok d (json_map ms) \<longleftrightarrow> 0 < d \<and> (\<forall>(k, v) \<in> set ms. json_ok (d - 1) v)"
  by (simp add: json_map_def)

lemma json_ok_any:
  assumes "\<And>l t. flt l = Some t \<Longrightarrow> number_ok t" "json_nests d v"
  shows "json_ok d (json_any flt v)"
  using assms(2)
proof (induction v arbitrary: d)
  case (JObj ms)
  then show ?case by fastforce
qed (auto simp: assms(1) split: option.splits)

lemma json_ok_payload:
  assumes "\<And>l t. sv_float s l = Some t \<Longrightarrow> number_ok t"
  shows "json_ok (Suc maxNestingDepth) (resultPayload s res)"
  using json_ok_any [OF assms]
  by (auto simp: resultPayload_def json_ok_map maxNestingDepth_def split: option.splits)

lemma json_ok_sim_item: "json_ok (Suc (Suc d)) (sim_item sim)"
  by (auto simp: sim_item_def json_ok_map error_field_def split: option.splits)

section \<open>Handlers\<close>

lemma with_own_sim_ok:
  assumes "\<And>sim w1. response_ok (fst (k sim w1))"
  shows "response_ok (fst (with_own_sim s sid uid k w))"
  using assms by (auto simp: with_own_sim_def split: prod.splits sum.splits error.splits)

lemma with_own_batch_ok:
  assumes "\<And>b w1. response_ok (fst (k b w1))"
  shows "response_ok (fst (with_own_batch s bid uid k w))"
  using assms by (auto simp: with_own_batch_def split: prod.splits sum.splits error.splits)

lemma with_result_ok:
  assumes "\<And>h res w1. response_ok (fst (k h res w1))"
  shows "response_ok (fst (with_result s sim k w))"
  using assms by (auto simp: with_result_def split: option.splits prod.splits sum.splits error.splits)

lemma create_simulation_ok: "response_ok (fst (handleCreateSimulation s r w))"
  by (auto simp: handleCreateSimulation_def intro!: response_ok_map split: option.splits prod.splits sum.splits)

lemma accepted_ok: "response_ok (accepted b st)"
  unfolding accepted_def by (rule response_ok_map) auto

lemma create_batch_ok: "response_ok (fst (handleCreateBatch s r w))"
  by (auto simp: handleCreateBatch_def submit_batch_def Let_def accepted_ok
      split: option.splits prod.splits sum.splits error.splits)

lemma get_batch_ok: "response_ok (fst (handleGetBatch s r w))"
  unfolding handleGetBatch_def by (rule with_own_batch_ok) (auto intro!: response_ok_map)

lemma list_batch_simulations_ok: "response_ok (fst (handleListBatchSimulations s r w))"
proof -
  have items: "json_ok (Suc maxNestingDepth) (JArr (map sim_item sims))" for sims
    using json_ok_sim_item [of "maxNestingDepth - 2"] by (auto simp: maxNestingDepth_def)
  show ?thesis
    unfolding handleListBatchSimulations_def Let_def
    by (auto intro!: with_own_batch_ok response_ok_map items split: prod.splits sum.splits)
qed

lemma get_simulation_ok:
  assumes "\<And>l t. sv_float s l = Some t \<Longrightarrow> number_ok t"
  shows "response_ok (fst (handleGetSimulation s r w))"
  unfolding handleGetSimulation_def
  by (rule with_own_sim_ok)
    (auto simp: Let_def error_field_def json_ok_payload [OF assms] intro!: response_ok_map split: option.splits prod.splits sum.splits)

lemma get_result_ok:
  assumes "\<And>l t. sv_float s l = Some t \<Longrightarrow> number_ok t"
  shows "response_ok (fst (handleGetResult s r w))"
proof -
  have "response_ok (writeJSON 200 (resultPayload s res))" for res
    unfolding resultPayload_def
    using json_ok_any [OF assms, where flt = "sv_float s", THEN json_ok_mono]
    by (intro response_ok_map) (auto simp: maxNestingDepth_def split: option.splits)
  then show ?thesis unfolding handleGetResult_def by (intro with_own_sim_ok with_result_ok) simp
qed

lemma create_upload_ok: "response_ok (fst (handleCreateUpload s r w))"
  by (auto simp: handleCreateUpload_def Let_def intro!: response_ok_object split: option.splits prod.splits sum.splits)

lemma presign_objects_ok:
  "presign_objects pc b p objs w = (Inr es, w') \<Longrightarrow> e \<in> set es \<Longrightarrow> json_ok maxNestingDepth e"
  by (induction objs arbitrary: w es)
    (auto simp: artifact_entry_def maxNestingDepth_def split: prod.splits sum.splits if_splits)

lemma list_artifacts_ok: "response_ok (fst (handleListArtifacts s r w))"
proof -
  have "response_ok (fst (list_artifacts s pc hash res w1))" for pc hash res w1
    by (auto simp: list_artifacts_def intro!: response_ok_object dest: presign_objects_ok split: prod.splits sum.splits)
  then show ?thesis
    by (auto simp: handleListArtifacts_def intro!: with_own_sim_ok with_result_ok split: option.splits)
qed

lemma serve_routes_ok:
  assumes "\<And>h r w. h \<in> set hs \<Longrightarrow> response_ok (fst (h r w))"
  shows "response_ok (fst (serve_routes chi routes hs r w))"
  using assms by (auto simp: serve_routes_def response_ok_def split: chi_result.splits)


end
