(* ===== verification/ApiWire.thy ===== *)
theory ApiWire
  imports ApiTypes
begin

text \<open>
  The request types on the wire: what \<open>encoding/json\<close> writes for each of them by their field tags
  (\<open>omitempty\<close> included), and that the handlers read exactly the request back from those bytes.
\<close>

section \<open>Requests as JSON\<close>

definition opt_string :: "string \<Rightarrow> string \<Rightarrow> (string \<times> json) list" where
  "opt_string name s = (if s = [] then [] else [(name, JStr s)])"

definition opt_int :: "string \<Rightarrow> int option \<Rightarrow> (string \<times> json) list" where
  "opt_int name v = (case v of None \<Rightarrow> [] | Some i \<Rightarrow> [(name, JInt i)])"

definition opt_raw :: "string \<Rightarrow> json option \<Rightarrow> (string \<times> json) list" where
  "opt_raw name v = (case v of None \<Rightarrow> [] | Some j \<Rightarrow> [(name, j)])"

definition encode_ref :: "artifactRef \<Rightarrow> json" where
  "encode_ref r = JObj ((''ref'', JStr (ar_Ref r)) # opt_string ''sha256'' (ar_SHA256 r))"

definition encode_sim :: "createSimulationRequest \<Rightarrow> json" where
  "encode_sim q =
     JObj ([(''engineVersion'', JStr (cs_EngineVersion q)), (''model'', encode_ref (cs_Model q)),
            (''weather'', encode_ref (cs_Weather q))] @
           opt_int ''priority'' (cs_Priority q) @ opt_raw ''extractionSpec'' (cs_ExtractionSpec q))"

definition encode_variant :: "variantRequest \<Rightarrow> json" where
  "encode_variant v = JObj ((''model'', encode_ref (vr_Model v)) # opt_string ''name'' (vr_Name v))"

definition encode_batch :: "createBatchRequest \<Rightarrow> json" where
  "encode_batch q =
     JObj ([(''engineVersion'', JStr (cb_EngineVersion q)), (''weather'', encode_ref (cb_Weather q)),
            (''variants'', JArr (map encode_variant (cb_Variants q)))] @
           opt_int ''priority'' (cb_Priority q) @ opt_int ''maxParallelism'' (cb_MaxParallelism q) @
           opt_string ''idempotencyKey'' (cb_IdempotencyKey q) @ opt_raw ''extractionSpec'' (cb_ExtractionSpec q))"

definition encode_upload :: "createUploadRequest \<Rightarrow> json" where
  "encode_upload q =
     JObj ([(''kind'', JStr (cu_Kind q)), (''filename'', JStr (cu_Filename q))] @ opt_string ''sha256'' (cu_SHA256 q))"

section \<open>Requests that survive the wire\<close>

text \<open>
  Strings are UTF-8, integers fit the \<open>int\<close> they are decoded into, an extraction spec is itself a
  value the encoder can write, one level below the request.
\<close>

definition text_ok :: "string \<Rightarrow> bool" where
  "text_ok s \<longleftrightarrow> list_all rune_valid (runes s)"

definition int_ok :: "int option \<Rightarrow> bool" where
  "int_ok v \<longleftrightarrow> (case v of None \<Rightarrow> True | Some i \<Rightarrow> MinInt64 \<le> i \<and> i \<le> MaxInt64)"

definition raw_ok :: "json option \<Rightarrow> bool" where
  "raw_ok v \<longleftrightarrow> (case v of None \<Rightarrow> True | Some j \<Rightarrow> json_ok (maxNestingDepth - 1) j \<and> json_utf8 j = j)"

definition ref_ok :: "artifactRef \<Rightarrow> bool" where
  "ref_ok r \<longleftrightarrow> text_ok (ar_Ref r) \<and> text_ok (ar_SHA256 r)"

definition sim_ok :: "createSimulationRequest \<Rightarrow> bool" where
  "sim_ok q \<longleftrightarrow> text_ok (cs_EngineVersion q) \<and> ref_ok (cs_Model q) \<and> ref_ok (cs_Weather q) \<and>
     int_ok (cs_Priority q) \<and> raw_ok (cs_ExtractionSpec q)"

definition batch_ok :: "createBatchRequest \<Rightarrow> bool" where
  "batch_ok q \<longleftrightarrow> text_ok (cb_EngineVersion q) \<and> ref_ok (cb_Weather q) \<and>
     list_all (\<lambda>v. ref_ok (vr_Model v) \<and> text_ok (vr_Name v)) (cb_Variants q) \<and> int_ok (cb_Priority q) \<and>
     int_ok (cb_MaxParallelism q) \<and> text_ok (cb_IdempotencyKey q) \<and> raw_ok (cb_ExtractionSpec q)"

definition upload_ok :: "createUploadRequest \<Rightarrow> bool" where
  "upload_ok q \<longleftrightarrow> text_ok (cu_Kind q) \<and> text_ok (cu_Filename q) \<and> text_ok (cu_SHA256 q)"

lemma text_ok_fix [simp]: "text_ok s \<Longrightarrow> fix_utf8 s = s"
  by (simp add: text_ok_def fix_utf8_valid)

lemma runes_ascii: "list_all (\<lambda>c. byte c < 128) s \<Longrightarrow> runes s = map (\<lambda>c. [c]) s"
proof (induction s)
  case Nil
  show ?case by (simp add: runes.simps)
next
  case (Cons c s)
  then have "rune_width (c # s) = 1" by (simp add: rune_width_def)
  with Cons show ?case by (subst runes.simps) simp
qed

lemma text_ok_ascii: "list_all (\<lambda>c. byte c < 128) s \<Longrightarrow> text_ok s"
  by (simp add: text_ok_def runes_ascii list_all_iff rune_valid_def)

text \<open>The encoder's object of a request: within the limits, and unchanged by the repair of UTF-8.\<close>

definition wire_ok :: "nat \<Rightarrow> json \<Rightarrow> bool" where
  "wire_ok d v \<longleftrightarrow> json_ok d v \<and> json_utf8 v = v"

lemma wire_ok_JStr: "text_ok s \<Longrightarrow> wire_ok d (JStr s)"
  by (simp add: wire_ok_def)

lemma wire_ok_JArr: "(\<And>v. v \<in> set vs \<Longrightarrow> wire_ok d v) \<Longrightarrow> wire_ok (Suc d) (JArr vs)"
  by (simp add: wire_ok_def map_idI)

lemma wire_ok_JObj:
  assumes "\<And>k v. (k, v) \<in> set ms \<Longrightarrow> list_all (\<lambda>c. byte c < 128) k \<and> wire_ok d v"
  shows "wire_ok (Suc d) (JObj ms)"
  using assms by (fastforce simp: wire_ok_def text_ok_ascii intro!: map_idI)

lemma opt_members:
  "(k, v) \<in> set (opt_string name s) \<Longrightarrow> text_ok s \<Longrightarrow> k = name \<and> wire_ok d v"
  "(k, v) \<in> set (opt_int name i) \<Longrightarrow> k = name \<and> wire_ok d v"
  "(k, v) \<in> set (opt_raw name j) \<Longrightarrow> raw_ok j \<Longrightarrow> k = name \<and> wire_ok (maxNestingDepth - 1) v"
  by (auto simp: opt_string_def opt_int_def opt_raw_def raw_ok_def wire_ok_def JInt_def split: if_splits option.splits)

lemma wire_ok_ref: "ref_ok r \<Longrightarrow> wire_ok (Suc d) (encode_ref r)"
  unfolding encode_ref_def ref_ok_def
  by (rule wire_ok_JObj) (auto simp: byte_def wire_ok_JStr dest: opt_members)

lemma wire_ok_requests:
  "sim_ok q \<Longrightarrow> wire_ok maxNestingDepth (encode_sim q)"
  "batch_ok b \<Longrightarrow> wire_ok maxNestingDepth (encode_batch b)"
  "upload_ok u \<Longrightarrow> wire_ok maxNestingDepth (encode_upload u)"
proof -
  obtain n where n: "maxNestingDepth = Suc (Suc (Suc (Suc n)))" by (simp add: maxNestingDepth_def numeral_eq_Suc)
  have variant: "ref_ok (vr_Model v) \<Longrightarrow> text_ok (vr_Name v) \<Longrightarrow> wire_ok (Suc (Suc n)) (encode_variant v)" for v
    unfolding encode_variant_def by (rule wire_ok_JObj) (auto simp: byte_def wire_ok_ref dest: opt_members)
  have variants: "list_all (\<lambda>v. ref_ok (vr_Model v) \<and> text_ok (vr_Name v)) vs \<Longrightarrow>
      wire_ok (Suc (Suc (Suc n))) (JArr (map encode_variant vs))" for vs
    by (rule wire_ok_JArr) (auto simp: list_all_iff intro: variant)
  note raw = opt_members(3) [unfolded n, simplified]
  show "sim_ok q \<Longrightarrow> wire_ok maxNestingDepth (encode_sim q)"
    unfolding encode_sim_def sim_ok_def n
    by (rule wire_ok_JObj) (auto simp: byte_def wire_ok_JStr wire_ok_ref dest: opt_members(2) raw)
  show "batch_ok b \<Longrightarrow> wire_ok maxNestingDepth (encode_batch b)"
    unfolding encode_batch_def batch_ok_def n
    by (rule wire_ok_JObj)
      (auto simp: byte_def wire_ok_JStr wire_ok_ref variants dest: opt_members(1,2) raw)
  show "upload_ok u \<Longrightarrow> wire_ok maxNestingDepth (encode_upload u)"
    unfolding encode_upload_def upload_ok_def n
    by (rule wire_ok_JObj) (auto simp: byte_def wire_ok_JStr dest: opt_members(1))
qed

section \<open>Reading them back\<close>

lemma decode_members_append:
  "decode_members fs put (xs @ ys) r =
     (case decode_members fs put xs r of None \<Rightarrow> None | Some r' \<Rightarrow> decode_members fs put ys r')"
  by (induction fs put xs r rule: decode_members.induct) (auto split: option.splits)

lemmas decode_simps = decode_struct_def field_of_exact decode_members_append decode_string_def decode_int_ptr_def decode_raw_def
  opt_string_def opt_int_def opt_raw_def int_ok_def JInt_def Atoi_show_int

lemma decode_encode_ref: "decode_ref (encode_ref r) zero_ref = Some r"
  by (simp add: decode_ref_def encode_ref_def decode_simps put_ref_def zero_ref_def)

lemma decode_encode_variants: "decode_variants (JArr (map encode_variant vs)) [] = Some vs"
proof -
  have "decode_struct [''model'', ''name''] put_variant (encode_variant v) zero_variant = Some v" for v
    by (simp add: encode_variant_def decode_simps put_variant_def zero_variant_def decode_encode_ref)
  then show ?thesis by (simp add: decode_variants_def decode_slice_def decode_elems_map)
qed

lemma decode_encode_sim: "int_ok (cs_Priority q) \<Longrightarrow> decode_sim (encode_sim q) = Some q"
  by (cases "cs_Priority q"; cases "cs_ExtractionSpec q")
    (simp_all add: decode_sim_def encode_sim_def decode_simps put_sim_def decode_encode_ref)

lemma decode_encode_batch:
  "int_ok (cb_Priority q) \<Longrightarrow> int_ok (cb_MaxParallelism q) \<Longrightarrow> decode_batch (encode_batch q) = Some q"
  by (cases "cb_Priority q"; cases "cb_MaxParallelism q"; cases "cb_ExtractionSpec q"; cases "cb_IdempotencyKey q = []")
    (simp_all add: decode_batch_def encode_batch_def decode_simps put_batch_def decode_encode_ref decode_encode_variants)

lemma decode_encode_upload: "decode_upload (encode_upload q) = Some q"
  by (simp add: decode_upload_def encode_upload_def decode_simps put_upload_def)

lemma Decode_wire:
  "wire_ok maxNestingDepth v \<Longrightarrow> Decode dec (r\<lparr> rq_Body := json_Encode v @ rest \<rparr>) = dec v"
  by (simp add: Decode_def wire_ok_def json_Decode_Encode)


end
