(* ===== verification/JobBoard.thy ===== *)
theory JobBoard
  imports System
begin

text \<open>
  What the queue in Postgres is meant to be: a board of jobs and orders with no counters, locks,
  triggers or timestamps. A job waits, is held by a runner under a lease, or is finished; an order
  is a batch of a declared size, and its report (state and counts) is computed from the jobs when
  asked for. The database refines the board: every statement of every participant is one event of
  the board, and the columns the trigger and the sweep maintain are the report. The last section
  is the potential of a database, which bounds how much can still happen to its simulations.
\<close>

section \<open>The board\<close>

datatype phase = Waiting | Held string int | Finished bool

record job =
  j_id :: string
  j_user :: string
  j_order :: "string option"
  j_phase :: phase
  j_left :: int

record order =
  o_id :: string
  o_user :: string
  o_total :: int
  o_key :: "string option"

record board =
  jobs :: "job list"
  orders :: "order list"

definition empty_board :: board where
  "empty_board = \<lparr> jobs = [], orders = [] \<rparr>"

definition expire_job :: "int \<Rightarrow> job \<Rightarrow> job" where
  "expire_job t j =
     (case j_phase j of
        Held r l \<Rightarrow>
          if l < t then j\<lparr> j_phase := (if 0 < j_left j then Waiting else Finished False) \<rparr> else j
      | _ \<Rightarrow> j)"

datatype board_event =
    Take string
  | Renew string string
  | Finish string string bool
  | Expire int
  | Submit
  | Open
  | Quiet

definition held_by :: "string \<Rightarrow> string \<Rightarrow> job \<Rightarrow> bool" where
  "held_by k r j \<longleftrightarrow> j_id j = k \<and> (\<exists>l. j_phase j = Held r l)"

text \<open>
  Taking may find nothing to take, submitting and opening may be refused. Renewing and finishing
  have their effect exactly when the runner holds the job, and expiry is a function of the time.
\<close>

inductive board_step :: "board_event \<Rightarrow> board \<Rightarrow> board \<Rightarrow> bool" where
  quiet: "board_step Quiet B B"
| refuse: "e = Take r \<or> e = Submit \<or> e = Open \<Longrightarrow> board_step e B B"
| take: "i < length (jobs B) \<Longrightarrow> j_phase (jobs B ! i) = Waiting \<Longrightarrow> 0 < j_left (jobs B ! i) \<Longrightarrow>
    board_step (Take r) B
      (B\<lparr> jobs := (jobs B)[i := (jobs B ! i)\<lparr> j_phase := Held r l, j_left := j_left (jobs B ! i) - 1 \<rparr>] \<rparr>)"
| renew: "i < length (jobs B) \<Longrightarrow> held_by k r (jobs B ! i) \<Longrightarrow>
    board_step (Renew k r) B (B\<lparr> jobs := (jobs B)[i := (jobs B ! i)\<lparr> j_phase := Held r l \<rparr>] \<rparr>)"
| renew_fenced: "list_all (\<lambda>j. \<not> held_by k r j) (jobs B) \<Longrightarrow> board_step (Renew k r) B B"
| finish: "i < length (jobs B) \<Longrightarrow> held_by k r (jobs B ! i) \<Longrightarrow>
    board_step (Finish k r ok) B (B\<lparr> jobs := (jobs B)[i := (jobs B ! i)\<lparr> j_phase := Finished ok \<rparr>] \<rparr>)"
| finish_fenced: "list_all (\<lambda>j. \<not> held_by k r j) (jobs B) \<Longrightarrow> board_step (Finish k r ok) B B"
| expire: "board_step (Expire t) B (B\<lparr> jobs := map (expire_job t) (jobs B) \<rparr>)"
| submit: "j_phase j = Waiting \<or> j_phase j = Finished True \<Longrightarrow> 0 < j_left j \<Longrightarrow>
    j_id j \<notin> j_id ` set (jobs B) \<Longrightarrow>
    (\<And>b. j_order j = Some b \<Longrightarrow> \<exists>ord \<in> set (orders B). o_id ord = b \<and> o_user ord = j_user j) \<Longrightarrow>
    board_step Submit B (B\<lparr> jobs := jobs B @ [j] \<rparr>)"
| open_order: "0 < o_total ord \<Longrightarrow> o_id ord \<notin> o_id ` set (orders B) \<Longrightarrow>
    (o_key ord \<noteq> None \<Longrightarrow> (o_user ord, o_key ord) \<notin> (\<lambda>x. (o_user x, o_key x)) ` set (orders B)) \<Longrightarrow>
    board_step Open B (B\<lparr> orders := orders B @ [ord] \<rparr>)"

text \<open>The report of an order.\<close>

definition report :: "board \<Rightarrow> order \<Rightarrow> string \<times> int \<times> int" where
  "report B ord =
     (let mine = filter (\<lambda>j. j_order j = Some (o_id ord)) (jobs B);
          good = count_where (\<lambda>j. j_phase j = Finished True) mine;
          bad = count_where (\<lambda>j. j_phase j = Finished False) mine;
          held = count_where (\<lambda>j. j_phase j \<noteq> Waiting \<and> j_phase j \<noteq> Finished True \<and> j_phase j \<noteq> Finished False) mine
      in (if int (length mine) < o_total ord then ''expanding''
          else if o_total ord \<le> int (good + bad) then ''done''
          else if 0 < held then ''running'' else ''queued'',
          int good, int bad))"

section \<open>The database as a board\<close>

definition abs_phase :: "simulations_row \<Rightarrow> phase" where
  "abs_phase s =
     (if s_state s = ''queued'' then Waiting
      else if s_state s = ''running'' then
        Held (case s_runner_id s of Some r \<Rightarrow> r | None \<Rightarrow> []) (case s_lease_expires_at s of Some l \<Rightarrow> l | None \<Rightarrow> 0)
      else Finished (s_state s = ''succeeded''))"

definition abs_job :: "simulations_row \<Rightarrow> job" where
  "abs_job s =
     \<lparr> j_id = s_id s, j_user = s_user_id s, j_order = s_batch_id s, j_phase = abs_phase s,
       j_left = s_max_attempts s - s_attempts s \<rparr>"

definition abs_order :: "batches_row \<Rightarrow> order" where
  "abs_order b = \<lparr> o_id = b_id b, o_user = b_user_id b, o_total = b_total b, o_key = b_idempotency_key b \<rparr>"

definition abs_board :: "db \<Rightarrow> board" where
  "abs_board d = \<lparr> jobs = map abs_job (simulations d), orders = map abs_order (batches d) \<rparr>"

fun event_of :: "stmt_ctx \<times> action \<Rightarrow> board_event" where
  "event_of (x, AClaim runner ver cap lease locked) = Take runner"
| "event_of (x, ARenew sid runner lease) = Renew sid runner"
| "event_of (x, AFinish sid runner ok err) = Finish sid runner ok"
| "event_of (x, AReap) = Expire (x_now x)"
| "event_of (x, AInsert p fin) = Submit"
| "event_of (x, ACreate u n key) = Open"
| "event_of (x, a) = Quiet"

lemma abs_job_fields [simp]:
  "j_id (abs_job s) = s_id s" "j_user (abs_job s) = s_user_id s" "j_order (abs_job s) = s_batch_id s"
  "j_phase (abs_job s) = abs_phase s" "j_left (abs_job s) = s_max_attempts s - s_attempts s"
  by (simp_all add: abs_job_def)

lemma abs_order_fields [simp]:
  "o_id (abs_order b) = b_id b" "o_user (abs_order b) = b_user_id b" "o_total (abs_order b) = b_total b"
  "o_key (abs_order b) = b_idempotency_key b"
  by (simp_all add: abs_order_def)

lemma abs_board_fields [simp]:
  "jobs (abs_board d) = map abs_job (simulations d)" "orders (abs_board d) = map abs_order (batches d)"
  by (simp_all add: abs_board_def)

lemma abs_order_frame:
  assumes "map batch_frame bs = map batch_frame bs'"
  shows "map abs_order bs = map abs_order bs'"
proof -
  have frame: "map abs_order xs = map (\<lambda>(i, u, n, k). \<lparr> o_id = i, o_user = u, o_total = n, o_key = k \<rparr>) (map batch_frame xs)" for xs
    by (simp add: abs_order_def batch_frame_def)
  show ?thesis unfolding frame assms ..
qed

lemma abs_board_same:
  assumes "map abs_job (simulations d') = map abs_job (simulations d)"
    and "map batch_frame (batches d') = map batch_frame (batches d)"
  shows "abs_board d' = abs_board d"
  unfolding abs_board_def assms(1) abs_order_frame [OF assms(2)] ..

text \<open>A statement on one row, seen on the board.\<close>

lemma abs_board_jobs:
  assumes "simulations d' = (simulations d)[i := s']"
    and "map batch_frame (batches d') = map batch_frame (batches d)"
  shows "abs_board d' = (abs_board d)\<lparr> jobs := (jobs (abs_board d))[i := abs_job s'] \<rparr>"
  unfolding abs_board_def assms(1) abs_order_frame [OF assms(2)] by (simp add: map_update)

text \<open>An update of the one row with a given key is an update of one position.\<close>

lemma upd_where_nth:
  assumes "distinct (map key t)" and "i < length t" and "P (t ! i)"
    and "\<And>r. r \<in> set t \<Longrightarrow> P r \<Longrightarrow> key r = key (t ! i)"
  shows "upd_where P f t = t[i := f (t ! i)]"
proof (rule nth_equalityI)
  fix n assume "n < length (upd_where P f t)"
  then have n: "n < length t" by simp
  have "n = i" if "P (t ! n)"
    using nth_eq_iff_index_eq [OF assms(1), of n i] assms(2) assms(4) [OF nth_mem [OF n] that] n by simp
  then have "P (t ! n) \<longleftrightarrow> n = i" using assms(3) by blast
  with n assms(2) show "upd_where P f t ! n = t[i := f (t ! i)] ! n"
    by (auto simp: upd_where_def nth_list_update)
qed simp

section \<open>Every statement is an event of the board\<close>

lemma batch_frame_update_state_where [simp]:
  "map batch_frame (batches (update_state_where P f d)) = map batch_frame (batches d)"
  by (simp add: batches_update_state_where map_upd_where)

lemma row_index:
  assumes "s \<in> set t"
  obtains i where "i < length t" "t ! i = s"
  using assms by (auto simp: in_set_conv_nth)

lemma abs_phase_claim: "abs_job (claim_row r lease t s) =
    (abs_job s)\<lparr> j_phase := Held r (t + usec lease), j_left := j_left (abs_job s) - 1 \<rparr>"
  by (simp add: abs_job_def abs_phase_def claim_row_def)

lemma claim_event:
  assumes "db_inv d"
  shows "board_step (Take r) (abs_board d) (abs_board (snd (claim_simulation r ver cap lease locked t d)))"
proof (cases rule: claim_cases [where runner = r and ver = ver and cap = cap and lease = lease
      and locked = locked and t = t and d = d])
  case 1
  then show ?thesis by (simp add: board_step.refuse)
next
  case (2 s)
  obtain i where i: "i < length (simulations d)" "simulations d ! i = s" using 2(1) by (rule row_index)
  have ids: "distinct (map s_id (simulations d))" and ok: "lifecycle_ok s"
    using assms 2(1) by (auto simp: db_inv_def keys_ok_def)
  let ?d = "update_state_where (\<lambda>s'. s_id s' = s_id s) (claim_row r lease t) d"
  have upd: "simulations ?d = (simulations d)[i := claim_row r lease t s]"
    using upd_where_nth [OF ids i(1), of "\<lambda>s'. s_id s' = s_id s"] i(2) by simp
  have job: "i < length (jobs (abs_board d))" "jobs (abs_board d) ! i = abs_job s"
    using i by simp_all
  have "j_phase (abs_job s) = Waiting" "0 < j_left (abs_job s)"
    using 2(2) ok by (auto simp: eligible_def abs_phase_def lifecycle_ok_def)
  with board_step.take [OF job(1), of r "t + usec lease"] abs_board_jobs [of ?d d, OF upd] 2(4) job(2)
  show ?thesis by (simp add: abs_phase_claim)
qed

lemma held_by_owned:
  assumes "lifecycle_ok s"
  shows "held_by k r (abs_job s) \<longleftrightarrow> owned_by k r s"
  using assms by (auto simp: held_by_def owned_by_def abs_phase_def lifecycle_ok_def sim_states_def)

text \<open>Renewing and finishing: the fenced update of the one row the runner holds, or of none.\<close>

lemma owned_cases:
  assumes "db_inv d"
  obtains (none) "list_all (\<lambda>j. \<not> held_by k r j) (jobs (abs_board d))" "\<And>s. s \<in> set (simulations d) \<Longrightarrow> \<not> owned_by k r s"
  | (one) i where "i < length (simulations d)" "owned_by k r (simulations d ! i)" "held_by k r (jobs (abs_board d) ! i)"
      "\<And>f. upd_where (owned_by k r) f (simulations d) = (simulations d)[i := f (simulations d ! i)]"
proof (cases "\<exists>s \<in> set (simulations d). owned_by k r s")
  case False
  with assms show ?thesis
    by (intro none) (auto simp: list_all_iff db_inv_def held_by_owned)
next
  case True
  then obtain s where s: "s \<in> set (simulations d)" "owned_by k r s" by blast
  from s(1) obtain i where i: "i < length (simulations d)" "simulations d ! i = s" by (rule row_index)
  have "distinct (map s_id (simulations d))" using assms by (simp add: db_inv_def keys_ok_def)
  from upd_where_nth [OF this i(1), of "owned_by k r"] s(2) i
  have upd: "upd_where (owned_by k r) f (simulations d) = (simulations d)[i := f (simulations d ! i)]" for f
    by (auto simp: owned_by_def)
  show ?thesis
    by (rule one [OF i(1)]) (use s i upd assms in \<open>auto simp: held_by_owned db_inv_def\<close>)
qed

lemma renew_event:
  assumes "db_inv d"
  shows "board_step (Renew k r) (abs_board d) (abs_board (snd (renew_lease k r lease t d)))"
  using assms
proof (cases rule: owned_cases [where k = k and r = r])
  case none
  then have "snd (renew_lease k r lease t d) = d" by (simp add: renew_lease_def upd_where_none)
  with none(1) show ?thesis by (simp add: board_step.renew_fenced)
next
  case (one i)
  let ?f = "\<lambda>s. s\<lparr> s_lease_expires_at := Some (t + usec lease) \<rparr>" and ?d = "snd (renew_lease k r lease t d)"
  have "abs_board ?d = (abs_board d)\<lparr> jobs := (jobs (abs_board d))[i := abs_job (?f (simulations d ! i))] \<rparr>"
    by (rule abs_board_jobs) (simp_all add: renew_lease_def one(4))
  moreover have "abs_job (?f (simulations d ! i)) = (jobs (abs_board d) ! i)\<lparr> j_phase := Held r (t + usec lease) \<rparr>"
    using one(1,2) by (simp add: abs_job_def abs_phase_def owned_by_def)
  ultimately show ?thesis using one(1,3) board_step.renew [of i "abs_board d" k r "t + usec lease"] by simp
qed

lemma finish_event:
  assumes "db_inv d"
  shows "board_step (Finish k r ok) (abs_board d) (abs_board (snd (finish_simulation k r ok err t d)))"
  using assms
proof (cases rule: owned_cases [where k = k and r = r])
  case none
  then have "snd (finish_simulation k r ok err t d) = d" by (simp add: finish_simulation_def update_state_where_none)
  with none(1) show ?thesis by (simp add: board_step.finish_fenced)
next
  case (one i)
  let ?f = "finish_row ok err t" and ?d = "snd (finish_simulation k r ok err t d)"
  have "abs_board ?d = (abs_board d)\<lparr> jobs := (jobs (abs_board d))[i := abs_job (?f (simulations d ! i))] \<rparr>"
    by (rule abs_board_jobs) (simp_all add: finish_simulation_def one(4))
  moreover have "abs_job (?f (simulations d ! i)) = (jobs (abs_board d) ! i)\<lparr> j_phase := Finished ok \<rparr>"
    using one(1) by (simp add: abs_job_def abs_phase_def finish_row_def)
  ultimately show ?thesis using one(1,3) board_step.finish [of i "abs_board d" k r ok] by simp
qed

lemma reap_event:
  assumes "db_inv d"
  shows "board_step (Expire t) (abs_board d) (abs_board (snd (reap_expired_leases t d)))"
proof -
  let ?d = "snd (reap_expired_leases t d)"
  have row: "abs_job (if expired t s then reap_row t s else s) = expire_job t (abs_job s)" if "lifecycle_ok s" for s
    using that
    by (auto simp: expire_job_def abs_job_def abs_phase_def expired_def reap_row_def requeue_row_def expire_row_def
        lifecycle_ok_def split: option.splits phase.splits if_splits)
  have "map abs_job (simulations ?d) = map (expire_job t) (map abs_job (simulations d))"
    unfolding simulations_reap upd_where_def using assms by (auto simp: db_inv_def row)
  moreover have "map abs_order (batches ?d) = map abs_order (batches d)"
    by (rule abs_order_frame) (simp add: reap_expired_leases_def Let_def)
  ultimately have "abs_board ?d = (abs_board d)\<lparr> jobs := map (expire_job t) (jobs (abs_board d)) \<rparr>"
    by (simp add: abs_board_def)
  then show ?thesis by (simp only: board_step.expire)
qed

lemma insert_event:
  assumes "db_inv d"
  shows "board_step Submit (abs_board d) (abs_board (perform x (AInsert p fin) d))"
proof (cases "insert_ok p x d")
  case False
  then show ?thesis by (simp add: board_step.refuse)
next
  case ok: True
  show ?thesis
  proof (cases rule: insert_simulation_cases [where p = p and fin = fin and x = x and d = d])
    case 1
    then show ?thesis by (simp add: board_step.refuse)
  next
    case (2 u b)
    let ?r = "new_sim_row p u b fin x"
    have "map abs_order (batches (insert_row ?r d)) = map abs_order (batches d)"
      by (rule abs_order_frame) (simp add: batches_insert_row map_upd_where)
    then have eq: "abs_board (insert_row ?r d) = (abs_board d)\<lparr> jobs := jobs (abs_board d) @ [abs_job ?r] \<rparr>"
      by (simp add: abs_board_def)
    have "board_step Submit (abs_board d) ((abs_board d)\<lparr> jobs := jobs (abs_board d) @ [abs_job ?r] \<rparr>)"
    proof (rule board_step.submit)
      show "j_phase (abs_job ?r) = Waiting \<or> j_phase (abs_job ?r) = Finished True"
        using ok by (auto simp: insert_ok_def abs_phase_def new_sim_row_def)
      fix i assume "j_order (abs_job ?r) = Some i"
      then have "(i, u) \<in> (\<lambda>b. (b_id b, b_user_id b)) ` set (batches d)"
        using 2(2,3) insert_ok_batch [OF ok] by (auto simp: new_sim_row_def split: option.splits)
      then show "\<exists>ord \<in> set (orders (abs_board d)). o_id ord = i \<and> o_user ord = j_user (abs_job ?r)"
        by (auto simp: new_sim_row_def)
    qed (use 2(5) in \<open>auto simp: new_sim_row_def image_image\<close>)
    with ok 2(1) eq show ?thesis by simp
  qed
qed

lemma create_event: "board_step Open (abs_board d) (abs_board (perform x (ACreate u n key) d))"
proof (cases "0 < n")
  case False
  then show ?thesis by (simp add: board_step.refuse)
next
  case n: True
  show ?thesis
  proof (cases rule: insert_batch_cases [where userID = u and n = n and key = key and x = x and d = d])
    case 1
    then show ?thesis by (simp add: board_step.refuse)
  next
    case (2 v)
    let ?o = "\<lparr> o_id = x_uuid x, o_user = v, o_total = n, o_key = key \<rparr>"
    have "board_step Open (abs_board d) ((abs_board d)\<lparr> orders := orders (abs_board d) @ [?o] \<rparr>)"
      by (rule board_step.open_order) (use n 2(3,4) in \<open>auto simp: image_image\<close>)
    with n 2(1) show ?thesis by (simp add: abs_board_def abs_order_def)
  qed
qed

lemma perform_event:
  assumes "db_inv d"
  shows "board_step (event_of (x, a)) (abs_board d) (abs_board (perform x a d))"
proof -
  have same: "board_step Quiet (abs_board d) (abs_board d')" if "simulations d' = simulations d" "batches d' = batches d" for d'
    using that by (simp add: abs_board_def board_step.quiet)
  show ?thesis
  proof (cases a)
    case (ABackfill sid m w h)
    have "abs_board (backfill_hashes sid m w h d) = abs_board d"
      by (rule abs_board_same)
        (simp_all add: backfill_hashes_def map_upd_where backfill_row_def abs_job_def abs_phase_def)
    then show ?thesis by (simp add: ABackfill board_step.quiet)
  next
    case AResync
    have "abs_board (snd (resync_stuck_batches d)) = abs_board d"
      by (rule abs_board_same) (simp_all add: resync_stuck_batches_def map_upd_where)
    then show ?thesis by (simp add: AResync board_step.quiet)
  next
    case (AInsert p fin)
    then show ?thesis using insert_event [OF assms] by (simp del: perform.simps)
  next
    case (ACreate u n key)
    then show ?thesis using create_event by (simp del: perform.simps)
  qed (auto simp: upsert_result_def Let_def intro: same claim_event renew_event finish_event reap_event assms)
qed

interpretation jb: refinement empty_db "\<lambda>(x, a). perform x a" db_inv abs_board event_of board_step
proof
  fix d l assume "db_inv d"
  then show "board_step (event_of l) (abs_board d) (abs_board ((case l of (x, a) \<Rightarrow> perform x a) d))"
    by (cases l) (simp add: perform_event)
qed

section \<open>The report is what the database stores\<close>

lemma abs_phase_cases:
  assumes "lifecycle_ok s"
  shows "abs_phase s = Finished True \<longleftrightarrow> s_state s = ''succeeded''"
    "abs_phase s = Finished False \<longleftrightarrow> s_state s = ''failed''"
    "abs_phase s \<noteq> Waiting \<and> abs_phase s \<noteq> Finished True \<and> abs_phase s \<noteq> Finished False \<longleftrightarrow> s_state s = ''running''"
  using assms by (auto simp: abs_phase_def lifecycle_ok_def sim_states_def)

lemma report_exact:
  assumes "db_inv d" and "b \<in> set (batches d)"
  shows "report (abs_board d) (abs_order b) = (b_state b, b_succeeded b, b_failed b)"
proof -
  let ?m = "batch_sims (b_id b) (simulations d)"
  have mine: "filter (\<lambda>j. j_order j = Some (b_id b)) (map abs_job (simulations d)) = map abs_job ?m"
    by (simp add: filter_map comp_def batch_sims_def)
  have cnt: "count_where P (map abs_job ?m) = count_where (\<lambda>s. P (abs_job s)) ?m" for P
    by (simp add: count_where_def filter_map comp_def)
  have ok: "lifecycle_ok s" if "s \<in> set ?m" for s
    using that assms(1) by (auto simp: batch_sims_def db_inv_def)
  have roll: "rollup (simulations d) b = b" and pos: "0 < b_total b"
    using assms by (auto simp: db_inv_def rollup_ok_def refs_ok_def)
  then have row: "b_state b = b_state (rollup (simulations d) b)" "b_succeeded b = b_succeeded (rollup (simulations d) b)"
      "b_failed b = b_failed (rollup (simulations d) b)"
    by simp_all
  have counts: "count_where (\<lambda>s. abs_phase s = Finished True) ?m = count_where (\<lambda>s. s_state s = ''succeeded'') ?m"
    "count_where (\<lambda>s. abs_phase s = Finished False) ?m = count_where (\<lambda>s. s_state s = ''failed'') ?m"
    "count_where (\<lambda>s. abs_phase s \<noteq> Waiting \<and> abs_phase s \<noteq> Finished True \<and> abs_phase s \<noteq> Finished False) ?m =
       count_where (\<lambda>s. s_state s = ''running'') ?m"
    by (rule count_where_cong, erule abs_phase_cases [OF ok])+
  show ?thesis
    unfolding report_def Let_def abs_board_fields abs_order_fields mine cnt abs_job_fields counts
    using row pos count_where_disj [of ?m "\<lambda>s. s_state s = ''succeeded''" "\<lambda>s. s_state s = ''failed''"]
    by (simp add: rollup_def Let_def)
qed


section \<open>How much can still happen\<close>

text \<open>
  Two units for every attempt a simulation has left, one more while it is running. No step raises
  it, and every change of state lowers it.
\<close>

definition weight :: "simulations_row \<Rightarrow> nat" where
  "weight s =
     (if terminal s then 0
      else 2 * nat (s_max_attempts s - s_attempts s) + (if s_state s = ''running'' then 1 else 0))"

definition potential :: "db \<Rightarrow> nat" where
  "potential d = sum_list (map weight (simulations d))"

text \<open>The actions of a run after which the state of some simulation is another one.\<close>

fun moves :: "(stmt_ctx \<times> action) list \<Rightarrow> db \<Rightarrow> nat" where
  "moves [] d = 0"
| "moves ((x, a) # ls) d =
     (if map s_state (simulations (perform x a d)) = map s_state (simulations d) then 0 else 1) + moves ls (perform x a d)"

definition submits :: "stmt_ctx \<times> action \<Rightarrow> bool" where
  "submits l \<longleftrightarrow> (case snd l of AInsert p fin \<Rightarrow> True | _ \<Rightarrow> False)"

lemma sim_step_weight:
  "sim_step s s' \<Longrightarrow> lifecycle_ok s \<Longrightarrow>
     weight s' \<le> weight s \<and> (s_state s' \<noteq> s_state s \<longrightarrow> weight s' < weight s)"
  by (induction rule: sim_step.induct)
     (auto simp: row_defs weight_def terminal_def lifecycle_ok_def sim_states_def dest: expired_running)

lemma sims_step_potential:
  assumes "list_all2 sim_step t t'" "\<forall>s \<in> set t. lifecycle_ok s"
  shows "sum_list (map weight t') \<le> sum_list (map weight t) \<and>
    (map s_state t' \<noteq> map s_state t \<longrightarrow> sum_list (map weight t') < sum_list (map weight t))"
  using assms
proof (induction rule: list_all2_induct)
  case (Cons s t s' t')
  then show ?case using sim_step_weight [of s s'] by fastforce
qed simp

lemma perform_potential:
  assumes "db_inv d" and "\<not> submits (x, a)"
  shows "potential (perform x a d) + (if map s_state (simulations (perform x a d)) = map s_state (simulations d) then 0 else 1)
    \<le> potential d"
proof -
  have "length (simulations (perform x a d)) = length (simulations d)"
    using assms(2)
    by (cases a) (auto simp: submits_def claim_simulation_def renew_lease_def finish_simulation_def backfill_hashes_def
        upsert_result_def Let_def simulations_reap insert_batch_def split: list.splits option.splits)
  then have "list_all2 sim_step (simulations d) (simulations (perform x a d))"
    by (rule sims_step_same_length [OF perform_sims_step [OF assms(1)]])
  from sims_step_potential [OF this] assms(1) show ?thesis by (auto simp: potential_def db_inv_def)
qed

lemma potential_0:
  assumes "db_inv d"
  shows "potential d = 0 \<longleftrightarrow> (\<forall>s \<in> set (simulations d). terminal s)"
proof -
  have "weight s = 0 \<longleftrightarrow> terminal s" if "lifecycle_ok s" for s
    using that by (auto simp: weight_def lifecycle_ok_def sim_states_def terminal_def)
  with assms show ?thesis by (auto simp: potential_def db_inv_def)
qed

text \<open>
  C12. The queue drains. From any reachable database, in any run without new submissions, however
  runners, crashes, lease expiries and sweeps interleave, simulations change state at most as often
  as the potential says, which is at most twice the attempts they may take, and what is left after
  the run accounts for the rest; the potential is zero exactly when every simulation is finished.
\<close>

theorem queue_drains:
  assumes "reachable d" and "list_all (\<lambda>l. \<not> submits l) ls"
  shows "moves ls d + potential (run ls d) \<le> potential d \<and>
    int (potential d) \<le> 2 * sum_list (map s_max_attempts (simulations d)) \<and>
    (potential (run ls d) = 0 \<longleftrightarrow> list_all terminal (simulations (run ls d)))"
proof -
  have "moves ls d + potential (run ls d) \<le> potential d" if "db_inv d" "list_all (\<lambda>l. \<not> submits l) ls" for d
    using that
  proof (induction ls arbitrary: d)
    case (Cons l ls)
    obtain x a where l: "l = (x, a)" by (cases l)
    from perform_potential [OF Cons.prems(1), of x a] Cons.IH [OF perform_inv [OF Cons.prems(1), of x a]] Cons.prems(2)
    show ?case by (auto simp: l)
  qed simp
  moreover have "int (sum_list (map weight t)) \<le> 2 * sum_list (map s_max_attempts t)"
    if "\<forall>s \<in> set t. lifecycle_ok s" for t
    using that by (induction t) (auto simp: weight_def lifecycle_ok_def sim_states_def)
  ultimately show ?thesis
    using reachable_inv [OF assms(1)] assms(2) potential_0 [OF run_inv [OF reachable_inv [OF assms(1)]], of ls]
    by (auto simp: potential_def list_all_iff db_inv_def)
qed

end
