(* ===== verification/Vectors.thy ===== *)
theory Vectors
  imports Queue Server
begin

text \<open>
  The digests on the repository's shared test vectors (\<open>testdata/content_hash_vectors.json\<close>,
  \<open>testdata/api_key_vectors.json\<close>), which the Go code and the Python runner both have to meet,
  evaluated inside the kernel.
\<close>

lemma vector_both_empty_placeholder:
  "ContentHash [] [] ''22.2.0'' = ''54edf32e449b85358adfb1fa4cadfd06b92aefa0f0dce31981d376bc314b807c''"
  by code_simp

lemma vector_all_empty:
  "ContentHash [] [] [] = ''71546855d6279ef70d20909b292c42c2dcb02cd06bde01485da52d13e304ebf4''"
  by code_simp

lemma vector_normal_short:
  "ContentHash ''model-abc'' ''weather-xyz'' ''9.6.0'' = ''d09824d7ce3447385d8af38bdb8573eda8f3a8f6db97c7681cee8cd56e6963d2''"
  by code_simp

lemma vector_api_key:
  "HashAPIKey ''sp_live_0123456789abcdef0123456789abcdef0123456789abcdef'' =
     ''846ee2bdb2183d6b351d293e5697e13d440a48d9b1117b4283fe2040913a02a3''"
  by code_simp

text \<open>Digests of two small inputs, for the concrete runs of the fleet.\<close>

lemma digest_Building: "sha256_hex ''Building'' = ''87c5912f2cefdf9d7d1913611187fa8ab653a89a8d4b65f574812f899834e8b1''"
  by code_simp

lemma digest_LOCATION: "sha256_hex ''LOCATION'' = ''ec4ecc14f8b5a115c21370091bb6cea51fa87a8cc1fcc19369a03758d7ef3c1c''"
  by code_simp

end
