(* ===== verification/Scenario.thy ===== *)
theory Scenario
  imports Apiserver ApiWire JobBoard Vectors "HOL-Library.Code_Target_Nat"
begin

text \<open>
  A concrete history of the database, used by the witnesses of the properties: two users sign up
  and get keys, the first submits a batch of two simulations with an idempotency key and a single
  one, a runner claims, another participant finishes one, a lease expires.
\<close>

definition at :: "int \<Rightarrow> string \<Rightarrow> stmt_ctx" where
  "at t u = \<lparr> x_now = t, x_uuid = u, x_uuid_in = Some \<rparr>"

definition demo_params :: "string option \<Rightarrow> string \<Rightarrow> int \<Rightarrow> InsertSimulationParams" where
  "demo_params b u prio =
     \<lparr> p_BatchID = b, p_UserID = u, p_EngineVersion = ''24.1.0'', p_Priority = prio,
       p_ModelRef = ''s3://in/m.idf'', p_WeatherRef = ''s3://in/w.epw'', p_ModelSHA256 = None,
       p_WeatherSHA256 = None, p_ExtractionSpec = None, p_ContentHash = ''h'', p_State = ''queued'' \<rparr>"

definition demo_run :: "(stmt_ctx \<times> action) list" where
  "demo_run =
     [(at 1 ''u1'', ANewUser ''a@x''), (at 2 ''u2'', ANewUser ''b@x''),
      (at 3 ''k1'', ANewKey ''u1'' ''hash1'' ''laptop''),
      (at 4 ''b1'', ACreate ''u1'' 2 (Some ''idem'')),
      (at 5 ''s1'', AInsert (demo_params (Some ''b1'') ''u1'' 5) None),
      (at 6 ''s2'', AInsert (demo_params (Some ''b1'') ''u1'' 5) None),
      (at 7 ''s3'', AInsert (demo_params None ''u1'' 7) None),
      (at 8 ''x'', AClaim ''r1'' ''24.1.0'' 2 60 []),
      (at 9 ''x'', AClaim ''r2'' ''24.1.0'' 2 60 []),
      (at 10 ''x'', AFinish ''s3'' ''r1'' True None)]"

definition demo_db :: db where
  "demo_db = run demo_run empty_db"

lemma demo_reachable: "reachable demo_db"
  unfolding demo_db_def by (intro run_reachable reachable_init)

lemma demo_sims:
  "map (\<lambda>s. (s_id s, s_state s, s_runner_id s, s_attempts s)) (simulations demo_db) =
     [(''s1'', ''running'', Some ''r2'', 1), (''s2'', ''queued'', None, 0), (''s3'', ''succeeded'', Some ''r1'', 1)]"
  by code_simp

lemma demo_length: "length (simulations demo_db) = 3"
  using arg_cong [OF demo_sims, of length] by simp

section \<open>Witnesses: lifecycle and rollup\<close>

theorem claim_takes_best_witness:
  "\<exists>r d'. claim_simulation ''r9'' ''24.1.0'' 2 60 [] 11 demo_db = (Some r, d') \<and> s_id r = ''s2'' \<and>
     (\<exists>s \<in> set (simulations demo_db). r = claim_row ''r9'' 60 11 s \<and> eligible ''24.1.0'' 2 demo_db s)"
proof -
  let ?c = "claim_simulation ''r9'' ''24.1.0'' 2 60 [] 11 demo_db"
  have "map_option s_id (fst ?c) = Some ''s2''" by code_simp
  then obtain r d' where c: "?c = (Some r, d')" and r: "s_id r = ''s2''" by (cases ?c) auto
  from claim_takes_best [OF c] c r show ?thesis by blast
qed

theorem reaped_runner_is_fenced_witness:
  "finish_simulation ''s1'' ''r2'' True None 100000011
     (snd (claim_simulation ''r3'' ''24.1.0'' 2 60 [] 100000010 (snd (reap_expired_leases 100000000 demo_db)))) =
   (0, snd (claim_simulation ''r3'' ''24.1.0'' 2 60 [] 100000010 (snd (reap_expired_leases 100000000 demo_db))))"
proof -
  let ?s = "simulations demo_db ! 0"
  have mem: "?s \<in> set (simulations demo_db)" by (simp add: demo_length)
  have "distinct (map s_id (simulations demo_db))" "expired 100000000 ?s" "s_id ?s = ''s1''" by code_simp+
  with reaped_runner_is_fenced [OF mem, of 100000000 "''r2''" "''r3''" _ "''24.1.0''" 2 60 "[]" 100000010
      True None 100000011] show ?thesis by simp
qed

section \<open>A world around the history\<close>

definition demo_env :: "(nat \<Rightarrow> fault) \<Rightarrow> env" where
  "demo_env f =
     \<lparr> e_other = (\<lambda>n. []), e_now = (\<lambda>n. 100 + int n), e_uuid = (\<lambda>n. CHR ''v'' # replicate n (CHR ''x'')),
       e_uuid_in = Some, e_fault = f, e_gonow = (\<lambda>n. 0) \<rparr>"

abbreviation calm :: env where
  "calm \<equiv> demo_env (\<lambda>n. NoFault)"

definition world_of :: "db \<Rightarrow> world" where
  "world_of d = \<lparr> w_db = d, w_tick = 0, w_jobs = [] \<rparr>"

lemma demo_env_simps [simp]:
  "quiet calm" "canonical (demo_env f) u" "env_ok (demo_env f)" "users_canon (demo_env f) d"
  "others (demo_env f) n d = d" "inj (e_uuid (demo_env f))" "e_fault (demo_env f) = f" "e_uuid_in (demo_env f) = Some"
  by (auto simp: demo_env_def quiet_def canonical_def env_ok_def users_canon_def others_def inj_def
      replicate_eq_replicate)

lemma demo_uuid: "e_uuid (demo_env f) n = CHR ''v'' # replicate n (CHR ''x'')"
  by (simp add: demo_env_def)

lemma world_of_inv: "reachable d \<Longrightarrow> world_inv (demo_env f) (world_of d)"
  by (simp add: world_inv_def world_of_def reachable_inv)

lemma world_of_simps [simp]: "w_db (world_of d) = d" "w_tick (world_of d) = 0" "w_jobs (world_of d) = []"
  by (simp_all add: world_of_def)

text \<open>The history with one more batch that still has to be expanded.\<close>

definition fresh_db :: db where
  "fresh_db = run [(at 20 ''b2'', ACreate ''u1'' 2 None)] demo_db"

definition fresh_batch :: batches_row where
  "fresh_batch =
     \<lparr> b_id = ''b2'', b_user_id = ''u1'', b_state = ''expanding'', b_total = 2, b_succeeded = 0, b_failed = 0,
       b_idempotency_key = None, b_created_at = 20 \<rparr>"

definition fresh_spec :: ExpandSpec where
  "fresh_spec =
     \<lparr> sp_BatchID = ''b2'', sp_UserID = ''u1'', sp_EngineVersion = ''24.1.0'', sp_WeatherRef = ''s3://weather/w.epw'',
       sp_WeatherSHA256 = [], sp_Priority = 1, sp_ExtractionSpec = None,
       sp_Variants = [\<lparr> v_ModelRef = ''s3://models/a.idf'', v_ModelSHA256 = [], v_Name = ''a'' \<rparr>,
                      \<lparr> v_ModelRef = ''s3://models/b.idf'', v_ModelSHA256 = [], v_Name = ''b'' \<rparr>] \<rparr>"

lemma fresh_reachable: "reachable fresh_db"
  unfolding fresh_db_def by (intro run_reachable demo_reachable)

lemma fresh_facts:
  "map s_id (simulations fresh_db) = [''s1'', ''s2'', ''s3'']" "map u_id (users fresh_db) = [''u1'', ''u2'']"
  "map b_id (batches fresh_db) = [''b1'', ''b2'']" "batches fresh_db ! 1 = fresh_batch"
  "rows_of ''b2'' fresh_db = 0"
  by code_simp+

lemma fresh_batch_in: "fresh_batch \<in> set (batches fresh_db)"
proof -
  have "length (batches fresh_db) = 2" using arg_cong [OF fresh_facts(3), of length] by simp
  then show ?thesis using fresh_facts(4) nth_mem [of 1 "batches fresh_db"] by simp
qed

lemma fresh_ready: "ready calm fresh_spec (world_of fresh_db)"
proof -
  have "s_id ` set (simulations fresh_db) = {''s1'', ''s2'', ''s3''}" "u_id ` set (users fresh_db) = {''u1'', ''u2''}"
    "b_id ` set (batches fresh_db) = {''b1'', ''b2''}"
    unfolding set_map [symmetric] fresh_facts by auto
  then show ?thesis by (simp add: ready_def fresh_spec_def int4_def demo_uuid)
qed

section \<open>Witnesses: expansion and background work\<close>

theorem Expand_inserts_every_variant_witness:
  "fst (Expand (pgExpander calm) fresh_spec (world_of fresh_db)) = Inr () \<and>
   (\<exists>rows. simulations (w_db (snd (Expand (pgExpander calm) fresh_spec (world_of fresh_db)))) = simulations fresh_db @ rows \<and>
      map s_model_ref rows = [''s3://models/a.idf'', ''s3://models/b.idf''] \<and> map s_state rows = [''queued'', ''queued''])"
proof -
  from Expand_inserts_every_variant [OF _ fresh_ready]
  obtain rows where ok: "fst (Expand (pgExpander calm) fresh_spec (world_of fresh_db)) = Inr ()"
    and sims: "simulations (w_db (snd (Expand (pgExpander calm) fresh_spec (world_of fresh_db)))) = simulations fresh_db @ rows"
    and view: "map row_view rows = map (variant_view fresh_spec fresh_db) (sp_Variants fresh_spec)"
    by auto
  have "map s_model_ref rows = map (\<lambda>(a, b, c, d, m, r). m) (map row_view rows)"
    "map s_state rows = map (\<lambda>(a, b, c, d, m, r, h, st). st) (map row_view rows)"
    by (simp_all add: row_view_def)
  with ok sims view show ?thesis
    by (auto simp: fresh_spec_def variant_view_def cached_def)
qed

theorem Expand_success_completes_batch_witness:
  "\<exists>b' \<in> set (batches (w_db (snd (Expand (pgExpander calm) fresh_spec (world_of fresh_db))))).
     batch_frame b' = batch_frame fresh_batch \<and> b_state b' \<noteq> ''expanding''"
proof (rule Expand_success_completes_batch)
  show "fst (Expand (pgExpander calm) fresh_spec (world_of fresh_db)) = Inr ()"
    using expand_variants_quiet [OF _ fresh_ready, of "sp_Variants fresh_spec"] by (auto simp: Expand_def)
qed (simp_all add: world_of_inv fresh_reachable fresh_batch_in, simp_all add: fresh_spec_def fresh_batch_def)

theorem ContentHash_identifies_inputs_witness:
  "ContentHash [] [] ''22.2.0'' \<noteq> ContentHash ''model-abc'' ''weather-xyz'' ''9.6.0''"
proof -
  have "sha256_hex ([] @ '':'' @ [] @ '':'' @ ''22.2.0'') \<noteq> sha256_hex (''model-abc'' @ '':'' @ ''weather-xyz'' @ '':'' @ ''9.6.0'')"
    unfolding ContentHash_def [symmetric] vector_both_empty_placeholder vector_normal_short by simp
  then show ?thesis
    using ContentHash_identifies_inputs [of "[]" "[]" "''model-abc''" "''weather-xyz''" "''22.2.0''" "''9.6.0''"] by simp
qed

section \<open>Witnesses: the HTTP layer\<close>

definition demo_cfg :: Config where
  "demo_cfg = LoadConfig (\<lambda>k. None)"

lemma demo_cfg_eq:
  "demo_cfg =
     \<lparr> Addr = '':8090'', DatabaseURL = [], MaxBatchVariants = 10000, AllowedEngineVersions = [], S3Endpoint = [],
       S3PublicEndpoint = [], S3AccessKey = [], S3SecretKey = [], S3Region = ''us-east-1'', BucketModels = ''models'',
       BucketWeather = ''weather'', BucketResults = ''results'', PresignExpiry = 300 * Second \<rparr>"
  by code_simp

definition demo_presigner :: "string Presigner" where
  "demo_presigner = \<lparr> signClient = ''s3.local'', listClient = ''s3.local'', expiry = 300 * Second \<rparr>"

definition demo_server :: "world Server" where
  "demo_server = apiServer calm demo_minio (Some demo_presigner) demo_cfg (\<lambda>t. False) Some"

definition demo_request :: "string \<Rightarrow> (string \<times> string) list \<Rightarrow> string \<Rightarrow> request" where
  "demo_request uid params b =
     \<lparr> rq_Method = ''GET'', rq_Path = ''/'', rq_Authorization = ''Bearer secret'', rq_Body = b, rq_Query = [],
       rq_Params = params, rq_userID = Some uid \<rparr>"

lemma demo_request_simps [simp]:
  "userID (demo_request u ps b) = u" "rq_Params (demo_request u ps b) = ps" "rq_Body (demo_request u ps b) = b"
  "rq_Query (demo_request u ps b) = []"
  by (simp_all add: demo_request_def userID_def)


lemma demo_sims_ids: "\<forall>x \<in> set (simulations demo_db). s_user_id x = ''u1''"
  by code_simp

theorem foreign_simulation_is_404_witness:
  "fst (handleGetSimulation demo_server (demo_request ''u2'' [(''id'', ''s1''), (''simId'', ''s1'')] []) (world_of demo_db)) =
     writeError 404 ''simulation not found'' \<and>
   fst (handleListArtifacts demo_server (demo_request ''u2'' [(''id'', ''s1''), (''simId'', ''s1'')] []) (world_of demo_db)) =
     writeError 404 ''simulation not found''"
  using foreign_simulation_is_404 [of calm "world_of demo_db" "''s1''" "''s1''"
      "demo_request ''u2'' [(''id'', ''s1''), (''simId'', ''s1'')] []" demo_minio "Some demo_presigner" demo_cfg
      "\<lambda>t. False" Some] demo_sims_ids
  by (simp add: demo_server_def URLParam_def lookup_or_empty_def)


definition ref_json :: "string \<Rightarrow> json" where
  "ref_json t = JObj [(''ref'', JStr t)]"

definition sim_body :: json where
  "sim_body =
     JObj [(''engineVersion'', JStr ''24.1.0''), (''model'', ref_json ''s3://models/a.idf''),
           (''weather'', ref_json ''s3://weather/w.epw''), (''priority'', JNum ''9'')]"

definition sim_req :: createSimulationRequest where
  "sim_req =
     \<lparr> cs_EngineVersion = ''24.1.0'', cs_Model = \<lparr> ar_Ref = ''s3://models/a.idf'', ar_SHA256 = [] \<rparr>,
       cs_Weather = \<lparr> ar_Ref = ''s3://weather/w.epw'', ar_SHA256 = [] \<rparr>, cs_Priority = Some 9, cs_ExtractionSpec = None \<rparr>"

theorem create_simulation_writes_one_row_witness:
  "\<exists>row w'. handleCreateSimulation demo_server (demo_request ''u1'' [] (json_Encode sim_body)) (world_of fresh_db) =
      (writeJSON 201 (json_map [(''id'', JStr (s_id row)), (''state'', JStr (s_state row))]), w') \<and>
    simulations (w_db w') = simulations fresh_db @ [row] \<and> s_priority row = 2 \<and> s_state row = ''queued''"
proof -
  have dec: "Decode decode_sim (demo_request ''u1'' [] (json_Encode sim_body)) = Some sim_req" by code_simp
  have chk: "check_simulation demo_server sim_req = None" by code_simp
  note rd = fresh_ready [unfolded ready_def]
  have fr: "\<forall>n \<ge> w_tick (world_of fresh_db). e_uuid calm n \<notin> s_id ` set (simulations (w_db (world_of fresh_db)))"
    and us: "''u1'' \<in> u_id ` set (users (w_db (world_of fresh_db)))"
    using rd by (auto simp: fresh_spec_def)
  from create_simulation_writes_one_row [of calm "demo_request ''u1'' [] (json_Encode sim_body)" "world_of fresh_db" sim_req
      demo_minio "Some demo_presigner" demo_cfg "\<lambda>t. False" Some] fr us dec chk
  show ?thesis
    by (fastforce simp: demo_server_def row_view_def sim_req_def normalizePriority_def sim_cached_def)
qed

definition batch_body :: json where
  "batch_body =
     JObj [(''engineVersion'', JStr ''24.1.0''), (''weather'', ref_json ''s3://weather/w.epw''),
           (''idempotencyKey'', JStr ''idem''),
           (''variants'', JArr [JObj [(''model'', ref_json ''s3://models/a.idf'')], JObj [(''model'', ref_json ''s3://models/b.idf'')]])]"

definition batch_req :: createBatchRequest where
  "batch_req =
     \<lparr> cb_EngineVersion = ''24.1.0'', cb_Weather = \<lparr> ar_Ref = ''s3://weather/w.epw'', ar_SHA256 = [] \<rparr>,
       cb_Variants = [\<lparr> vr_Model = \<lparr> ar_Ref = ''s3://models/a.idf'', ar_SHA256 = [] \<rparr>, vr_Name = [] \<rparr>,
                      \<lparr> vr_Model = \<lparr> ar_Ref = ''s3://models/b.idf'', ar_SHA256 = [] \<rparr>, vr_Name = [] \<rparr>],
       cb_Priority = None, cb_MaxParallelism = None, cb_IdempotencyKey = ''idem'', cb_ExtractionSpec = None \<rparr>"

lemma batch_body_decodes: "Decode decode_batch (demo_request ''u1'' [] (json_Encode batch_body)) = Some batch_req"
  by code_simp

lemma batch_req_checks: "check_batch demo_server batch_req = None"
  by code_simp

theorem create_batch_checks_witness:
  "check_batch demo_server batch_req = None \<and> int (length (cb_Variants batch_req)) \<le> MaxBatchVariants demo_cfg \<and>
   list_all (\<lambda>v. input_ref_ok ''models'' (BucketModels demo_cfg) (ar_Ref (vr_Model v))) (cb_Variants batch_req)"
  using create_batch_checks [OF batch_body_decodes, of demo_server "world_of demo_db"] batch_req_checks
  by (simp add: demo_server_def list_all_iff)

theorem create_batch_idempotent_witness:
  "\<exists>i st. fst (handleCreateBatch demo_server (demo_request ''u1'' [] (json_Encode batch_body)) (world_of demo_db)) = accepted i st \<and>
     keyed ''u1'' ''idem'' i (w_db (snd (handleCreateBatch demo_server (demo_request ''u1'' [] (json_Encode batch_body)) (world_of demo_db))))"
proof -
  have "rs_Status (fst (handleCreateBatch demo_server (demo_request ''u1'' [] (json_Encode batch_body)) (world_of demo_db))) = 202"
    by code_simp
  from create_batch_idempotent [OF world_of_inv [OF demo_reachable] _ batch_body_decodes _ this [unfolded demo_server_def]]
  show ?thesis by (auto simp: demo_server_def batch_req_def)
qed

definition upload_body :: json where
  "upload_body = JObj [(''kind'', JStr ''model''), (''filename'', JStr ''../a b.idf'')]"


section \<open>Witnesses: start-up\<close>

definition demo_px :: "(unit, unit) pgxpool" where
  "demo_px =
     \<lparr> px_ParseConfig = (\<lambda>u. Inr ()), px_NewWithConfig = (\<lambda>c. Inr ()), px_Ping = (\<lambda>q. Inr ()),
       px_Exec = (\<lambda>q sql. Inr ()) \<rparr>"

definition demo_fs :: fs where
  "demo_fs =
     \<lparr> fs_ReadDir = (\<lambda>d. Inr [(''0002_b.sql'', False), (''README.md'', False), (''old.sql'', True), (''0001_a.sql'', False)]),
       fs_ReadFile = (\<lambda>x. Inr x), fs_IsDir = (\<lambda>d. True) \<rparr>"

definition demo_environ :: environ where
  "demo_environ = [''DATABASE_URL'' \<mapsto> ''postgres://x'', ''S3_ACCESS_KEY'' \<mapsto> ''k'', ''S3_ENDPOINT'' \<mapsto> ''http://minio:9000'',
     ''SP_RUNNER_SERVICE_ACCOUNT'' \<mapsto> ''runner'', ''SP_PRESIGN_EXPIRY_SECONDS'' \<mapsto> ''99999'',
     ''SP_RUNNER_TOLERATIONS'' \<mapsto>
       json_Encode (JArr [JObj [(''key'', JStr ''pool''), (''operator'', JStr ''Exists''), (''tolerationSeconds'', JNum ''60'')]])]"

theorem apiserver_main_serves_witness:
  "\<exists>s. apiserver_main demo_px demo_fs demo_minio demo_environ calm (\<lambda>t. False) Some = Serve '':8090'' s \<and>
     (\<exists>pc. sv_presigner s = Some pc \<and> 0 < pc_ExpiresIn pc \<and> pc_ExpiresIn pc \<le> 15 * Minute)"
proof -
  let ?m = "apiserver_main demo_px demo_fs demo_minio demo_environ calm (\<lambda>t. False) Some"
  have addr: "(case ?m of Exit n \<Rightarrow> [] | Serve a s \<Rightarrow> a) = '':8090''" by code_simp
  have key: "S3AccessKey (LoadConfig demo_environ) = ''k''" by code_simp
  from addr obtain s where m: "?m = Serve '':8090'' s" by (cases ?m) auto
  note served = apiserver_main_serves [OF m]
  then obtain p where s: "s = apiServer calm demo_minio p (LoadConfig demo_environ) (\<lambda>t. False) Some" and "p \<noteq> None"
    using key by auto
  then have "sv_presigner s \<noteq> None" by (auto simp: NewPresignerAdapter_def)
  with served m show ?thesis by blast
qed

section \<open>Witness: the running apiserver\<close>

text \<open>The history happens just before the first statement the apiserver sends.\<close>

definition busy_env :: env where
  "busy_env = calm\<lparr> e_other := (\<lambda>n. if n = 0 then map (\<lambda>(x, a). (x_now x, x_uuid x, a)) demo_run else []) \<rparr>"

text \<open>The reaper ticks, the process is stopped and drained, and started again.\<close>

definition busy_process :: process where
  "busy_process =
     serve (\<lambda>routes m q. ChiNotFound) (apiServer busy_env demo_minio None demo_cfg (\<lambda>t. False) Some) busy_env
       [Reap, Stop, Goroutine, ShutdownReturns, Restart, Reap]"

theorem serving_keeps_database_consistent_witness:
  "pr_phase busy_process = Listening \<and> map b_id (batches (w_db (pr_world busy_process))) = [''b1''] \<and>
   list_all (counts_exact (w_db (pr_world busy_process))) (batches (w_db (pr_world busy_process)))"
proof -
  have "env_ok busy_env" by (simp add: env_ok_def busy_env_def demo_env_def)
  note kept = serving_keeps_database_consistent [OF this busy_process_def refl]
  have "map b_id (batches (w_db (pr_world busy_process))) = [''b1'']" "pr_phase busy_process = Listening" by code_simp+
  with kept show ?thesis unfolding list_all_iff by blast
qed


section \<open>Witnesses: types and termination\<close>



text \<open>One simulation fails for good, the other's lease expires and it waits again.\<close>

definition drain_run :: "(stmt_ctx \<times> action) list" where
  "drain_run = [(at 21 ''x'', AClaim ''r3'' ''24.1.0'' 2 60 []), (at 22 ''x'', AFinish ''s2'' ''r3'' False None),
     (at 100000000 ''x'', AReap), (at 100000001 ''x'', AResync)]"

theorem queue_drains_witness:
  "moves drain_run demo_db = 3 \<and> moves drain_run demo_db + potential (run drain_run demo_db) \<le> potential demo_db \<and>
   potential demo_db = 11 \<and> potential (run drain_run demo_db) \<noteq> 0"
proof -
  have "list_all (\<lambda>l. \<not> submits l) drain_run" by (simp add: drain_run_def submits_def)
  moreover have "moves drain_run demo_db = 3" "potential demo_db = 11" "potential (run drain_run demo_db) \<noteq> 0" by code_simp+
  ultimately show ?thesis using queue_drains [OF demo_reachable, of drain_run] by simp
qed

end
