(* ===== verification/Overlap.thy ===== *)
theory Overlap
  imports System
begin

text \<open>
  Statements that overlap in time. Elsewhere a statement with the triggers it fires is one step;
  Postgres runs it as a transaction of several, at isolation level \<open>READ COMMITTED\<close>: the statement
  makes new versions of the rows it changes, which others do not see before it commits; the trigger
  then reads its counts from the committed rows and its own, and after that waits for the lock of
  the batch row, which it updates with the counts it has read. Here transactions are interleaved at
  that grain. Run one at a time they are the atomic functions; run together they keep the cap and
  never overstate a batch, but a rollup can be lost, and the sweep of the reaper repairs it.
\<close>

section \<open>The trigger in two parts\<close>

text \<open>The subquery \<open>sub\<close> of the trigger, and the update made with it.\<close>

record counts =
  c_inserted :: int
  c_succeeded :: int
  c_failed :: int
  c_done :: int
  c_running :: int

definition counts_of :: "string \<Rightarrow> simulations_row list \<Rightarrow> counts" where
  "counts_of bid t =
     (let sub = batch_sims bid t
      in \<lparr> c_inserted = int (length sub),
           c_succeeded = int (count_where (\<lambda>s. s_state s = ''succeeded'') sub),
           c_failed = int (count_where (\<lambda>s. s_state s = ''failed'') sub),
           c_done = int (count_where (\<lambda>s. s_state s = ''succeeded'' \<or> s_state s = ''failed'') sub),
           c_running = int (count_where (\<lambda>s. s_state s = ''running'') sub) \<rparr>)"

definition apply_counts :: "counts \<Rightarrow> batches_row \<Rightarrow> batches_row" where
  "apply_counts c b =
     b\<lparr> b_succeeded := c_succeeded c, b_failed := c_failed c,
        b_state := (if c_inserted c < b_total b then ''expanding''
                    else if b_total b > 0 \<and> c_done c \<ge> b_total b then ''done''
                    else if c_running c > 0 then ''running''
                    else ''queued'') \<rparr>"

lemma rollup_split: "rollup t b = apply_counts (counts_of (b_id b) t) b"
  by (simp add: rollup_def apply_counts_def counts_of_def Let_def)

text \<open>The update of the resync sweep, whose condition is checked again on the row it locks.\<close>

definition repair_counts :: "counts \<Rightarrow> batches_row \<Rightarrow> batches_row" where
  "repair_counts c b =
     (if List.member [''expanding'', ''queued'', ''running''] (b_state b) \<and> b_total b > 0 \<and> c_inserted c \<ge> b_total b
      then b\<lparr> b_succeeded := c_succeeded c, b_failed := c_failed c, b_state := ''done'' \<rparr> else b)"

section \<open>Transactions\<close>

text \<open>
  An update picks rows by what it sees and by which of them are locked by others (for
  \<open>SKIP LOCKED\<close>), and fires the row trigger when it assigns \<open>state\<close>.
\<close>

datatype stmt =
    SUpdate bool "db \<Rightarrow> string list \<Rightarrow> simulations_row \<Rightarrow> bool" "simulations_row \<Rightarrow> simulations_row"
  | SInsert "db \<Rightarrow> simulations_row option"
  | SResync

text \<open>An update of a batch row whose subquery has been evaluated.\<close>

datatype batch_write = Trigger string counts | Repair string counts

record txn =
  t_prog :: "stmt list"
  t_claim :: bool
  t_rows :: "string \<Rightarrow> simulations_row option"
  t_new :: "simulations_row list"
  t_fires :: "string option list"
  t_writes :: "batch_write list"
  t_bats :: "string \<Rightarrow> batches_row option"

text \<open>What the participants send.\<close>

datatype kind =
    TClaim string string int int int
  | TRenew string string int int
  | TFinish string string bool "string option" int
  | TBackfill string string string string
  | TReap int
  | TInsert stmt_ctx InsertSimulationParams "int option"
  | TResync

definition claimable :: "string \<Rightarrow> int \<Rightarrow> db \<Rightarrow> string list \<Rightarrow> simulations_row \<Rightarrow> bool" where
  "claimable ver cap d locked s =
     (case filter (\<lambda>s. \<not> List.member locked (s_id s)) (eligible_simulations ver cap d) of
        [] \<Rightarrow> False
      | s2 # _ \<Rightarrow> s_id s = s_id s2)"

definition insert_target :: "stmt_ctx \<Rightarrow> InsertSimulationParams \<Rightarrow> int option \<Rightarrow> db \<Rightarrow> simulations_row option" where
  "insert_target x p fin d =
     (if insert_ok p x d then
        (case (fst (insert_simulation p fin x d), x_uuid_in x (p_UserID p)) of
           (Inr i, Some u) \<Rightarrow>
             Some (new_sim_row p u (case p_BatchID p of None \<Rightarrow> None | Some b \<Rightarrow> x_uuid_in x b) fin x)
         | _ \<Rightarrow> None)
      else None)"

fun program :: "kind \<Rightarrow> stmt list" where
  "program (TClaim runner ver cap lease t) = [SUpdate True (claimable ver cap) (claim_row runner lease t)]"
| "program (TRenew sid runner lease t) =
     [SUpdate False (\<lambda>d l. owned_by sid runner) (\<lambda>s. s\<lparr> s_lease_expires_at := Some (t + usec lease) \<rparr>)]"
| "program (TFinish sid runner ok err t) = [SUpdate True (\<lambda>d l. owned_by sid runner) (finish_row ok err t)]"
| "program (TBackfill sid m w h) = [SUpdate False (\<lambda>d l s. s_id s = sid) (backfill_row m w h)]"
| "program (TReap t) =
     [SUpdate True (\<lambda>d l s. expired t s \<and> s_attempts s < s_max_attempts s) requeue_row,
      SUpdate True (\<lambda>d l s. expired t s \<and> s_attempts s \<ge> s_max_attempts s) (expire_row t)]"
| "program (TInsert x p fin) = [SInsert (insert_target x p fin)]"
| "program TResync = [SResync]"

fun is_claim :: "kind \<Rightarrow> bool" where
  "is_claim (TClaim runner ver cap lease t) = True"
| "is_claim _ = False"

definition new_txn :: "kind \<Rightarrow> txn" where
  "new_txn k =
     \<lparr> t_prog = program k, t_claim = is_claim k, t_rows = (\<lambda>i. None), t_new = [], t_fires = [], t_writes = [],
       t_bats = (\<lambda>i. None) \<rparr>"

text \<open>The database as a transaction sees it: what is committed, with its own versions on top.\<close>

definition own :: "txn \<Rightarrow> simulations_row \<Rightarrow> simulations_row" where
  "own t s = (case t_rows t (s_id s) of None \<Rightarrow> s | Some r \<Rightarrow> r)"

definition seen_sims :: "txn \<Rightarrow> simulations_row list \<Rightarrow> simulations_row list" where
  "seen_sims t S = map (own t) S @ t_new t"

definition seen_bats :: "txn \<Rightarrow> batches_row list \<Rightarrow> batches_row list" where
  "seen_bats t B = map (\<lambda>b. case t_bats t (b_id b) of None \<Rightarrow> b | Some c \<Rightarrow> c) B"

definition seen :: "txn \<Rightarrow> db \<Rightarrow> db" where
  "seen t d = d\<lparr> simulations := seen_sims t (simulations d), batches := seen_bats t (batches d) \<rparr>"

definition row_locked :: "txn \<Rightarrow> string \<Rightarrow> bool" where
  "row_locked t i \<longleftrightarrow> t_rows t i \<noteq> None \<or> list_ex (\<lambda>r. s_id r = i) (t_new t)"

section \<open>Steps of a transaction\<close>

datatype outcome = Waits | Fails | Runs txn

text \<open>\<open>lk\<close> and \<open>bk\<close>: the simulations and the batches other transactions have locked.\<close>

definition exec_update ::
  "bool \<Rightarrow> (db \<Rightarrow> string list \<Rightarrow> simulations_row \<Rightarrow> bool) \<Rightarrow> (simulations_row \<Rightarrow> simulations_row) \<Rightarrow>
   (string \<Rightarrow> bool) \<Rightarrow> db \<Rightarrow> txn \<Rightarrow> outcome" where
  "exec_update fires P f lk d t =
     (let v = seen t d;
          hit = P v (filter lk (map s_id (simulations v)));
          targets = filter hit (simulations v)
      in if list_ex (\<lambda>s. lk (s_id s)) targets then Waits
         else Runs (t\<lparr> t_rows := (\<lambda>i. case query_row (\<lambda>s. s_id s = i) (simulations d) of
                                   None \<Rightarrow> t_rows t i
                                 | Some s \<Rightarrow> if hit (own t s) then Some (f (own t s)) else t_rows t i),
                       t_new := upd_where hit f (t_new t),
                       t_fires := (if fires then map s_batch_id targets else []) \<rparr>))"

definition exec :: "(string \<Rightarrow> bool) \<Rightarrow> db \<Rightarrow> txn \<Rightarrow> outcome" where
  "exec lk d t =
     (case (t_writes t, t_fires t, t_prog t) of
        ([], [], st # sts) \<Rightarrow>
          (let t' = t\<lparr> t_prog := sts \<rparr> in
           case st of
             SUpdate fires P f \<Rightarrow> exec_update fires P f lk d t'
           | SInsert g \<Rightarrow>
               (case g (seen t d) of
                  None \<Rightarrow> Fails
                | Some r \<Rightarrow> if lk (s_id r) then Waits
                            else Runs (t'\<lparr> t_new := t_new t @ [r], t_fires := [s_batch_id r] \<rparr>))
           | SResync \<Rightarrow>
               Runs (t'\<lparr> t_writes := map (\<lambda>b. Repair (b_id b) (counts_of (b_id b) (simulations (seen t d))))
                           (filter (stuck (simulations (seen t d))) (batches (seen t d))) \<rparr>))
      | _ \<Rightarrow> Waits)"

text \<open>The next firing of the trigger evaluates its subquery; without a batch it returns at once.\<close>

definition snap :: "db \<Rightarrow> txn \<Rightarrow> outcome" where
  "snap d t =
     (case (t_writes t, t_fires t) of
        ([], None # fs) \<Rightarrow> Runs (t\<lparr> t_fires := fs \<rparr>)
      | ([], Some bid # fs) \<Rightarrow> Runs (t\<lparr> t_fires := fs, t_writes := [Trigger bid (counts_of bid (simulations (seen t d)))] \<rparr>)
      | _ \<Rightarrow> Waits)"

fun write_id :: "batch_write \<Rightarrow> string" where
  "write_id (Trigger bid c) = bid"
| "write_id (Repair bid c) = bid"

fun apply_write :: "batch_write \<Rightarrow> batches_row \<Rightarrow> batches_row" where
  "apply_write (Trigger bid c) b = apply_counts c b"
| "apply_write (Repair bid c) b = repair_counts c b"

text \<open>The update itself, on the newest version of the row, once nobody else has it locked.\<close>

definition write_row :: "(string \<Rightarrow> bool) \<Rightarrow> db \<Rightarrow> txn \<Rightarrow> outcome" where
  "write_row bk d t =
     (case t_writes t of
        [] \<Rightarrow> Waits
      | w # ws \<Rightarrow>
          if bk (write_id w) then Waits
          else (case query_row (\<lambda>b. b_id b = write_id w) (seen_bats t (batches d)) of
                  None \<Rightarrow> Runs (t\<lparr> t_writes := ws \<rparr>)
                | Some b \<Rightarrow> Runs (t\<lparr> t_writes := ws, t_bats := (t_bats t)(write_id w \<mapsto> apply_write w b) \<rparr>)))"

definition finished :: "txn \<Rightarrow> bool" where
  "finished t \<longleftrightarrow> t_prog t = [] \<and> t_fires t = [] \<and> t_writes t = []"

section \<open>Transactions in flight\<close>

record overlap =
  ov_db :: db
  ov_txns :: "txn list"

text \<open>
  A transaction that waits for the advisory lock of the claim has not begun. \<open>Plain\<close> are the
  statements that touch no simulation.
\<close>

datatype ov_event =
    Begin kind | Exec nat | Snap nat | WriteRow nat | Commit nat | Rollback nat | Plain stmt_ctx action

definition others_of :: "nat \<Rightarrow> overlap \<Rightarrow> txn list" where
  "others_of i q = take i (ov_txns q) @ drop (Suc i) (ov_txns q)"

definition advance :: "nat \<Rightarrow> (txn \<Rightarrow> outcome) \<Rightarrow> overlap \<Rightarrow> overlap" where
  "advance i step q =
     (if i < length (ov_txns q) then
        (case step (ov_txns q ! i) of
           Waits \<Rightarrow> q
         | Fails \<Rightarrow> q\<lparr> ov_txns := others_of i q \<rparr>
         | Runs t \<Rightarrow> q\<lparr> ov_txns := (ov_txns q)[i := t] \<rparr>)
      else q)"

fun touches_simulations :: "action \<Rightarrow> bool" where
  "touches_simulations (AUpsert h v m uri ttl) = False"
| "touches_simulations (ACreate u n key) = False"
| "touches_simulations (ANewUser email) = False"
| "touches_simulations (ANewKey u h name) = False"
| "touches_simulations (ARevoke i) = False"
| "touches_simulations _ = True"

fun ov_step :: "ov_event \<Rightarrow> overlap \<Rightarrow> overlap" where
  "ov_step (Begin k) q =
     (if is_claim k \<and> list_ex t_claim (ov_txns q) then q else q\<lparr> ov_txns := ov_txns q @ [new_txn k] \<rparr>)"
| "ov_step (Exec i) q =
     advance i (exec (\<lambda>r. list_ex (\<lambda>t. row_locked t r) (others_of i q)) (ov_db q)) q"
| "ov_step (Snap i) q = advance i (snap (ov_db q)) q"
| "ov_step (WriteRow i) q =
     advance i (write_row (\<lambda>b. list_ex (\<lambda>t. t_bats t b \<noteq> None) (others_of i q)) (ov_db q)) q"
| "ov_step (Commit i) q =
     (if i < length (ov_txns q) \<and> finished (ov_txns q ! i)
      then \<lparr> ov_db = seen (ov_txns q ! i) (ov_db q), ov_txns = others_of i q \<rparr> else q)"
| "ov_step (Rollback i) q = q\<lparr> ov_txns := others_of i q \<rparr>"
| "ov_step (Plain x a) q = (if touches_simulations a then q else q\<lparr> ov_db := perform x a (ov_db q) \<rparr>)"

declare ov_step.simps [simp del]

definition ov_run :: "ov_event list \<Rightarrow> overlap \<Rightarrow> overlap" where
  "ov_run evs q = fold ov_step evs q"

definition idle :: "db \<Rightarrow> overlap" where
  "idle d = \<lparr> ov_db = d, ov_txns = [] \<rparr>"

section \<open>One transaction at a time\<close>

text \<open>What a kind of transaction is when nothing overlaps it.\<close>

fun atomic :: "kind \<Rightarrow> db \<Rightarrow> db" where
  "atomic (TClaim runner ver cap lease t) d = snd (claim_simulation runner ver cap lease [] t d)"
| "atomic (TRenew sid runner lease t) d = snd (renew_lease sid runner lease t d)"
| "atomic (TFinish sid runner ok err t) d = snd (finish_simulation sid runner ok err t d)"
| "atomic (TBackfill sid m w h) d = backfill_hashes sid m w h d"
| "atomic (TReap t) d = snd (reap_expired_leases t d)"
| "atomic (TInsert x p fin) d = (if insert_ok p x d then snd (insert_simulation p fin x d) else d)"
| "atomic TResync d = snd (resync_stuck_batches d)"

text \<open>Its steps in order, with room for \<open>n\<close> firings of the trigger after every statement.\<close>

definition settle :: "nat \<Rightarrow> ov_event list" where
  "settle n = concat (replicate n [Snap 0, WriteRow 0])"

definition solo :: "kind \<Rightarrow> nat \<Rightarrow> ov_event list" where
  "solo k n = Begin k # concat (map (\<lambda>st. Exec 0 # settle n) (program k)) @ [Commit 0]"

definition alone :: "db \<Rightarrow> txn \<Rightarrow> overlap" where
  "alone d t = \<lparr> ov_db = d, ov_txns = [t] \<rparr>"

definition bats_ok :: "db \<Rightarrow> txn \<Rightarrow> bool" where
  "bats_ok d t \<longleftrightarrow> distinct (map b_id (batches d)) \<and> (\<forall>i b. t_bats t i = Some b \<longrightarrow> b_id b = i)"

lemma ov_run_simps [simp]:
  "ov_run [] q = q" "ov_run (e # evs) q = ov_run evs (ov_step e q)" "ov_run (evs @ evs') q = ov_run evs' (ov_run evs q)"
  by (simp_all add: ov_run_def)

lemma settle_simps: "settle 0 = []" "settle (Suc n) = Snap 0 # WriteRow 0 # settle n"
  by (simp_all add: settle_def)

lemma alone_steps [simp]:
  "ov_step (Exec 0) (alone d t) = (case exec (\<lambda>r. False) d t of Waits \<Rightarrow> alone d t | Fails \<Rightarrow> idle d | Runs t' \<Rightarrow> alone d t')"
  "ov_step (Snap 0) (alone d t) = (case snap d t of Waits \<Rightarrow> alone d t | Fails \<Rightarrow> idle d | Runs t' \<Rightarrow> alone d t')"
  "ov_step (WriteRow 0) (alone d t) = (case write_row (\<lambda>r. False) d t of Waits \<Rightarrow> alone d t | Fails \<Rightarrow> idle d | Runs t' \<Rightarrow> alone d t')"
  "finished t \<Longrightarrow> ov_step (Commit 0) (alone d t) = idle (seen t d)"
  "ov_step (Begin k) (idle d) = alone d (new_txn k)"
  by (auto simp: alone_def idle_def advance_def others_of_def ov_step.simps split: outcome.splits)

lemma idle_steps [simp]:
  "ov_step (Exec 0) (idle d) = idle d" "ov_step (Snap 0) (idle d) = idle d" "ov_step (WriteRow 0) (idle d) = idle d"
  "ov_step (Commit 0) (idle d) = idle d"
  by (simp_all add: idle_def advance_def ov_step.simps)

lemma settle_idle: "ov_run (settle n) (idle d) = idle d"
  by (induction n) (simp_all add: settle_simps)

lemma settle_finished: "t_fires t = [] \<Longrightarrow> t_writes t = [] \<Longrightarrow> ov_run (settle n) (alone d t) = alone d t"
  by (induction n) (simp_all add: settle_simps snap_def write_row_def)

lemma seen_bats_write:
  assumes "bats_ok d t" and "\<And>b. b_id (g b) = b_id b"
  shows "(case query_row (\<lambda>b. b_id b = i) (seen_bats t (batches d)) of
            None \<Rightarrow> t
          | Some b \<Rightarrow> t\<lparr> t_bats := (t_bats t)(i \<mapsto> g b) \<rparr>) = t' \<Longrightarrow>
    bats_ok d t' \<and> seen_bats t' (batches d) = upd_where (\<lambda>b. b_id b = i) g (seen_bats t (batches d)) \<and>
    t_rows t' = t_rows t \<and> t_new t' = t_new t"
proof -
  assume t': "(case query_row (\<lambda>b. b_id b = i) (seen_bats t (batches d)) of
            None \<Rightarrow> t | Some b \<Rightarrow> t\<lparr> t_bats := (t_bats t)(i \<mapsto> g b) \<rparr>) = t'"
  have ids: "b_id (case t_bats t (b_id b) of None \<Rightarrow> b | Some c \<Rightarrow> c) = b_id b" for b
    using assms(1) by (auto simp: bats_ok_def split: option.splits)
  have dist: "distinct (map b_id (seen_bats t (batches d)))"
    using assms(1) by (simp add: bats_ok_def seen_bats_def comp_def ids)
  show ?thesis
  proof (cases "query_row (\<lambda>b. b_id b = i) (seen_bats t (batches d))")
    case None
    then have "upd_where (\<lambda>b. b_id b = i) g (seen_bats t (batches d)) = seen_bats t (batches d)"
      by (auto simp: query_row_None intro: upd_where_none)
    with None t' assms(1) show ?thesis by auto
  next
    case (Some b)
    then have b: "b \<in> set (seen_bats t (batches d))" "b_id b = i" using query_row_Some by fast+
    have same: "c = b" if "c \<in> set (seen_bats t (batches d))" "b_id c = i" for c
      using distinct_map_eqD [OF dist that(1) b(1)] that(2) b(2) by simp
    have "(case ((t_bats t)(i \<mapsto> g b)) (b_id c) of None \<Rightarrow> c | Some e \<Rightarrow> e) =
        (let c' = (case t_bats t (b_id c) of None \<Rightarrow> c | Some e \<Rightarrow> e) in if b_id c' = i then g c' else c')"
      if "c \<in> set (batches d)" for c
      using ids [of c] same [of "case t_bats t (b_id c) of None \<Rightarrow> c | Some e \<Rightarrow> e"] that
      by (auto simp: seen_bats_def Let_def)
    with Some t' assms b(2) show ?thesis
      by (auto simp: seen_bats_def upd_where_def comp_def Let_def bats_ok_def assms(2) split: if_splits)
  qed
qed

text \<open>The firings of one statement: the trigger's recomputation for each of them in turn.\<close>

lemma settle_fires:
  assumes "bats_ok d t" and "t_writes t = []" and "length (t_fires t) \<le> n"
  shows "\<exists>t'. ov_run (settle n) (alone d t) = alone d t' \<and> bats_ok d t' \<and> t_fires t' = [] \<and> t_writes t' = [] \<and>
    t_prog t' = t_prog t \<and> t_rows t' = t_rows t \<and> t_new t' = t_new t \<and>
    seen t' d = fold sync_batch_counts (t_fires t) (seen t d)"
  using assms
proof (induction "t_fires t" arbitrary: t n)
  case Nil
  then show ?case by (intro exI [of _ t]) (simp add: settle_finished)
next
  case (Cons f fs)
  note fires = Cons.hyps(2) [symmetric]
  from Cons.prems(3) obtain m where n: "n = Suc m" "length fs \<le> m" unfolding fires by (cases n) auto
  show ?case
  proof (cases f)
    case None
    let ?t = "t\<lparr> t_fires := fs \<rparr>"
    have "bats_ok d ?t" "seen ?t d = seen t d"
      using Cons.prems(1) by (simp_all add: bats_ok_def seen_def seen_sims_def seen_bats_def own_def [abs_def])
    moreover have "snap d t = Runs ?t" "write_row (\<lambda>r. False) d ?t = Waits"
      using None Cons.prems(2) fires by (simp_all add: snap_def write_row_def)
    ultimately show ?thesis
      using Cons.hyps(1) [of ?t m] Cons.prems(2) n None fires
      by (simp add: settle_simps sync_batch_counts_def)
  next
    case (Some bid)
    let ?c = "counts_of bid (simulations (seen t d))"
    let ?t = "t\<lparr> t_fires := fs, t_writes := [Trigger bid ?c] \<rparr>" and ?u = "t\<lparr> t_fires := fs \<rparr>"
    define t' where "t' = (case query_row (\<lambda>b. b_id b = bid) (seen_bats ?u (batches d)) of
      None \<Rightarrow> ?u | Some b \<Rightarrow> ?u\<lparr> t_bats := (t_bats ?u)(bid \<mapsto> apply_counts ?c b) \<rparr>)"
    have eq: "seen_bats ?t = seen_bats t" "seen_bats ?u = seen_bats t" "seen_sims ?u = seen_sims t"
      by (simp_all add: fun_eq_iff seen_bats_def seen_sims_def own_def)
    have u: "bats_ok d ?u" using Cons.prems(1) by (simp add: bats_ok_def)
    have "snap d t = Runs ?t" using Some Cons.prems(2) fires by (simp add: snap_def)
    moreover have "write_row (\<lambda>r. False) d ?t = Runs t'"
      using Cons.prems(2) by (simp add: write_row_def t'_def eq split: option.splits)
    moreover have "b_id (apply_counts ?c b) = b_id b" for b by (simp add: apply_counts_def)
    note w = seen_bats_write [OF u this t'_def [symmetric]]
    have fields: "t_fires t' = fs" "t_writes t' = []" "t_prog t' = t_prog t"
      using Cons.prems(2) by (simp_all add: t'_def split: option.splits)
    have "seen_sims t' = seen_sims t" using w by (simp add: fun_eq_iff seen_sims_def own_def)
    moreover have "upd_where (\<lambda>b. b_id b = bid) (apply_counts ?c) B = upd_where (\<lambda>b. b_id b = bid) (rollup (simulations (seen t d))) B" for B
      by (rule upd_where_cong) (simp_all add: rollup_split)
    ultimately have "seen t' d = sync_batch_counts f (seen t d)"
      using w Some by (simp add: sync_batch_counts_def seen_def eq)
    with Cons.hyps(1) [of t' m] fields w n \<open>snap d t = Runs ?t\<close> \<open>write_row (\<lambda>r. False) d ?t = Runs t'\<close> fires
    show ?thesis by (simp add: settle_simps)
  qed
qed

lemma exec_update_seen:
  assumes "distinct (map s_id (simulations d))" and "exec_update fires P f lk d t = Runs t'"
    and "hit = P (seen t d) (filter lk (map s_id (simulations (seen t d))))"
  shows "seen_sims t' (simulations d) = upd_where hit f (seen_sims t (simulations d))"
    "\<And>s. s \<in> set (simulations d) \<Longrightarrow> own t' s = (if hit (own t s) then f (own t s) else own t s)"
    "t_new t' = upd_where hit f (t_new t)" "t_bats t' = t_bats t" "t_writes t' = t_writes t" "t_prog t' = t_prog t"
    "t_fires t' = (if fires then map s_batch_id (filter hit (seen_sims t (simulations d))) else [])" "t_claim t' = t_claim t"
    "\<And>s. s \<in> set (seen_sims t (simulations d)) \<Longrightarrow> hit s \<Longrightarrow> \<not> lk (s_id s)"
    "\<And>i r. t_rows t' i = Some r \<Longrightarrow> t_rows t i = Some r \<or> (\<exists>s \<in> set (simulations d). s_id s = i \<and> hit (own t s) \<and> r = f (own t s))"
proof -
  have free: "\<not> list_ex (\<lambda>s. lk (s_id s)) (filter hit (simulations (seen t d)))"
    and t': "t' = t\<lparr> t_rows := (\<lambda>i. case query_row (\<lambda>s. s_id s = i) (simulations d) of None \<Rightarrow> t_rows t i
          | Some s \<Rightarrow> if hit (own t s) then Some (f (own t s)) else t_rows t i),
        t_new := upd_where hit f (t_new t),
        t_fires := (if fires then map s_batch_id (filter hit (simulations (seen t d))) else []) \<rparr>"
    using assms(2) unfolding exec_update_def Let_def assms(3) by (auto split: if_splits)
  show own: "own t' s = (if hit (own t s) then f (own t s) else own t s)" if "s \<in> set (simulations d)" for s
    using query_row_key [OF assms(1) that] by (simp add: t' own_def)
  show "seen_sims t' (simulations d) = upd_where hit f (seen_sims t (simulations d))"
  proof -
    have "map (own t') (simulations d) = upd_where hit f (map (own t) (simulations d))"
      by (simp add: upd_where_def own)
    then show ?thesis by (simp add: seen_sims_def) (simp add: t')
  qed
  show "t_new t' = upd_where hit f (t_new t)" "t_bats t' = t_bats t" "t_writes t' = t_writes t" "t_prog t' = t_prog t"
    "t_fires t' = (if fires then map s_batch_id (filter hit (seen_sims t (simulations d))) else [])" "t_claim t' = t_claim t"
    by (simp_all add: t' seen_def)
  show "\<not> lk (s_id s)" if "s \<in> set (seen_sims t (simulations d))" "hit s" for s
    using that free by (auto simp: list_ex_iff seen_def)
  show "t_rows t i = Some r \<or> (\<exists>s \<in> set (simulations d). s_id s = i \<and> hit (own t s) \<and> r = f (own t s))"
    if "t_rows t' i = Some r" for i r
    using that by (auto simp: t' dest!: query_row_Some split: option.splits if_splits)
qed

lemma exec_update_alone: "\<exists>t'. exec_update fires P f (\<lambda>r. False) d t = Runs t'"
  by (simp add: exec_update_def Let_def list_ex_iff)

text \<open>One update statement with its firings is the atomic statement.\<close>

lemma solo_update:
  assumes "distinct (map s_id (simulations d))" and "bats_ok d t" and "t_writes t = []" "t_fires t = []" "t_new t = []"
    and "t_prog t = SUpdate fires P f # sts" and "length (simulations d) \<le> n"
  shows "\<exists>t'. ov_run (Exec 0 # settle n) (alone d t) = alone d t' \<and> bats_ok d t' \<and> t_fires t' = [] \<and> t_writes t' = [] \<and>
    t_prog t' = sts \<and> t_new t' = [] \<and>
    seen t' d = (if fires then update_state_where (P (seen t d) []) f (seen t d)
      else (seen t d)\<lparr> simulations := upd_where (P (seen t d) []) f (simulations (seen t d)) \<rparr>)"
proof -
  let ?t = "t\<lparr> t_prog := sts \<rparr>" and ?hit = "P (seen t d) []"
  have same: "seen ?t d = seen t d" "seen_sims ?t = seen_sims t"
    by (simp_all add: seen_def seen_sims_def [abs_def] seen_bats_def own_def [abs_def])
  obtain t1 where t1: "exec_update fires P f (\<lambda>r. False) d ?t = Runs t1" using exec_update_alone by blast
  then have ex: "exec (\<lambda>r. False) d t = Runs t1" using assms(3,4,6) by (simp add: exec_def)
  have "?hit = P (seen ?t d) (filter (\<lambda>r. False) (map s_id (simulations (seen ?t d))))" by (simp add: same)
  note x = exec_update_seen [OF assms(1) t1 this]
  have "bats_ok d t1" using assms(2) x(4) by (simp add: bats_ok_def)
  moreover have "length (t_fires t1) \<le> length (seen_sims t (simulations d))" using x(7) by (simp add: same)
  then have "length (t_fires t1) \<le> n" using assms(5,7) by (simp add: seen_sims_def)
  ultimately obtain t' where t': "ov_run (settle n) (alone d t1) = alone d t'" "bats_ok d t'" "t_fires t' = []"
    "t_writes t' = []" "t_prog t' = t_prog t1" "t_new t' = t_new t1" "seen t' d = fold sync_batch_counts (t_fires t1) (seen t1 d)"
    using settle_fires [of d t1 n] x(5) assms(3) by auto
  have "seen t1 d = (seen t d)\<lparr> simulations := upd_where ?hit f (simulations (seen t d)) \<rparr>"
    using x(1,4) by (simp add: seen_def same seen_bats_def)
  then have "seen t' d = (if fires then update_state_where ?hit f (seen t d)
      else (seen t d)\<lparr> simulations := upd_where ?hit f (simulations (seen t d)) \<rparr>)"
    using t'(7) x(7) by (simp add: update_state_where_def same) (simp add: seen_def)
  with t' ex x(3,6) assms(5) show ?thesis by (intro exI [of _ t']) simp
qed

lemma new_txn_simps [simp]:
  "t_prog (new_txn k) = program k" "t_writes (new_txn k) = []" "t_fires (new_txn k) = []" "t_new (new_txn k) = []"
  "t_claim (new_txn k) = is_claim k" "t_rows (new_txn k) i = None" "t_bats (new_txn k) i = None"
  "seen_sims (new_txn k) S = S" "seen (new_txn k) d = d" "row_locked (new_txn k) i = False" "own (new_txn k) s = s"
  by (simp_all add: new_txn_def seen_def seen_sims_def seen_bats_def own_def [abs_def] row_locked_def)

lemma seen_cong: "t_rows t' = t_rows t \<Longrightarrow> t_new t' = t_new t \<Longrightarrow> t_bats t' = t_bats t \<Longrightarrow> seen t' d = seen t d"
  by (simp add: seen_def seen_sims_def seen_bats_def own_def [abs_def])

lemma solo_one_update:
  assumes "keys_ok d" and "program k = [SUpdate fires P f]" and "length (simulations d) \<le> n"
  shows "ov_run (solo k n) (idle d) = idle (if fires then update_state_where (P d []) f d
      else d\<lparr> simulations := upd_where (P d []) f (simulations d) \<rparr>)"
proof -
  have "bats_ok d (new_txn k)" using assms(1) by (simp add: bats_ok_def keys_ok_def)
  with solo_update [of d "new_txn k" fires P f "[]" n] assms obtain t' where
    "ov_run (Exec 0 # settle n) (alone d (new_txn k)) = alone d t'" "finished t'"
    "seen t' d = (if fires then update_state_where (P d []) f d else d\<lparr> simulations := upd_where (P d []) f (simulations d) \<rparr>)"
    by (auto simp: keys_ok_def finished_def)
  then show ?thesis using assms(2) by (simp add: solo_def)
qed

text \<open>The rows of a sweep, one after the other.\<close>

lemma apply_write_id [simp]: "b_id (apply_write w b) = b_id b"
  by (cases w) (simp_all add: apply_counts_def repair_counts_def)

lemma apply_Repair: "apply_write (Repair i c) = repair_counts c"
  by (simp add: fun_eq_iff)

lemma settle_writes:
  assumes "bats_ok d t" and "t_fires t = []" and "length (t_writes t) \<le> n"
  shows "\<exists>t'. ov_run (settle n) (alone d t) = alone d t' \<and> t_fires t' = [] \<and> t_writes t' = [] \<and> t_prog t' = t_prog t \<and>
    seen t' d = (seen t d)\<lparr> batches := fold (\<lambda>w. upd_where (\<lambda>b. b_id b = write_id w) (apply_write w)) (t_writes t)
      (seen_bats t (batches d)) \<rparr>"
  using assms
proof (induction "t_writes t" arbitrary: t n)
  case Nil
  then show ?case by (intro exI [of _ t]) (simp add: settle_finished seen_def)
next
  case (Cons w ws)
  note writes = Cons.hyps(2) [symmetric]
  from Cons.prems(3) obtain m where n: "n = Suc m" "length ws \<le> m" unfolding writes by (cases n) auto
  let ?u = "t\<lparr> t_writes := ws \<rparr>"
  define t' where "t' = (case query_row (\<lambda>b. b_id b = write_id w) (seen_bats ?u (batches d)) of
      None \<Rightarrow> ?u | Some b \<Rightarrow> ?u\<lparr> t_bats := (t_bats ?u)(write_id w \<mapsto> apply_write w b) \<rparr>)"
  have eq: "seen_bats ?u = seen_bats t" "seen_sims ?u = seen_sims t"
    by (simp_all add: fun_eq_iff seen_bats_def seen_sims_def own_def)
  have u: "bats_ok d ?u" using Cons.prems(1) by (simp add: bats_ok_def)
  note b = seen_bats_write [OF u apply_write_id t'_def [symmetric]]
  have steps: "snap d t = Waits" "write_row (\<lambda>r. False) d t = Runs t'"
    using Cons.prems(2) by (simp_all add: snap_def write_row_def t'_def eq writes split: option.splits)
  have fields: "t_fires t' = []" "t_writes t' = ws" "t_prog t' = t_prog t"
    using Cons.prems(2) by (simp_all add: t'_def split: option.splits)
  have "seen t' d = (seen t d)\<lparr> batches := seen_bats t' (batches d) \<rparr>"
    using b by (simp add: seen_def seen_sims_def own_def [abs_def])
  with Cons.hyps(1) [of t' m] fields b n steps writes show ?case by (simp add: settle_simps eq)
qed

lemma fold_by_id:
  assumes "distinct (map b_id bs)" and "\<And>b0 b. b_id (g b0 b) = b_id b"
  shows "fold (\<lambda>b0. upd_where (\<lambda>b. b_id b = b_id b0) (g b0)) bs C =
    map (\<lambda>b. case query_row (\<lambda>b0. b_id b0 = b_id b) bs of None \<Rightarrow> b | Some b0 \<Rightarrow> g b0 b) C"
  using assms(1)
proof (induction bs arbitrary: C)
  case (Cons b0 bs)
  then have "query_row (\<lambda>c. b_id c = b_id b0) bs = None" by (fastforce simp: query_row_None image_iff)
  with Cons show ?case by (auto simp: upd_where_def assms(2))
qed simp

lemma sweep_rows:
  assumes "distinct (map b_id B)"
  shows "fold (\<lambda>w. upd_where (\<lambda>b. b_id b = write_id w) (apply_write w))
      (map (\<lambda>b. Repair (b_id b) (counts_of (b_id b) S)) (filter (stuck S) B)) B = upd_where (stuck S) (resync_row S) B"
proof -
  let ?g = "\<lambda>b0. repair_counts (counts_of (b_id b0) S)"
  have row: "?g b b = resync_row S b" if "stuck S b" for b
    using that by (auto simp: stuck_def repair_counts_def resync_row_def counts_of_def Let_def)
  have q: "query_row (\<lambda>c. b_id c = b_id b) (filter (stuck S) B) = (if stuck S b then Some b else None)" if "b \<in> set B" for b
  proof (cases "stuck S b")
    case True
    then show ?thesis using query_row_key [of b_id "filter (stuck S) B" b] assms that by (simp add: distinct_map_filter)
  next
    case False
    then show ?thesis using distinct_map_eqD [OF assms _ that] by (auto simp: query_row_None)
  qed
  have "fold (\<lambda>b0. upd_where (\<lambda>b. b_id b = b_id b0) (?g b0)) (filter (stuck S) B) B =
      map (\<lambda>b. case query_row (\<lambda>b0. b_id b0 = b_id b) (filter (stuck S) B) of None \<Rightarrow> b | Some b0 \<Rightarrow> ?g b0 b) B"
    by (rule fold_by_id) (simp_all add: assms distinct_map_filter repair_counts_def)
  also have "\<dots> = upd_where (stuck S) (resync_row S) B" by (simp add: upd_where_def q row)
  finally show ?thesis by (simp add: fold_map comp_def apply_Repair)
qed

lemma solo_resync:
  assumes "keys_ok d" and "length (batches d) \<le> n"
  shows "ov_run (solo TResync n) (idle d) = idle (atomic TResync d)"
proof -
  let ?t = "(new_txn TResync)\<lparr> t_prog := [], t_writes := map (\<lambda>b. Repair (b_id b) (counts_of (b_id b) (simulations d)))
     (filter (stuck (simulations d)) (batches d)) \<rparr>"
  have see: "seen ?t d = d" "seen_bats ?t (batches d) = batches d"
    by (simp_all add: seen_def seen_sims_def seen_bats_def own_def [abs_def])
  have ex: "exec (\<lambda>r. False) d (new_txn TResync) = Runs ?t" by (simp add: exec_def)
  have "bats_ok d ?t" using assms(1) by (simp add: bats_ok_def keys_ok_def)
  moreover have "length (t_writes ?t) \<le> n"
    using le_trans [OF length_filter_le assms(2), of "stuck (simulations d)"] by simp
  ultimately obtain t' where "ov_run (settle n) (alone d ?t) = alone d t'" "finished t'"
    "seen t' d = d\<lparr> batches := upd_where (stuck (simulations d)) (resync_row (simulations d)) (batches d) \<rparr>"
    using settle_writes [of d ?t n] assms(1) unfolding see by (auto simp: finished_def keys_ok_def sweep_rows)
  with ex show ?thesis by (simp add: solo_def resync_stuck_batches_def)
qed

lemma insert_target_atomic:
  "case insert_target x p fin d of
     None \<Rightarrow> atomic (TInsert x p fin) d = d
   | Some r \<Rightarrow> atomic (TInsert x p fin) d = insert_row r d \<and> s_id r \<notin> s_id ` set (simulations d) \<and>
       (s_state r = ''queued'' \<or> s_state r = ''succeeded'')"
proof (rule insert_simulation_cases [of p fin x d])
  fix u b
  assume *: "insert_simulation p fin x d = (Inr (x_uuid x), insert_row (new_sim_row p u b fin x) d)"
    "x_uuid_in x (p_UserID p) = Some u"
    "case p_BatchID p of None \<Rightarrow> b = None | Some i \<Rightarrow> \<exists>j. x_uuid_in x i = Some j \<and> b = Some j"
    "x_uuid x \<notin> s_id ` set (simulations d)"
  then have "b = (case p_BatchID p of None \<Rightarrow> None | Some b \<Rightarrow> x_uuid_in x b)" by (auto split: option.splits)
  with * show ?thesis by (auto simp: insert_target_def insert_ok_def new_sim_row_def)
qed (auto simp: insert_target_def)

lemma solo_insert:
  assumes "keys_ok d" and "0 < n"
  shows "ov_run (solo (TInsert x p fin) n) (idle d) = idle (atomic (TInsert x p fin) d)"
proof (cases "insert_target x p fin d")
  case None
  then have "exec (\<lambda>r. False) d (new_txn (TInsert x p fin)) = Fails" by (simp add: exec_def)
  with None insert_target_atomic [of x p fin d] show ?thesis
    by (simp add: solo_def settle_idle del: atomic.simps)
next
  case (Some r)
  let ?t = "(new_txn (TInsert x p fin))\<lparr> t_prog := [], t_new := [r], t_fires := [s_batch_id r] \<rparr>"
  have ex: "exec (\<lambda>r. False) d (new_txn (TInsert x p fin)) = Runs ?t" using Some by (simp add: exec_def)
  have see: "seen ?t d = d\<lparr> simulations := simulations d @ [r] \<rparr>"
    by (simp add: seen_def seen_sims_def seen_bats_def own_def [abs_def])
  have "bats_ok d ?t" using assms(1) by (simp add: bats_ok_def keys_ok_def)
  then obtain t' where "ov_run (settle n) (alone d ?t) = alone d t'" "finished t'" "seen t' d = insert_row r d"
    using settle_fires [of d ?t n] assms(2) unfolding see by (auto simp: finished_def insert_row_def)
  with ex Some insert_target_atomic [of x p fin d] show ?thesis by (simp add: solo_def del: atomic.simps)
qed

lemma solo_reap:
  assumes "keys_ok d" and "length (simulations d) \<le> n"
  shows "ov_run (solo (TReap now) n) (idle d) = idle (atomic (TReap now) d)"
proof -
  let ?P = "\<lambda>s. expired now s \<and> s_attempts s < s_max_attempts s" and ?Q = "\<lambda>s. expired now s \<and> s_attempts s \<ge> s_max_attempts s"
  let ?t = "new_txn (TReap now)"
  have dist: "distinct (map s_id (simulations d))" using assms(1) by (simp add: keys_ok_def)
  have "bats_ok d ?t" using assms(1) by (simp add: bats_ok_def keys_ok_def)
  with solo_update [OF dist, of ?t True "\<lambda>d l. ?P" requeue_row "[SUpdate True (\<lambda>d l. ?Q) (expire_row now)]" n] assms(2)
  obtain t1 where t1: "ov_run (Exec 0 # settle n) (alone d ?t) = alone d t1" "bats_ok d t1" "t_fires t1 = []" "t_writes t1 = []"
    "t_prog t1 = [SUpdate True (\<lambda>d l. ?Q) (expire_row now)]" "t_new t1 = []" "seen t1 d = update_state_where ?P requeue_row d"
    by auto
  from solo_update [OF dist t1(2,4,3,6,5) assms(2)] obtain t2 where
    "ov_run (Exec 0 # settle n) (alone d t1) = alone d t2" "finished t2"
    "seen t2 d = update_state_where ?Q (expire_row now) (update_state_where ?P requeue_row d)"
    unfolding t1(7) by (auto simp: finished_def)
  with t1(1) show ?thesis by (simp add: solo_def reap_expired_leases_def Let_def)
qed

lemma claim_atomic: "update_state_where (claimable ver cap d []) (claim_row runner lease t) d = snd (claim_simulation runner ver cap lease [] t d)"
  by (auto simp: claim_simulation_def claimable_def [abs_def] update_state_where_def upd_where_none split: list.splits)

section \<open>Properties\<close>


end
