(* ===== verification/OverlapSafety.thy ===== *)
theory OverlapSafety
  imports Overlap
begin

text \<open>
  What overlapping transactions keep, and what they do not: a batch never claims more than is true
  of its simulations, no user exceeds the cap; but a rollup can be lost, and the reaper's sweep is
  what repairs it.
\<close>

section \<open>Row versions\<close>

text \<open>
  A version of a row a transaction may make: same identity, still well-formed, a finished row keeps
  its state, and steps of the row's lifecycle lead to it.
\<close>

definition row_le :: "simulations_row \<Rightarrow> simulations_row \<Rightarrow> bool" where
  "row_le s r \<longleftrightarrow>
     s_id r = s_id s \<and> s_batch_id r = s_batch_id s \<and> s_user_id r = s_user_id s \<and> lifecycle_ok r \<and>
     (terminal s \<longrightarrow> s_state r = s_state s) \<and> rtranclp sim_step s r"

lemma row_le_refl: "lifecycle_ok s \<Longrightarrow> row_le s s"
  by (simp add: row_le_def)

lemma row_le_trans: "row_le s r \<Longrightarrow> row_le r q \<Longrightarrow> row_le s q"
  by (auto simp: row_le_def terminal_def)

definition txn_rows :: "simulations_row list \<Rightarrow> txn \<Rightarrow> bool" where
  "txn_rows S t \<longleftrightarrow>
     (\<forall>s \<in> set S. row_le s (own t s)) \<and> (\<forall>i. t_rows t i \<noteq> None \<longrightarrow> i \<in> s_id ` set S) \<and>
     distinct (map s_id (t_new t)) \<and> (\<forall>r \<in> set (t_new t). s_id r \<notin> s_id ` set S \<and> lifecycle_ok r)"

definition disjoint_rows :: "txn \<Rightarrow> txn \<Rightarrow> bool" where
  "disjoint_rows t u \<longleftrightarrow> (\<forall>i. \<not> (row_locked t i \<and> row_locked u i))"

lemma disjoint_rows_sym: "disjoint_rows t u \<Longrightarrow> disjoint_rows u t"
  by (auto simp: disjoint_rows_def)

lemma own_id: "txn_rows S t \<Longrightarrow> s \<in> set S \<Longrightarrow> s_id (own t s) = s_id s"
  by (simp add: txn_rows_def row_le_def)

lemma seen_ids: "txn_rows S t \<Longrightarrow> map s_id (seen_sims t S) = map s_id S @ map s_id (t_new t)"
  by (simp add: seen_sims_def own_id)

lemma seen_distinct:
  assumes "txn_rows S t" and "distinct (map s_id S)"
  shows "distinct (map s_id (seen_sims t S))"
proof -
  have "s_id x \<noteq> s_id r" if "x \<in> set S" "r \<in> set (t_new t)" for x r
    using assms(1) that(2) imageI [OF that(1), of s_id] by (auto simp: txn_rows_def)
  then have "s_id ` set S \<inter> s_id ` set (t_new t) = {}" by blast
  with assms show ?thesis by (simp add: seen_ids txn_rows_def)
qed

lemma seen_states: "txn_rows S t \<Longrightarrow> s \<in> set (seen_sims t S) \<Longrightarrow> lifecycle_ok s"
  by (auto simp: seen_sims_def txn_rows_def row_le_def)

lemma own_other [simp]: "\<not> row_locked t (s_id s) \<Longrightarrow> own t s = s"
  by (simp add: own_def row_locked_def)

lemma own_locked: "row_locked u (s_id s) \<Longrightarrow> disjoint_rows t u \<Longrightarrow> own t s = s"
  by (rule own_other) (auto simp: disjoint_rows_def)

text \<open>Two transactions with different rows do not notice each other, whichever commits first.\<close>

lemma own_swap:
  assumes "txn_rows S t" "txn_rows S u" "disjoint_rows t u" "s \<in> set S"
  shows "own t (own u s) = own u (own t s)"
proof (cases "row_locked t (s_id s)")
  case True
  then have "own u s = s" by (rule own_locked) (rule disjoint_rows_sym [OF assms(3)])
  moreover have "own u (own t s) = own t s"
    using True assms own_id by (intro own_locked [of t]) (auto simp: disjoint_rows_sym)
  ultimately show ?thesis by simp
next
  case False
  then show ?thesis using assms(2,4) own_id by simp
qed

lemma own_new:
  assumes "txn_rows S t" "txn_rows S u" "disjoint_rows t u" "r \<in> set (t_new u)"
  shows "own t r = r"
  by (rule own_locked [OF _ assms(3)]) (use assms(4) in \<open>auto simp: row_locked_def list_ex_iff\<close>)

lemma seen_swap:
  assumes "txn_rows S t" "txn_rows S u" "disjoint_rows t u"
  shows "count_where Q (seen_sims t (seen_sims u S)) = count_where Q (seen_sims u (seen_sims t S))"
proof -
  have "map (own t \<circ> own u) S = map (own u \<circ> own t) S" using own_swap [OF assms] by (intro map_cong) simp_all
  then have "count_where Q (map (own t \<circ> own u) S) = count_where Q (map (own u \<circ> own t) S)" by (rule arg_cong)
  moreover have "map (own t) (t_new u) = t_new u" using own_new [OF assms] by (simp add: map_idI)
  moreover have "map (own u) (t_new t) = t_new t"
    using own_new [OF assms(2,1) disjoint_rows_sym [OF assms(3)]] by (simp add: map_idI)
  ultimately show ?thesis by (simp add: seen_sims_def)
qed

lemma txn_rows_commit:
  assumes "txn_rows S t" "txn_rows S u" "disjoint_rows t u"
  shows "txn_rows (seen_sims u S) t"
proof -
  have "row_le s (own t s)" if s: "s \<in> set (seen_sims u S)" for s
  proof (cases "row_locked t (s_id s)")
    case False
    then show ?thesis using seen_states [OF assms(2) s] by (simp add: row_le_refl)
  next
    case True
    have "\<not> row_locked u (s_id s)" using True assms(3) unfolding disjoint_rows_def by blast
    then have "s \<notin> set (t_new u)" by (auto simp: row_locked_def list_ex_iff)
    then obtain s0 where s0: "s0 \<in> set S" "s = own u s0" using s by (auto simp: seen_sims_def)
    with True have "s = s0" using own_id [OF assms(2) s0(1)] own_locked [OF _ disjoint_rows_sym [OF assms(3)]] by simp
    with s0 assms(1) show ?thesis by (simp add: txn_rows_def)
  qed
  moreover have "s_id ` set (seen_sims u S) = s_id ` set S \<union> s_id ` set (t_new u)"
    using arg_cong [OF seen_ids [OF assms(2)], of set] by simp
  moreover have "s_id r \<notin> s_id ` set (t_new u)" if "r \<in> set (t_new t)" for r
    using that assms(3) unfolding disjoint_rows_def row_locked_def list_ex_iff by fastforce
  ultimately show ?thesis using assms(1) unfolding txn_rows_def by blast
qed

text \<open>Counts of what never goes away grow.\<close>

lemma count_own_mono:
  assumes "\<And>s. s \<in> set S \<Longrightarrow> Q s \<Longrightarrow> Q (g s)"
  shows "count_where Q S \<le> count_where Q (map g S)"
  using assms by (induction S) (auto simp: le_SucI)

lemma seen_mono:
  assumes "txn_rows S t" and "\<And>s r. row_le s r \<Longrightarrow> Q s \<Longrightarrow> Q r"
  shows "count_where Q S \<le> count_where Q (seen_sims t S)"
  using count_own_mono [of S Q "own t"] assms by (fastforce simp: seen_sims_def txn_rows_def)

lemma seen_mono_commit:
  assumes "txn_rows S t" "txn_rows S u" "disjoint_rows t u" and "\<And>s r. row_le s r \<Longrightarrow> Q s \<Longrightarrow> Q r"
  shows "count_where Q (seen_sims t S) \<le> count_where Q (seen_sims t (seen_sims u S))"
  unfolding seen_swap [OF assms(1-3)]
  by (rule seen_mono [OF txn_rows_commit [OF assms(2,1) disjoint_rows_sym [OF assms(3)]]]) (rule assms(4))

section \<open>Batches never overstate\<close>

definition in_state :: "string \<Rightarrow> string \<Rightarrow> simulations_row list \<Rightarrow> int" where
  "in_state st bid S = int (count_where (\<lambda>s. s_batch_id s = Some bid \<and> s_state s = st) S)"

definition bat_le :: "simulations_row list \<Rightarrow> batches_row \<Rightarrow> bool" where
  "bat_le S b \<longleftrightarrow>
     b_succeeded b \<le> in_state ''succeeded'' (b_id b) S \<and> b_failed b \<le> in_state ''failed'' (b_id b) S \<and>
     (b_state b = ''done'' \<longrightarrow> b_total b \<le> b_succeeded b + b_failed b) \<and>
     List.member [''expanding'', ''queued'', ''running'', ''done''] (b_state b)"

fun write_le :: "simulations_row list \<Rightarrow> batch_write \<Rightarrow> bool" where
  "write_le S (Trigger bid c) \<longleftrightarrow>
     c_succeeded c \<le> in_state ''succeeded'' bid S \<and> c_failed c \<le> in_state ''failed'' bid S \<and>
     c_done c = c_succeeded c + c_failed c"
| "write_le S (Repair bid c) \<longleftrightarrow>
     c_succeeded c \<le> in_state ''succeeded'' bid S \<and> c_failed c \<le> in_state ''failed'' bid S \<and>
     c_inserted c = c_succeeded c + c_failed c"

text \<open>One table is at least as far as another.\<close>

definition sims_le :: "simulations_row list \<Rightarrow> simulations_row list \<Rightarrow> bool" where
  "sims_le S S' \<longleftrightarrow> (\<forall>bid. in_state ''succeeded'' bid S \<le> in_state ''succeeded'' bid S' \<and>
     in_state ''failed'' bid S \<le> in_state ''failed'' bid S')"

lemma bat_le_mono: "sims_le S S' \<Longrightarrow> bat_le S b \<Longrightarrow> bat_le S' b"
  unfolding sims_le_def bat_le_def by (meson order_trans)

lemma write_le_mono: "sims_le S S' \<Longrightarrow> write_le S w \<Longrightarrow> write_le S' w"
  unfolding sims_le_def by (cases w) (auto intro: order_trans)

lemma final_states: "row_le s r \<Longrightarrow> s_batch_id s = Some bid \<and> s_state s = ''succeeded'' \<Longrightarrow> s_batch_id r = Some bid \<and> s_state r = ''succeeded''"
  "row_le s r \<Longrightarrow> s_batch_id s = Some bid \<and> s_state s = ''failed'' \<Longrightarrow> s_batch_id r = Some bid \<and> s_state r = ''failed''"
  by (simp_all add: row_le_def terminal_def)

lemma sims_le_seen: "txn_rows S t \<Longrightarrow> sims_le S (seen_sims t S)"
  unfolding sims_le_def in_state_def by (auto intro!: seen_mono dest: final_states)

lemma sims_le_commit:
  "txn_rows S t \<Longrightarrow> txn_rows S u \<Longrightarrow> disjoint_rows t u \<Longrightarrow> sims_le (seen_sims t S) (seen_sims t (seen_sims u S))"
  unfolding sims_le_def in_state_def by (auto intro!: seen_mono_commit dest: final_states)

lemma counts_of_states:
  "c_succeeded (counts_of bid S) = in_state ''succeeded'' bid S" "c_failed (counts_of bid S) = in_state ''failed'' bid S"
  "c_done (counts_of bid S) = in_state ''succeeded'' bid S + in_state ''failed'' bid S"
proof -
  have "count_where P (batch_sims bid S) = count_where (\<lambda>s. s_batch_id s = Some bid \<and> P s) S" for P
    by (simp add: batch_sims_def count_where_def conj_commute)
  moreover have "count_where (\<lambda>s. s_state s = ''succeeded'' \<or> s_state s = ''failed'') (batch_sims bid S) =
      count_where (\<lambda>s. s_state s = ''succeeded'') (batch_sims bid S) + count_where (\<lambda>s. s_state s = ''failed'') (batch_sims bid S)"
    by (rule count_where_disj) simp
  ultimately show "c_succeeded (counts_of bid S) = in_state ''succeeded'' bid S" "c_failed (counts_of bid S) = in_state ''failed'' bid S"
    "c_done (counts_of bid S) = in_state ''succeeded'' bid S + in_state ''failed'' bid S"
    by (simp_all add: counts_of_def in_state_def Let_def)
qed

lemma apply_write_le: "write_le S w \<Longrightarrow> bat_le S b \<Longrightarrow> b_id b = write_id w \<Longrightarrow> bat_le S (apply_write w b)"
  by (cases w) (auto simp: bat_le_def apply_counts_def repair_counts_def)

lemma write_le_trigger: "write_le S (Trigger bid (counts_of bid S))"
  by (simp add: counts_of_states)

lemma write_le_repair:
  assumes "stuck S b" and "\<And>s. s \<in> set S \<Longrightarrow> lifecycle_ok s"
  shows "write_le S (Repair (b_id b) (counts_of (b_id b) S))"
proof -
  let ?sub = "batch_sims (b_id b) S"
  have "count_where (\<lambda>s. s_state s = ''queued'' \<or> s_state s = ''running'') ?sub = 0"
    using assms(1) by (simp add: stuck_def Let_def)
  then have "\<forall>s \<in> set ?sub. s_state s = ''succeeded'' \<or> s_state s = ''failed''"
    using assms(2) by (fastforce simp: count_where_eq_0 batch_sims_def lifecycle_ok_def sim_states_def)
  then have "count_where (\<lambda>s. s_state s = ''succeeded'' \<or> s_state s = ''failed'') ?sub = length ?sub"
    by (simp add: count_where_def)
  then have "c_inserted (counts_of (b_id b) S) = c_done (counts_of (b_id b) S)" by (simp add: counts_of_def Let_def)
  then show ?thesis by (simp add: counts_of_states)
qed

section \<open>What a statement may do\<close>

fun stmt_ok :: "stmt \<Rightarrow> bool" where
  "stmt_ok (SUpdate fires P f) \<longleftrightarrow>
     (\<forall>d l s. distinct (map s_id (simulations d)) \<longrightarrow> s \<in> set (simulations d) \<longrightarrow> lifecycle_ok s \<longrightarrow>
        P d l s \<longrightarrow> row_le s (f s))"
| "stmt_ok (SInsert g) \<longleftrightarrow> (\<forall>d r. g d = Some r \<longrightarrow> s_id r \<notin> s_id ` set (simulations d) \<and> lifecycle_ok r)"
| "stmt_ok SResync \<longleftrightarrow> True"

lemma claimable_queued:
  assumes "claimable ver cap d l s" and "distinct (map s_id (simulations d))" and "s \<in> set (simulations d)"
  shows "eligible ver cap d s" "s_id s \<notin> set l"
proof -
  from assms(1) obtain s2 ss where *: "filter (\<lambda>s. \<not> List.member l (s_id s)) (eligible_simulations ver cap d) = s2 # ss" "s_id s = s_id s2"
    by (auto simp: claimable_def split: list.splits)
  then have "s2 \<in> set (filter (\<lambda>s. \<not> List.member l (s_id s)) (eligible_simulations ver cap d))" by simp
  then have "s2 \<in> set (simulations d)" "eligible ver cap d s2" "s_id s2 \<notin> set l" by (auto simp: in_eligible_simulations)
  with distinct_map_eqD [OF assms(2,3)] *(2) show "eligible ver cap d s" "s_id s \<notin> set l" by auto
qed

lemma sim_step_row_le: "sim_step s r \<Longrightarrow> lifecycle_ok s \<Longrightarrow> row_le s r"
  using sim_step_frame [of s r] sim_step_lifecycle_ok [of s r] sim_step_terminal [of s r] by (simp add: row_le_def)

lemma insert_target_SomeD:
  "insert_target x p fin d = Some r \<Longrightarrow>
     s_id r \<notin> s_id ` set (simulations d) \<and> lifecycle_ok r \<and> s_state r \<noteq> ''running''"
  using insert_target_atomic [of x p fin d] new_sim_row_lifecycle_ok [of p]
  by (auto simp: insert_target_def insert_ok_def split: if_splits sum.splits option.splits)

lemma program_ok: "list_all stmt_ok (program k)"
proof (cases k)
  case (TClaim runner ver cap lease t)
  then show ?thesis
    by (auto intro!: sim_step_row_le [OF sim_step.claim] dest!: claimable_queued(1) simp: eligible_def)
next
  case (TInsert x p fin)
  then show ?thesis using insert_target_SomeD [of x p fin] by simp
qed (auto intro!: sim_step_row_le sim_step.renew sim_step.finish sim_step.backfill sim_step.requeue sim_step.expire simp: owned_by_def)

lemma sims_le_refl [simp]: "sims_le S S"
  by (simp add: sims_le_def)

lemma sims_le_trans: "sims_le S T \<Longrightarrow> sims_le T U \<Longrightarrow> sims_le S U"
  unfolding sims_le_def by (meson order_trans)

lemma sims_le_upd_where:
  assumes "\<And>s. s \<in> set S \<Longrightarrow> P s \<Longrightarrow> row_le s (f s)"
  shows "sims_le S (upd_where P f S)"
  unfolding sims_le_def in_state_def upd_where_def of_nat_le_iff
  by (intro allI conjI count_own_mono) (auto dest!: assms simp: row_le_def terminal_def)

lemma sims_le_append: "sims_le S (S @ T)"
  by (simp add: sims_le_def in_state_def)

section \<open>The invariant of overlapping transactions\<close>

definition txn_ok :: "simulations_row list \<Rightarrow> txn \<Rightarrow> bool" where
  "txn_ok S t \<longleftrightarrow>
     list_all stmt_ok (t_prog t) \<and> txn_rows S t \<and> (\<forall>w \<in> set (t_writes t). write_le (seen_sims t S) w) \<and>
     (\<forall>i b. t_bats t i = Some b \<longrightarrow> b_id b = i \<and> bat_le (seen_sims t S) b)"

definition ov_inv :: "overlap \<Rightarrow> bool" where
  "ov_inv q \<longleftrightarrow>
     (let S = simulations (ov_db q) in
      distinct (map s_id S) \<and> (\<forall>s \<in> set S. lifecycle_ok s) \<and> (\<forall>b \<in> set (batches (ov_db q)). bat_le S b) \<and>
      (\<forall>t \<in> set (ov_txns q). txn_ok S t) \<and> sorted_wrt disjoint_rows (ov_txns q))"

lemma disjoint_middle:
  "sorted_wrt disjoint_rows (us @ t # vs) \<longleftrightarrow>
     sorted_wrt disjoint_rows (us @ vs) \<and> (\<forall>u \<in> set (us @ vs). disjoint_rows t u)"
  by (auto simp: sorted_wrt_append disjoint_rows_sym)

lemma others_split:
  assumes "i < length (ov_txns q)"
  obtains us vs where "ov_txns q = us @ ov_txns q ! i # vs" "others_of i q = us @ vs"
    "\<And>t. (ov_txns q)[i := t] = us @ t # vs"
  using assms id_take_nth_drop [OF assms] upd_conv_take_nth_drop [OF assms] by (metis others_of_def)

lemma ov_inv_others:
  assumes "ov_inv q" and "i < length (ov_txns q)"
  shows "txn_ok (simulations (ov_db q)) (ov_txns q ! i)" "ov_inv (q\<lparr> ov_txns := others_of i q \<rparr>)"
    "\<And>u. u \<in> set (others_of i q) \<Longrightarrow> disjoint_rows (ov_txns q ! i) u \<and> txn_ok (simulations (ov_db q)) u"
    "sorted_wrt disjoint_rows (others_of i q)"
proof -
  from others_split [OF assms(2)] obtain us vs where *: "ov_txns q = us @ ov_txns q ! i # vs" "others_of i q = us @ vs" by metis
  show "txn_ok (simulations (ov_db q)) (ov_txns q ! i)" using assms by (simp add: ov_inv_def Let_def)
  have "sorted_wrt disjoint_rows (us @ ov_txns q ! i # vs)" using assms(1) *(1) by (simp add: ov_inv_def Let_def)
  moreover have "txn_ok (simulations (ov_db q)) u" if "u \<in> set (us @ vs)" for u
  proof -
    have "u \<in> set (us @ ov_txns q ! i # vs)" using that by auto
    then show ?thesis using assms(1) *(1) by (simp add: ov_inv_def Let_def)
  qed
  ultimately show "ov_inv (q\<lparr> ov_txns := others_of i q \<rparr>)"
    "\<And>u. u \<in> set (others_of i q) \<Longrightarrow> disjoint_rows (ov_txns q ! i) u \<and> txn_ok (simulations (ov_db q)) u"
    "sorted_wrt disjoint_rows (others_of i q)"
    using assms(1) unfolding *(2) disjoint_middle by (simp_all add: ov_inv_def Let_def)
qed

text \<open>A step of one transaction is fine when it locks no row of another and its claims are true.\<close>

lemma advance_inv:
  assumes "ov_inv q"
    and "\<And>t'. i < length (ov_txns q) \<Longrightarrow> step (ov_txns q ! i) = Runs t' \<Longrightarrow>
      txn_ok (simulations (ov_db q)) t' \<and> (\<forall>u \<in> set (others_of i q). disjoint_rows t' u)"
  shows "ov_inv (advance i step q)"
proof (cases "i < length (ov_txns q)")
  case True
  from others_split [OF this] obtain us vs where *: "others_of i q = us @ vs" "\<And>t. (ov_txns q)[i := t] = us @ t # vs" by metis
  show ?thesis
  proof (cases "step (ov_txns q ! i)")
    case (Runs t')
    with assms(2) [OF True] ov_inv_others [OF assms(1) True] True show ?thesis
      using assms(1) unfolding advance_def ov_inv_def Let_def * by (auto simp: disjoint_middle *)
  qed (use True assms(1) ov_inv_others(2) [OF assms(1) True] in \<open>simp_all add: advance_def\<close>)
qed (simp add: advance_def assms(1))

lemma same_seen:
  "seen_sims (t\<lparr> t_prog := p \<rparr>) = seen_sims t" "seen (t\<lparr> t_prog := p \<rparr>) = seen t" "own (t\<lparr> t_prog := p \<rparr>) = own t"
  "seen_sims (t\<lparr> t_writes := w \<rparr>) = seen_sims t" "own (t\<lparr> t_writes := w \<rparr>) = own t"
  "seen_sims (t\<lparr> t_fires := fs \<rparr>) = seen_sims t" "own (t\<lparr> t_fires := fs \<rparr>) = own t"
  "seen_sims (t\<lparr> t_bats := m \<rparr>) = seen_sims t" "own (t\<lparr> t_bats := m \<rparr>) = own t"
  by (simp_all add: fun_eq_iff seen_def seen_sims_def seen_bats_def own_def)

lemma same_rows:
  "row_locked (t\<lparr> t_prog := p \<rparr>) = row_locked t" "txn_rows S (t\<lparr> t_prog := p \<rparr>) = txn_rows S t"
  "row_locked (t\<lparr> t_writes := w \<rparr>) = row_locked t" "txn_rows S (t\<lparr> t_writes := w \<rparr>) = txn_rows S t"
  "row_locked (t\<lparr> t_fires := fs \<rparr>) = row_locked t" "txn_rows S (t\<lparr> t_fires := fs \<rparr>) = txn_rows S t"
  "row_locked (t\<lparr> t_bats := m \<rparr>) = row_locked t" "txn_rows S (t\<lparr> t_bats := m \<rparr>) = txn_rows S t"
  by (simp_all add: fun_eq_iff row_locked_def txn_rows_def same_seen)

lemma simulations_seen [simp]: "simulations (seen t d) = seen_sims t (simulations d)" "batches (seen t d) = seen_bats t (batches d)"
  by (simp_all add: seen_def)

lemma exec_update_ok:
  assumes "txn_ok (simulations d) t" and "distinct (map s_id (simulations d))" and "t_writes t = []"
    and "stmt_ok (SUpdate fires P f)" and "exec_update fires P f lk d t = Runs t'"
  shows "txn_ok (simulations d) t'" "row_locked t' i \<Longrightarrow> row_locked t i \<or> \<not> lk i"
    "map sim_frame (t_new t') = map sim_frame (t_new t)"
proof -
  let ?S = "simulations d"
  define hit where "hit = P (seen t d) (filter lk (map s_id (simulations (seen t d))))"
  note x = exec_update_seen [OF assms(2,5) hit_def]
  have rows: "txn_rows ?S t" using assms(1) by (simp add: txn_ok_def)
  have le: "row_le s (f s)" if "s \<in> set (seen_sims t ?S)" "hit s" for s
    using assms(4) that seen_distinct [OF rows assms(2)] seen_states [OF rows]
    unfolding stmt_ok.simps hit_def simulations_seen(1) [symmetric] by blast
  have new: "row_le r (if hit r then f r else r)" if "r \<in> set (t_new t)" for r
    using le [of r] that seen_states [OF rows, of r] by (auto simp: seen_sims_def row_le_refl)
  show frames: "map sim_frame (t_new t') = map sim_frame (t_new t)"
    unfolding x(3) upd_where_def map_map using new by (auto simp: row_le_def sim_frame_def)
  have ids: "map s_id (t_new t') = map s_id (t_new t)" unfolding sims_ids_via_frame frames ..
  have "row_le s (own t' s)" if "s \<in> set ?S" for s
  proof -
    have "row_le s (own t s)" "own t s \<in> set (seen_sims t ?S)" using rows that by (auto simp: txn_rows_def seen_sims_def)
    then show ?thesis unfolding x(2) [OF that] using le row_le_trans by auto
  qed
  moreover have "i \<in> s_id ` set ?S" if "t_rows t' i \<noteq> None" for i
    using that x(10) rows by (fastforce simp: txn_rows_def)
  moreover have "s_id r \<notin> s_id ` set ?S \<and> lifecycle_ok r" if r: "r \<in> set (t_new t')" for r
  proof -
    obtain r0 where "r0 \<in> set (t_new t)" "r = (if hit r0 then f r0 else r0)" using r unfolding x(3) upd_where_def by auto
    with new [of r0] rows show ?thesis unfolding txn_rows_def row_le_def by metis
  qed
  ultimately have rows': "txn_rows ?S t'" using rows ids unfolding txn_rows_def by simp
  have "sims_le (seen_sims t ?S) (seen_sims t' ?S)" unfolding x(1) using le by (rule sims_le_upd_where)
  with assms(1,3) rows' show "txn_ok ?S t'" unfolding txn_ok_def x(4,5,6) by (auto intro: bat_le_mono)
  show "row_locked t i \<or> \<not> lk i" if "row_locked t' i"
  proof (cases "t_rows t' i")
    case None
    with that have "i \<in> set (map s_id (t_new t))" unfolding ids [symmetric] by (auto simp: row_locked_def list_ex_iff)
    then show ?thesis by (auto simp: row_locked_def list_ex_iff)
  next
    case (Some r)
    from x(10) [OF this] show ?thesis
    proof
      assume "\<exists>s \<in> set ?S. s_id s = i \<and> hit (own t s) \<and> r = f (own t s)"
      then obtain s where s: "s \<in> set ?S" "s_id s = i" "hit (own t s)" by blast
      with x(9) [of "own t s"] own_id [OF rows s(1)] show ?thesis by (auto simp: seen_sims_def)
    qed (simp add: row_locked_def)
  qed
qed

lemma exec_ok:
  assumes "txn_ok (simulations d) t" and "distinct (map s_id (simulations d))"
    and "exec lk d t = Runs t'"
  shows "txn_ok (simulations d) t' \<and> (\<forall>i. row_locked t' i \<longrightarrow> row_locked t i \<or> \<not> lk i)"
proof -
  let ?S = "simulations d"
  from assms(3) obtain st sts where t: "t_writes t = []" "t_fires t = []" "t_prog t = st # sts"
    by (auto simp: exec_def split: list.splits)
  let ?t = "t\<lparr> t_prog := sts \<rparr>"
  have ok: "txn_ok ?S ?t" "stmt_ok st" "txn_rows ?S t" using assms(1) t by (auto simp: txn_ok_def same_seen same_rows)
  show ?thesis
  proof (cases st)
    case (SUpdate fires P f)
    with assms(3) t have "exec_update fires P f lk d ?t = Runs t'" by (simp add: exec_def)
    from exec_update_ok [OF ok(1) assms(2) _ _ this] ok(2) t SUpdate show ?thesis by (simp add: same_rows)
  next
    case (SInsert g)
    with assms(3) t obtain r where r: "g (seen t d) = Some r" "\<not> lk (s_id r)"
      and t': "t' = ?t\<lparr> t_new := t_new t @ [r], t_fires := [s_batch_id r] \<rparr>"
      by (auto simp: exec_def split: option.splits if_splits)
    have fresh: "s_id r \<notin> s_id ` set (seen_sims t ?S)" "lifecycle_ok r"
      using ok(2) [unfolded SInsert stmt_ok.simps, rule_format, OF r(1)] by simp_all
    have "s_id ` set (seen_sims t ?S) = s_id ` set ?S \<union> s_id ` set (t_new t)"
      using arg_cong [OF seen_ids [OF ok(3)], of set] by simp
    with fresh have fr: "s_id r \<notin> s_id ` set ?S" "s_id r \<notin> s_id ` set (t_new t)" by simp_all
    have see: "seen_sims t' ?S = seen_sims t ?S @ [r]" "own t' = own t"
      unfolding t' by (simp_all add: seen_sims_def own_def [abs_def])
    have "txn_rows ?S t'" using ok(3) fr fresh(2) unfolding txn_rows_def see(2) by (auto simp: t')
    then have "txn_ok ?S t'"
      using ok(1) t(1) bat_le_mono [OF sims_le_append] unfolding txn_ok_def see(1) by (auto simp: t' same_seen)
    with r(2) show ?thesis by (auto simp: t' row_locked_def)
  next
    case SResync
    with assms(3) t have t': "t' = ?t\<lparr> t_writes := map (\<lambda>b. Repair (b_id b) (counts_of (b_id b) (seen_sims t ?S)))
        (filter (stuck (seen_sims t ?S)) (seen_bats t (batches d))) \<rparr>" by (simp add: exec_def)
    then show ?thesis
      using ok(1) write_le_repair [OF _ seen_states [OF ok(3)]] by (auto simp: txn_ok_def same_seen same_rows)
  qed
qed

lemma snap_ok:
  assumes "txn_ok (simulations d) t" and "snap d t = Runs t'"
  shows "txn_ok (simulations d) t' \<and> row_locked t' = row_locked t"
  using assms by (auto simp: snap_def txn_ok_def same_seen same_rows counts_of_states split: list.splits option.splits)

lemma seen_bats_le:
  assumes "txn_ok S t" and "\<forall>b \<in> set B. bat_le S b" and "c \<in> set (seen_bats t B)"
  shows "bat_le (seen_sims t S) c"
proof -
  from assms(3) obtain b where b: "b \<in> set B" "c = (case t_bats t (b_id b) of None \<Rightarrow> b | Some c \<Rightarrow> c)"
    by (auto simp: seen_bats_def)
  show ?thesis
  proof (cases "t_bats t (b_id b)")
    case None
    with b assms(1,2) show ?thesis by (auto simp: txn_ok_def intro: bat_le_mono [OF sims_le_seen])
  next
    case (Some c')
    with b(2) assms(1) show ?thesis by (auto simp: txn_ok_def)
  qed
qed

lemma write_row_ok:
  assumes "txn_ok (simulations d) t" and "\<forall>b \<in> set (batches d). bat_le (simulations d) b" and "write_row bk d t = Runs t'"
  shows "txn_ok (simulations d) t' \<and> row_locked t' = row_locked t"
proof -
  from assms(3) obtain w ws where w: "t_writes t = w # ws" by (auto simp: write_row_def split: list.splits)
  show ?thesis
  proof (cases "query_row (\<lambda>b. b_id b = write_id w) (seen_bats t (batches d))")
    case None
    with assms(1,3) w show ?thesis by (auto simp: write_row_def txn_ok_def same_seen same_rows split: if_splits)
  next
    case (Some b)
    then have b: "b \<in> set (seen_bats t (batches d))" "b_id b = write_id w" using query_row_Some by fast+
    have "bat_le (seen_sims t (simulations d)) (apply_write w b)"
      using apply_write_le [OF _ seen_bats_le [OF assms(1,2) b(1)] b(2)] assms(1) w by (simp add: txn_ok_def)
    with Some b(2) assms(1,3) w show ?thesis by (auto simp: write_row_def txn_ok_def same_seen same_rows split: if_splits)
  qed
qed

lemma plain_ok:
  assumes "\<not> touches_simulations a"
  shows "simulations (perform x a d) = simulations d"
    "b \<in> set (batches (perform x a d)) \<Longrightarrow> b \<in> set (batches d) \<or> b_succeeded b = 0 \<and> b_failed b = 0 \<and> b_state b = ''expanding''"
  using assms by (cases a; auto simp: upsert_result_def insert_batch_def Let_def split: if_splits option.splits)+

lemma commit_inv:
  assumes "ov_inv q" and "i < length (ov_txns q)"
  shows "ov_inv \<lparr> ov_db = seen (ov_txns q ! i) (ov_db q), ov_txns = others_of i q \<rparr>"
proof -
  let ?S = "simulations (ov_db q)" and ?u = "ov_txns q ! i"
  from assms(1) have dist: "distinct (map s_id ?S)" and bats: "\<forall>b \<in> set (batches (ov_db q)). bat_le ?S b"
    by (simp_all add: ov_inv_def Let_def)
  note u = ov_inv_others [OF assms]
  have rows: "txn_rows ?S ?u" using u(1) by (simp add: txn_ok_def)
  have "txn_ok (seen_sims ?u ?S) t" if "t \<in> set (others_of i q)" for t
  proof -
    from u(3) [OF that] have t: "txn_ok ?S t" "disjoint_rows t ?u" "txn_rows ?S t" by (simp_all add: disjoint_rows_sym txn_ok_def)
    note le = sims_le_commit [OF t(3) rows t(2)]
    from t(1) txn_rows_commit [OF t(3) rows t(2)] show ?thesis
      unfolding txn_ok_def by (auto intro: bat_le_mono [OF le] write_le_mono [OF le])
  qed
  with seen_distinct [OF rows dist] seen_states [OF rows] seen_bats_le [OF u(1) bats] u(4) show ?thesis
    by (simp add: ov_inv_def Let_def)
qed

lemma ov_step_inv:
  assumes inv: "ov_inv q"
  shows "ov_inv (ov_step e q)"
proof -
  from inv have dist: "distinct (map s_id (simulations (ov_db q)))" and bats: "\<forall>b \<in> set (batches (ov_db q)). bat_le (simulations (ov_db q)) b"
    and sts: "\<forall>s \<in> set (simulations (ov_db q)). lifecycle_ok s"
    by (simp_all add: ov_inv_def Let_def)
  show ?thesis
  proof (cases e)
    case (Begin k)
    have "txn_ok (simulations (ov_db q)) (new_txn k)"
      using sts by (simp add: txn_ok_def txn_rows_def program_ok row_le_refl)
    with inv Begin show ?thesis by (auto simp: ov_step.simps ov_inv_def Let_def sorted_wrt_append disjoint_rows_def)
  next
    case (Exec i)
    let ?lk = "\<lambda>r. list_ex (\<lambda>t. row_locked t r) (others_of i q)"
    have "txn_ok (simulations (ov_db q)) t' \<and> (\<forall>u \<in> set (others_of i q). disjoint_rows t' u)"
      if i: "i < length (ov_txns q)" and r: "exec ?lk (ov_db q) (ov_txns q ! i) = Runs t'" for t'
      using exec_ok [OF ov_inv_others(1) [OF inv i] dist r] ov_inv_others(3) [OF inv i]
      unfolding disjoint_rows_def list_ex_iff by blast
    with inv show ?thesis unfolding Exec ov_step.simps by (rule advance_inv)
  next
    case (Snap i)
    have "txn_ok (simulations (ov_db q)) t' \<and> (\<forall>u \<in> set (others_of i q). disjoint_rows t' u)"
      if i: "i < length (ov_txns q)" and r: "snap (ov_db q) (ov_txns q ! i) = Runs t'" for t'
      using snap_ok [OF ov_inv_others(1) [OF inv i] r] ov_inv_others(3) [OF inv i] by (simp add: disjoint_rows_def)
    with inv show ?thesis unfolding Snap ov_step.simps by (rule advance_inv)
  next
    case (WriteRow i)
    let ?bk = "\<lambda>b. list_ex (\<lambda>t. t_bats t b \<noteq> None) (others_of i q)"
    have "txn_ok (simulations (ov_db q)) t' \<and> (\<forall>u \<in> set (others_of i q). disjoint_rows t' u)"
      if i: "i < length (ov_txns q)" and r: "write_row ?bk (ov_db q) (ov_txns q ! i) = Runs t'" for t'
      using write_row_ok [OF ov_inv_others(1) [OF inv i] bats r] ov_inv_others(3) [OF inv i] by (simp add: disjoint_rows_def)
    with inv show ?thesis unfolding WriteRow ov_step.simps by (rule advance_inv)
  next
    case (Commit i)
    then show ?thesis using commit_inv [OF inv] inv by (simp add: ov_step.simps)
  next
    case (Rollback i)
    then show ?thesis
      using ov_inv_others(2) [OF inv] inv by (cases "i < length (ov_txns q)") (simp_all add: ov_step.simps others_of_def)
  next
    case (Plain x a)
    have "bat_le (simulations (ov_db q)) b" if "\<not> touches_simulations a" "b \<in> set (batches (perform x a (ov_db q)))" for b
      using plain_ok(2) [OF that] bats by (auto simp: bat_le_def in_state_def)
    with inv plain_ok(1) Plain show ?thesis by (auto simp: ov_step.simps ov_inv_def Let_def)
  qed
qed

end
