(* ===== verification/OverlapCore.thy ===== *)
theory OverlapCore
  imports OverlapSafety
begin

text \<open>
  The tables under overlap: keys stay unique, every reference points at a row, rows stay well-formed,
  as for statements run one at a time; only the exactness of the counts is missing.
\<close>

definition core_inv :: "db \<Rightarrow> bool" where
  "core_inv d \<longleftrightarrow> keys_ok d \<and> refs_ok d \<and> idem_ok d \<and> (\<forall>s \<in> set (simulations d). lifecycle_ok s)"

lemma db_inv_core: "db_inv d \<Longrightarrow> core_inv d"
  by (simp add: db_inv_def core_inv_def)

lemma core_inv_ownership:
  assumes "core_inv d"
  shows "(\<forall>s \<in> set (simulations d).
            (s_state s = ''running'' \<longrightarrow> s_runner_id s \<noteq> None \<and> s_lease_expires_at s \<noteq> None) \<and>
            (s_state s = ''queued'' \<longrightarrow> s_runner_id s = None \<and> s_lease_expires_at s = None) \<and>
            (\<forall>b \<in> set (batches d). s_batch_id s = Some (b_id b) \<longrightarrow> s_user_id s = b_user_id b)) \<and>
         (\<forall>b \<in> set (batches d). \<forall>b' \<in> set (batches d).
            b_idempotency_key b \<noteq> None \<longrightarrow> b_user_id b = b_user_id b' \<longrightarrow>
            b_idempotency_key b = b_idempotency_key b' \<longrightarrow> b = b')"
proof (intro conjI ballI impI)
  fix s assume s: "s \<in> set (simulations d)"
  with assms have ok: "lifecycle_ok s" by (simp add: core_inv_def)
  show "s_runner_id s \<noteq> None" "s_lease_expires_at s \<noteq> None" if "s_state s = ''running''"
    using ok that by (auto simp: lifecycle_ok_def)
  show "s_runner_id s = None" "s_lease_expires_at s = None" if "s_state s = ''queued''"
    using ok that by (auto simp: lifecycle_ok_def)
  fix b assume b: "b \<in> set (batches d)" "s_batch_id s = Some (b_id b)"
  with assms s obtain b' where b': "b' \<in> set (batches d)" "b_id b' = b_id b" "b_user_id b' = s_user_id s"
    by (fastforce simp: core_inv_def refs_ok_def)
  have "distinct (map b_id (batches d))" using assms by (simp add: core_inv_def keys_ok_def)
  from distinct_map_eqD [OF this b'(1) b(1) b'(2)] b'(3) show "s_user_id s = b_user_id b" by simp
next
  fix b b' assume "b \<in> set (batches d)" "b' \<in> set (batches d)"
    and k: "b_idempotency_key b \<noteq> None" and u: "b_user_id b = b_user_id b'"
    and kk: "b_idempotency_key b = b_idempotency_key b'"
  then have m: "b \<in> set (filter (\<lambda>b. b_idempotency_key b \<noteq> None) (batches d))"
    "b' \<in> set (filter (\<lambda>b. b_idempotency_key b \<noteq> None) (batches d))" by auto
  from assms have "idem_ok d" by (simp add: core_inv_def)
  then show "b = b'" unfolding idem_ok_def by (rule distinct_map_eqD [OF _ m]) (simp add: u kk)
qed

lemma plain_core:
  assumes "core_inv d" and "\<not> touches_simulations a"
  shows "core_inv (perform x a d)"
proof (cases a)
  case (ACreate userID n key)
  show ?thesis
  proof (cases rule: insert_batch_cases [where userID = userID and n = n and key = key and x = x and d = d])
    case 1
    with assms(1) ACreate show ?thesis by simp
  next
    case (2 u)
    then show ?thesis using assms(1) ACreate
      by (cases "0 < n") (auto simp: core_inv_def keys_ok_def refs_ok_def idem_ok_def)
  qed
next
  case (ANewKey u h name)
  then show ?thesis using assms(1)
    by (auto simp: core_inv_def keys_ok_def refs_ok_def idem_ok_def query_row_None dest!: query_row_Some)
next
  case (ARevoke i)
  then show ?thesis using assms(1)
    by (auto simp: core_inv_def keys_ok_def refs_ok_def idem_ok_def map_upd_where elim!: in_upd_whereE)
qed (use assms in \<open>auto simp: core_inv_def keys_ok_def refs_ok_def idem_ok_def upsert_result_def Let_def map_upd_where query_row_None\<close>)

section \<open>References of rows not yet committed\<close>

definition refers :: "db \<Rightarrow> simulations_row \<Rightarrow> bool" where
  "refers d r \<longleftrightarrow>
     s_user_id r \<in> u_id ` set (users d) \<and>
     (\<forall>i. s_batch_id r = Some i \<longrightarrow> (i, s_user_id r) \<in> (\<lambda>b. (b_id b, b_user_id b)) ` set (batches d))"

definition frame_ok :: "db \<Rightarrow> txn \<Rightarrow> bool" where
  "frame_ok d t \<longleftrightarrow>
     (\<forall>i c. t_bats t i = Some c \<longrightarrow> b_id c = i \<and> batch_frame c \<in> batch_frame ` set (batches d)) \<and>
     (\<forall>r \<in> set (t_new t). refers d r)"

text \<open>Only the users and the keys and owners of the batches matter, and they are never removed.\<close>

definition grows :: "db \<Rightarrow> db \<Rightarrow> bool" where
  "grows d d' \<longleftrightarrow> u_id ` set (users d) \<subseteq> u_id ` set (users d') \<and>
     batch_frame ` set (batches d) \<subseteq> batch_frame ` set (batches d')"

lemma grows_pairs:
  assumes "grows d d'"
  shows "(\<lambda>b. (b_id b, b_user_id b)) ` set (batches d) \<subseteq> (\<lambda>b. (b_id b, b_user_id b)) ` set (batches d')"
proof -
  have "(\<lambda>f. (fst f, fst (snd f))) ` batch_frame ` set (batches d) \<subseteq> (\<lambda>f. (fst f, fst (snd f))) ` batch_frame ` set (batches d')"
    by (rule image_mono) (use assms in \<open>simp add: grows_def\<close>)
  then show ?thesis by (simp only: via_batch_frame(2) set_map)
qed

lemma refers_grows:
  assumes "refers d r" and "grows d d'"
  shows "refers d' r"
proof -
  have "u_id ` set (users d) \<subseteq> u_id ` set (users d')" using assms(2) by (simp add: grows_def)
  with assms(1) grows_pairs [OF assms(2)] show ?thesis unfolding refers_def by (simp add: subset_iff)
qed

lemma frame_ok_grows: "frame_ok d t \<Longrightarrow> grows d d' \<Longrightarrow> frame_ok d' t"
  unfolding frame_ok_def using refers_grows by (auto simp: grows_def)

lemma plain_grows: "\<not> touches_simulations a \<Longrightarrow> grows d (perform x a d)"
  by (cases a) (auto simp: grows_def upsert_result_def insert_batch_def Let_def split: if_splits option.splits)

lemma refers_frame: "sim_frame r = sim_frame s \<Longrightarrow> refers d r = refers d s"
  by (simp add: refers_def sim_frame_def)

lemma refers_frames:
  assumes "map sim_frame xs = map sim_frame ys" and "\<forall>r \<in> set ys. refers d r"
  shows "\<forall>r \<in> set xs. refers d r"
proof
  fix r assume "r \<in> set xs"
  then have "sim_frame r \<in> sim_frame ` set ys" using arg_cong [OF assms(1), of set] by auto
  then obtain s where "s \<in> set ys" "sim_frame r = sim_frame s" by (rule imageE)
  with assms(2) refers_frame [of r s d] show "refers d r" by simp
qed

lemma seen_bats_frame:
  assumes "frame_ok d t" and "distinct (map b_id (batches d))"
  shows "map batch_frame (seen_bats t (batches d)) = map batch_frame (batches d)"
proof -
  have "batch_frame c = batch_frame b" if "b \<in> set (batches d)" "t_bats t (b_id b) = Some c" for b c
  proof -
    have "b_id c = b_id b" "batch_frame c \<in> batch_frame ` set (batches d)" using assms(1) that(2) unfolding frame_ok_def by simp_all
    then obtain b' where b': "b_id c = b_id b" "b' \<in> set (batches d)" "batch_frame c = batch_frame b'" by (metis imageE)
    then have "b' = b" using distinct_map_eqD [OF assms(2) _ that(1)] by (simp add: batch_frame_def)
    with b' show ?thesis by simp
  qed
  then show ?thesis by (auto simp: seen_bats_def split: option.splits)
qed

lemma seen_grows:
  assumes "frame_ok d t" and "distinct (map b_id (batches d))"
  shows "grows d (seen t d)" "grows (seen t d) d"
  using arg_cong [OF seen_bats_frame [OF assms], of set] by (simp_all add: grows_def) (simp_all add: seen_def)

lemma commit_core:
  assumes "core_inv d" and "frame_ok d t" and "txn_rows (simulations d) t"
  shows "core_inv (seen t d)"
proof -
  have k: "keys_ok d" "refs_ok d" "idem_ok d" using assms(1) by (simp_all add: core_inv_def)
  then have dist: "distinct (map b_id (batches d))" "distinct (map s_id (simulations d))" by (simp_all add: keys_ok_def)
  note bf = seen_bats_frame [OF assms(2) dist(1)]
  have fields: "users (seen t d) = users d" "api_keys (seen t d) = api_keys d" "results (seen t d) = results d"
    by (simp_all add: seen_def)
  have ref: "refers d s" if "s \<in> set (simulations d)" for s using k(2) that by (simp add: refs_ok_def refers_def)
  have "refers d r" if "r \<in> set (seen_sims t (simulations d))" for r
    using that assms(2,3) ref by (auto simp: seen_sims_def frame_ok_def txn_rows_def row_le_def refers_def)
  then have "\<forall>r \<in> set (simulations (seen t d)). refers (seen t d) r"
    using refers_grows [OF _ seen_grows(1) [OF assms(2) dist(1)]] by simp
  moreover have "keys_ok (seen t d)"
    using k(1) seen_distinct [OF assms(3) dist(2)] unfolding keys_ok_def fields simulations_seen via_batch_frame(1) bf by simp
  moreover have "idem_ok (seen t d)" using k(3) unfolding idem_ok_def simulations_seen via_batch_frame(4) bf .
  moreover have "\<forall>b \<in> set (batches (seen t d)). b_user_id b \<in> u_id ` set (users (seen t d)) \<and> 0 < b_total b"
    using k(2) unfolding refs_ok_def fields simulations_seen via_batch_frame(3) bf by blast
  ultimately show ?thesis
    using k(2) seen_states [OF assms(3)] by (simp add: core_inv_def refs_ok_def refers_def fields)
qed

section \<open>Preservation\<close>

fun stmt_refers :: "stmt \<Rightarrow> bool" where
  "stmt_refers (SInsert g) \<longleftrightarrow> (\<forall>d r. g d = Some r \<longrightarrow> refers d r)"
| "stmt_refers _ \<longleftrightarrow> True"

lemma insert_target_refers: "insert_target x p fin d = Some r \<Longrightarrow> refers d r"
proof (rule insert_simulation_cases [of p fin x d])
  fix u b
  assume r: "insert_target x p fin d = Some r" and *: "x_uuid_in x (p_UserID p) = Some u" "u \<in> u_id ` set (users d)"
  then have ok: "insert_ok p x d" "s_user_id r = u"
    "s_batch_id r = (case p_BatchID p of None \<Rightarrow> None | Some b \<Rightarrow> x_uuid_in x b)"
    by (auto simp: insert_target_def new_sim_row_def split: if_splits sum.splits)
  have "(i, u) \<in> (\<lambda>b. (b_id b, b_user_id b)) ` set (batches d)" if "s_batch_id r = Some i" for i
    using that insert_ok_batch [OF ok(1) _ _ *(1)] ok(3) by (auto split: option.splits)
  with * ok(2) show ?thesis by (simp add: refers_def)
qed (auto simp: insert_target_def split: if_splits)

lemma program_refers: "list_all stmt_refers (program k)"
  by (cases k) (auto intro: insert_target_refers)

definition core_txn :: "db \<Rightarrow> txn \<Rightarrow> bool" where
  "core_txn d t \<longleftrightarrow> list_all stmt_refers (t_prog t) \<and> frame_ok d t"

definition ov_core :: "overlap \<Rightarrow> bool" where
  "ov_core q \<longleftrightarrow> ov_inv q \<and> core_inv (ov_db q) \<and> (\<forall>t \<in> set (ov_txns q). core_txn (ov_db q) t)"

lemma exec_core:
  assumes "txn_ok (simulations d) t" and "core_inv d" and "core_txn d t" and "exec lk d t = Runs t'"
  shows "core_txn d t'"
proof -
  let ?S = "simulations d"
  from assms(4) obtain st sts where t: "t_writes t = []" "t_fires t = []" "t_prog t = st # sts"
    by (auto simp: exec_def split: list.splits)
  let ?t = "t\<lparr> t_prog := sts \<rparr>"
  have ok: "txn_ok ?S ?t" "stmt_ok st" "txn_rows ?S t" using assms(1) t by (auto simp: txn_ok_def same_seen same_rows)
  have core: "core_txn d ?t" "stmt_refers st" "frame_ok d t" using assms(3) t by (auto simp: core_txn_def frame_ok_def)
  have dist: "distinct (map s_id ?S)" "distinct (map b_id (batches d))" using assms(2) by (simp_all add: core_inv_def keys_ok_def)
  show ?thesis
  proof (cases st)
    case (SUpdate fires P f)
    with assms(4) t have ex: "exec_update fires P f lk d ?t = Runs t'" by (simp add: exec_def)
    have "map sim_frame (t_new t') = map sim_frame (t_new ?t)"
      using exec_update_ok(3) [OF ok(1) dist(1) _ _ ex] ok(2) t SUpdate by simp
    then have "\<forall>r \<in> set (t_new t'). refers d r"
      using core(3) refers_frames [of "t_new t'" "t_new t"] by (simp add: frame_ok_def)
    with core(1) exec_update_seen(4,6) [OF dist(1) ex refl] show ?thesis by (simp add: core_txn_def frame_ok_def)
  next
    case (SInsert g)
    with assms(4) t obtain r where r: "g (seen t d) = Some r" and t': "t' = ?t\<lparr> t_new := t_new t @ [r], t_fires := [s_batch_id r] \<rparr>"
      by (auto simp: exec_def split: option.splits if_splits)
    have "refers d r" using core(2) r SInsert refers_grows [OF _ seen_grows(2) [OF core(3) dist(2)]] by auto
    with core(1) show ?thesis by (simp add: t' core_txn_def frame_ok_def)
  next
    case SResync
    with assms(4) t core(1) show ?thesis by (auto simp: exec_def core_txn_def frame_ok_def)
  qed
qed

lemma snap_core: "core_txn d t \<Longrightarrow> snap d t = Runs t' \<Longrightarrow> core_txn d t'"
  by (auto simp: snap_def core_txn_def frame_ok_def split: list.splits option.splits)

lemma apply_write_frame: "batch_frame (apply_write w b) = batch_frame b"
  by (cases w) (simp_all add: batch_frame_def apply_counts_def repair_counts_def)

lemma write_row_core:
  assumes "core_inv d" and "core_txn d t" and "write_row bk d t = Runs t'"
  shows "core_txn d t'"
proof -
  from assms(3) obtain w ws where w: "t_writes t = w # ws" by (auto simp: write_row_def split: list.splits)
  show ?thesis
  proof (cases "query_row (\<lambda>b. b_id b = write_id w) (seen_bats t (batches d))")
    case None
    with assms(2,3) w show ?thesis by (auto simp: write_row_def core_txn_def frame_ok_def split: if_splits)
  next
    case (Some b)
    then have b: "b \<in> set (seen_bats t (batches d))" "b_id b = write_id w" using query_row_Some by fast+
    have "set (map batch_frame (seen_bats t (batches d))) = set (map batch_frame (batches d))"
      using seen_bats_frame assms(1,2) by (simp add: core_txn_def core_inv_def keys_ok_def del: set_map)
    with b(1) have "batch_frame (apply_write w b) \<in> batch_frame ` set (batches d)" by (simp add: apply_write_frame) blast
    with Some b(2) assms(2,3) w show ?thesis by (auto simp: write_row_def core_txn_def frame_ok_def split: if_splits)
  qed
qed

lemma advance_db [simp]: "ov_db (advance i step q) = ov_db q"
  by (simp add: advance_def split: outcome.splits)

lemma in_others: "t \<in> set (others_of i q) \<Longrightarrow> t \<in> set (ov_txns q)"
  by (auto simp: others_of_def dest: in_set_takeD in_set_dropD)

lemma in_advance:
  "t \<in> set (ov_txns (advance i step q)) \<Longrightarrow>
     t \<in> set (ov_txns q) \<or> i < length (ov_txns q) \<and> step (ov_txns q ! i) = Runs t"
  by (auto simp: advance_def dest: in_others dest!: subsetD [OF set_update_subset_insert] split: if_splits outcome.splits)

text \<open>A property of transactions that each step of one keeps, holds of all after it.\<close>

lemma advance_all:
  assumes "\<forall>t \<in> set (ov_txns q). Q t" and "\<And>t t'. t \<in> set (ov_txns q) \<Longrightarrow> step t = Runs t' \<Longrightarrow> Q t'"
  shows "\<forall>t \<in> set (ov_txns (advance i step q)). Q t"
  using assms(1) by (auto dest!: in_advance intro: assms(2) [OF nth_mem])

lemma ov_step_core:
  assumes "ov_core q"
  shows "ov_core (ov_step e q)"
proof -
  from assms have inv: "ov_inv q" and core: "core_inv (ov_db q)" and all: "\<forall>t \<in> set (ov_txns q). core_txn (ov_db q) t"
    by (simp_all add: ov_core_def)
  have ok: "txn_ok (simulations (ov_db q)) t" if "t \<in> set (ov_txns q)" for t
    using inv that by (simp add: ov_inv_def Let_def)
  have "core_inv (ov_db (ov_step e q)) \<and> (\<forall>t \<in> set (ov_txns (ov_step e q)). core_txn (ov_db (ov_step e q)) t)"
  proof (cases e)
    case (Begin k)
    then show ?thesis using core all by (simp add: ov_step.simps core_txn_def frame_ok_def program_refers)
  next
    case (Exec i)
    show ?thesis unfolding Exec ov_step.simps advance_db
      using core advance_all [OF all] exec_core [OF ok core] all by blast
  next
    case (Snap i)
    show ?thesis unfolding Snap ov_step.simps advance_db using core advance_all [OF all] snap_core all by blast
  next
    case (WriteRow i)
    show ?thesis unfolding WriteRow ov_step.simps advance_db
      using core advance_all [OF all] write_row_core [OF core] all by blast
  next
    case (Commit i)
    show ?thesis
    proof (cases "i < length (ov_txns q) \<and> finished (ov_txns q ! i)")
      case True
      let ?u = "ov_txns q ! i"
      have u: "?u \<in> set (ov_txns q)" using True by simp
      then have "frame_ok (ov_db q) ?u" "txn_rows (simulations (ov_db q)) ?u" using all ok by (auto simp: core_txn_def txn_ok_def)
      moreover from this have "grows (ov_db q) (seen ?u (ov_db q))"
        using core by (intro seen_grows(1)) (simp_all add: core_inv_def keys_ok_def)
      ultimately show ?thesis
        using True core all commit_core [of "ov_db q" ?u] frame_ok_grows in_others unfolding Commit ov_step.simps core_txn_def by fastforce
    qed (use core all Commit in \<open>auto simp: ov_step.simps\<close>)
  next
    case (Rollback i)
    then show ?thesis using core all in_others by (fastforce simp: ov_step.simps)
  next
    case (Plain x a)
    then show ?thesis
      using core all plain_core [OF core] frame_ok_grows [OF _ plain_grows] by (auto simp: ov_step.simps core_txn_def)
  qed
  with ov_step_inv [OF inv] show ?thesis by (simp add: ov_core_def)
qed

lemma rollup_bat_le:
  assumes "rollup S b = b"
  shows "bat_le S b"
proof -
  let ?c = "counts_of (b_id b) S"
  have b: "b = apply_counts ?c b" using assms by (simp add: rollup_split)
  have "write_le S (Trigger (b_id b) ?c)" by (rule write_le_trigger)
  moreover have "b_succeeded b = c_succeeded ?c" "b_failed b = c_failed ?c"
    "b_state b = (if c_inserted ?c < b_total b then ''expanding'' else if b_total b > 0 \<and> c_done ?c \<ge> b_total b then ''done''
       else if c_running ?c > 0 then ''running'' else ''queued'')"
    by (subst b, simp add: apply_counts_def)+
  ultimately show ?thesis by (auto simp: bat_le_def split: if_splits)
qed

lemma ov_core_idle: "db_inv d \<Longrightarrow> ov_core (idle d)"
  using rollup_bat_le by (auto simp: ov_core_def ov_inv_def idle_def db_inv_core) (auto simp: db_inv_def keys_ok_def rollup_ok_def)

interpretation overlapping: labelled_invariant "idle empty_db" ov_step ov_core
  by unfold_locales (auto simp: ov_core_idle db_inv_empty intro: ov_step_core)

lemma ov_run_core: "reachable d \<Longrightarrow> ov_core (ov_run evs (idle d))"
  unfolding ov_run_def by (rule overlapping.inv_run) (rule ov_core_idle [OF reachable_inv])

section \<open>One row over a run\<close>

lemma ov_step_row:
  assumes "ov_inv q" and "i < length (simulations (ov_db q))"
  shows "i < length (simulations (ov_db (ov_step e q))) \<and>
    rtranclp sim_step (simulations (ov_db q) ! i) (simulations (ov_db (ov_step e q)) ! i)"
proof (cases e)
  case (Commit j)
  show ?thesis
  proof (cases "j < length (ov_txns q) \<and> finished (ov_txns q ! j)")
    case True
    with ov_inv_others(1) [OF assms(1), of j] assms(2) have "row_le (simulations (ov_db q) ! i) (own (ov_txns q ! j) (simulations (ov_db q) ! i))"
      by (simp add: txn_ok_def txn_rows_def)
    with True assms(2) Commit show ?thesis by (simp add: ov_step.simps seen_sims_def nth_append row_le_def)
  qed (use assms(2) Commit in \<open>auto simp: ov_step.simps\<close>)
qed (use assms(2) plain_ok(1) in \<open>auto simp: ov_step.simps\<close>)

text \<open>How often a row goes from queued to running in the committed database.\<close>

primrec ov_claim_count :: "nat \<Rightarrow> ov_event list \<Rightarrow> overlap \<Rightarrow> nat" where
  "ov_claim_count i [] q = 0"
| "ov_claim_count i (e # evs) q =
     (let q' = ov_step e q in
      (if s_state (simulations (ov_db q) ! i) = ''queued'' \<and> s_state (simulations (ov_db q') ! i) = ''running'' then 1 else 0) +
      ov_claim_count i evs q')"

lemma sim_step_running: "sim_step s r \<Longrightarrow> s_state r = ''running'' \<Longrightarrow> s_state s = ''queued'' \<or> s_state s = ''running''"
  by (induction rule: sim_step.induct) (auto simp: row_defs split: if_splits)

lemma sim_steps_attempts:
  assumes "rtranclp sim_step s r"
  shows "s_attempts s + (if s_state s = ''queued'' \<and> s_state r = ''running'' then 1 else 0) \<le> s_attempts r \<and>
    s_max_attempts r = s_max_attempts s"
  using assms
proof (induction rule: rtranclp_induct)
  case (step r q)
  from sim_step_attempts [OF step.hyps(2)] sim_step_running [OF step.hyps(2)] sim_step_frame [OF step.hyps(2)] step.IH show ?case
    by (auto split: if_splits)
qed simp

lemma sim_steps_terminal:
  assumes "rtranclp sim_step s r" and "terminal s"
  shows "s_state r = s_state s \<and> s_error r = s_error s \<and> s_finished_at r = s_finished_at s \<and> s_runner_id r = s_runner_id s"
  using assms
proof (induction rule: rtranclp_induct)
  case (step r q)
  then have "terminal r" by (simp add: terminal_def)
  with sim_step_terminal [OF step.hyps(2)] step.IH [OF step.prems] show ?case by simp
qed simp

lemma ov_run_row:
  assumes "ov_inv q" and "i < length (simulations (ov_db q))"
  shows "i < length (simulations (ov_db (ov_run evs q))) \<and>
    rtranclp sim_step (simulations (ov_db q) ! i) (simulations (ov_db (ov_run evs q)) ! i) \<and>
    s_attempts (simulations (ov_db q) ! i) + int (ov_claim_count i evs q) \<le> s_attempts (simulations (ov_db (ov_run evs q)) ! i)"
  using assms
proof (induction evs arbitrary: q)
  case (Cons e evs)
  from ov_step_row [OF Cons.prems, of e] have e: "i < length (simulations (ov_db (ov_step e q)))"
    "rtranclp sim_step (simulations (ov_db q) ! i) (simulations (ov_db (ov_step e q)) ! i)" by simp_all
  from Cons.IH [OF ov_step_inv [OF Cons.prems(1)] e(1)] sim_steps_attempts [OF e(2)] e(2) show ?case
    by (auto simp: Let_def)
qed simp

section \<open>Properties\<close>

lemma batch_count: "int (count_where P (batch_sims bid S)) = int (count_where (\<lambda>s. s_batch_id s = Some bid \<and> P s) S)"
  by (simp add: batch_sims_def count_where_def conj_commute)

text \<open>
  C5. However the transactions of runners, requests and the reaper overlap, what is committed stays in
  order: the tables keep keys, references and row states, no batch claims more succeeded or failed
  simulations than it has, and a batch is \<open>done\<close> only when at least its total have finished.
\<close>

theorem overlap_never_overstates:
  assumes "reachable d" and "q = ov_run evs (idle d)"
  shows "core_inv (ov_db q) \<and>
    (\<forall>b \<in> set (batches (ov_db q)). let sub = batch_sims (b_id b) (simulations (ov_db q)) in
       b_succeeded b \<le> int (count_where (\<lambda>s. s_state s = ''succeeded'') sub) \<and>
       b_failed b \<le> int (count_where (\<lambda>s. s_state s = ''failed'') sub) \<and>
       (b_state b = ''done'' \<longrightarrow> b_total b \<le> int (count_where terminal sub)))"
proof (intro conjI ballI)
  have core: "ov_core q" unfolding assms(2) by (rule ov_run_core [OF assms(1)])
  then show "core_inv (ov_db q)" by (simp add: ov_core_def)
  fix b assume "b \<in> set (batches (ov_db q))"
  with core have le: "bat_le (simulations (ov_db q)) b" by (simp add: ov_core_def ov_inv_def Let_def)
  have "count_where terminal S = count_where (\<lambda>s. s_state s = ''succeeded'') S + count_where (\<lambda>s. s_state s = ''failed'') S" for S
    unfolding terminal_def [abs_def] by (rule count_where_disj) simp
  with le show "let sub = batch_sims (b_id b) (simulations (ov_db q)) in
       b_succeeded b \<le> int (count_where (\<lambda>s. s_state s = ''succeeded'') sub) \<and>
       b_failed b \<le> int (count_where (\<lambda>s. s_state s = ''failed'') sub) \<and>
       (b_state b = ''done'' \<longrightarrow> b_total b \<le> int (count_where terminal sub))"
    by (auto simp: Let_def bat_le_def in_state_def batch_count)
qed

text \<open>
  C9. Whatever the overlap has lost, one sweep repairs: when nothing is in flight and every one of a
  batch's simulations has finished, the reaper's resync leaves exactly the row the trigger would
  compute, with the true counts and state \<open>done\<close>.
\<close>

theorem resync_repairs_overlap:
  assumes "reachable d" and "q = ov_run evs (idle d)" and "ov_txns q = []" and "b \<in> set (batches (ov_db q))"
    and "int (length (batch_sims (b_id b) (simulations (ov_db q)))) = b_total b"
    and "\<forall>s \<in> set (batch_sims (b_id b) (simulations (ov_db q))). terminal s"
    and "length (batches (ov_db q)) \<le> n"
  shows "rollup (simulations (ov_db q)) b \<in> set (batches (ov_db (ov_run (solo TResync n) q))) \<and>
    b_state (rollup (simulations (ov_db q)) b) = ''done'' \<and>
    simulations (ov_db (ov_run (solo TResync n) q)) = simulations (ov_db q)"
proof -
  let ?d = "ov_db q" and ?S = "simulations (ov_db q)"
  let ?sub = "batch_sims (b_id b) ?S"
  have core: "ov_core q" unfolding assms(2) by (rule ov_run_core [OF assms(1)])
  then have keys: "keys_ok ?d" and le: "bat_le ?S b" and total: "0 < b_total b" and sts: "\<forall>s \<in> set ?S. s_state s \<in> set sim_states"
    using assms(4) by (auto simp: ov_core_def ov_inv_def Let_def core_inv_def refs_ok_def lifecycle_ok_state)
  have all: "count_where (\<lambda>s. s_state s = ''queued'' \<or> s_state s = ''running'') ?sub = 0"
    "count_where (\<lambda>s. s_state s = ''succeeded'' \<or> s_state s = ''failed'') ?sub = length ?sub"
    using assms(6) by (auto simp: count_where_eq_0 terminal_def) (simp add: count_where_def terminal_def)
  have fin: "b_state (rollup ?S b) = ''done''" using all(2) assms(5) total by (simp add: rollup_def Let_def)
  have "rollup ?S b = (if stuck ?S b then resync_row ?S b else b)"
  proof (cases "stuck ?S b")
    case True
    with stuck_resync_eq_rollup [OF sts] show ?thesis by simp
  next
    case False
    with all(1) assms(5) total le have "b_state b = ''done''" by (fastforce simp: stuck_def Let_def bat_le_def)
    with le assms(5) all(2) have "b_succeeded b = in_state ''succeeded'' (b_id b) ?S" "b_failed b = in_state ''failed'' (b_id b) ?S"
      using counts_of_states(3) [of "b_id b" ?S] by (auto simp: bat_le_def counts_of_def Let_def)
    with fin \<open>b_state b = ''done''\<close> False show ?thesis
      by (simp add: rollup_split apply_counts_def counts_of_states)
  qed
  then have "rollup ?S b \<in> set (upd_where (stuck ?S) (resync_row ?S) (batches ?d))"
    using assms(4) by (auto simp: set_upd_where)
  moreover have "q = idle ?d" using assms(3) by (cases q) (simp add: idle_def)
  then have "ov_run (solo TResync n) q = idle (atomic TResync ?d)" using solo_resync [OF keys assms(7)] by simp
  ultimately show ?thesis using fin by (simp add: idle_def resync_stuck_batches_def)
qed



end
