(* ===== verification/OverlapCap.thy ===== *)
theory OverlapCap
  imports OverlapCore
begin

text \<open>
  The cap under overlap. The advisory lock admits one claim at a time, until it commits; everybody
  else can only take rows out of the running state, so what a claim has counted stays an upper bound.
\<close>

definition running_of :: "string \<Rightarrow> simulations_row list \<Rightarrow> nat" where
  "running_of u S = count_where (\<lambda>s. s_user_id s = u \<and> s_state s = ''running'') S"

definition caps :: "int \<Rightarrow> simulations_row list \<Rightarrow> bool" where
  "caps K S \<longleftrightarrow> (\<forall>u. int (running_of u S) \<le> K)"

lemma cap_ok_caps: "cap_ok K d \<longleftrightarrow> caps K (simulations d)"
  by (simp add: cap_ok_def caps_def running_of_def running_count_def)

text \<open>A transaction that starts nothing: its versions run only where the committed row does.\<close>

definition starts_nothing :: "simulations_row list \<Rightarrow> txn \<Rightarrow> bool" where
  "starts_nothing S t \<longleftrightarrow>
     (\<forall>s \<in> set S. s_state (own t s) = ''running'' \<longrightarrow> s_state s = ''running'') \<and> (\<forall>r \<in> set (t_new t). s_state r \<noteq> ''running'')"

lemma running_of_seen_le:
  assumes "txn_rows S t" and "starts_nothing S t"
  shows "running_of u (seen_sims t S) \<le> running_of u S"
proof -
  have new: "count_where (\<lambda>s. s_user_id s = u \<and> s_state s = ''running'') (t_new t) = 0"
    using assms(2) by (auto simp: starts_nothing_def count_where_eq_0)
  have "\<forall>s \<in> set S. s_user_id (own t s) = u \<and> s_state (own t s) = ''running'' \<longrightarrow> s_user_id s = u \<and> s_state s = ''running''"
    using assms by (auto simp: txn_rows_def row_le_def starts_nothing_def)
  then have "count_where (\<lambda>s. s_user_id s = u \<and> s_state s = ''running'') (map (own t) S) \<le> running_of u S"
    unfolding running_of_def by (induction S) auto
  with new show ?thesis by (simp add: running_of_def seen_sims_def)
qed

lemma caps_seen: "txn_rows S t \<Longrightarrow> starts_nothing S t \<Longrightarrow> caps K S \<Longrightarrow> caps K (seen_sims t S)"
  using running_of_seen_le unfolding caps_def by (meson of_nat_mono order_trans)

lemma starts_nothing_commit:
  assumes "txn_rows S t" "txn_rows S u" "disjoint_rows t u" "starts_nothing S t"
  shows "starts_nothing (seen_sims u S) t"
proof -
  have "s_state s = ''running''" if s: "s \<in> set (seen_sims u S)" and run: "s_state (own t s) = ''running''" for s
  proof (cases "row_locked t (s_id s)")
    case False
    with run show ?thesis by simp
  next
    case True
    then have "\<not> row_locked u (s_id s)" using assms(3) unfolding disjoint_rows_def by blast
    then have "s \<notin> set (t_new u)" by (auto simp: row_locked_def list_ex_iff)
    then obtain s0 where s0: "s0 \<in> set S" "s = own u s0" using s by (auto simp: seen_sims_def)
    with True have "s = s0" using own_id [OF assms(2) s0(1)] own_locked [OF _ disjoint_rows_sym [OF assms(3)]] by simp
    with s0 run assms(4) show ?thesis by (simp add: starts_nothing_def)
  qed
  with assms(4) show ?thesis by (simp add: starts_nothing_def)
qed

lemma caps_swap:
  assumes "txn_rows S t" "txn_rows S u" "disjoint_rows t u"
  shows "caps K (seen_sims t (seen_sims u S)) = caps K (seen_sims u (seen_sims t S))"
  by (simp add: caps_def running_of_def seen_swap [OF assms])

section \<open>Which statements start a simulation\<close>

fun stmt_starts_nothing :: "stmt \<Rightarrow> bool" where
  "stmt_starts_nothing (SUpdate fires P f) \<longleftrightarrow> (\<forall>d l s. P d l s \<longrightarrow> s_state (f s) = ''running'' \<longrightarrow> s_state s = ''running'')"
| "stmt_starts_nothing (SInsert g) \<longleftrightarrow> (\<forall>d r. g d = Some r \<longrightarrow> s_state r \<noteq> ''running'')"
| "stmt_starts_nothing SResync \<longleftrightarrow> True"

fun stmt_within :: "int \<Rightarrow> stmt \<Rightarrow> bool" where
  "stmt_within K (SUpdate fires P f) \<longleftrightarrow>
     (\<forall>d l. distinct (map s_id (simulations d)) \<longrightarrow> caps K (simulations d) \<longrightarrow> caps K (upd_where (P d l) f (simulations d)))"
| "stmt_within K _ \<longleftrightarrow> False"

fun kind_within :: "int \<Rightarrow> kind \<Rightarrow> bool" where
  "kind_within K (TClaim runner ver cap lease t) \<longleftrightarrow> cap \<le> K"
| "kind_within K _ \<longleftrightarrow> True"

fun event_within :: "int \<Rightarrow> ov_event \<Rightarrow> bool" where
  "event_within K (Begin k) \<longleftrightarrow> kind_within K k"
| "event_within K _ \<longleftrightarrow> True"

lemma claim_sims:
  "simulations (snd (claim_simulation runner ver cap lease l t d)) =
     upd_where (claimable ver cap d l) (claim_row runner lease t) (simulations d)"
  by (auto simp: claim_simulation_def claimable_def [abs_def] upd_where_none split: list.splits)

lemma program_starts_nothing: "\<not> is_claim k \<Longrightarrow> list_all stmt_starts_nothing (program k)"
  by (cases k) (auto simp: row_defs owned_by_def dest: insert_target_SomeD)

lemma program_within:
  assumes "is_claim k" and "kind_within K k"
  shows "list_all (stmt_within K) (program k)"
  using assms
proof (cases k)
  case (TClaim runner ver cap lease t)
  with assms(2) show ?thesis
    using claim_cap_ok [of K _ cap runner ver lease _ t] by (simp add: cap_ok_caps claim_sims)
qed simp_all

section \<open>The invariant\<close>

definition cap_txn :: "int \<Rightarrow> simulations_row list \<Rightarrow> txn \<Rightarrow> bool" where
  "cap_txn K S t \<longleftrightarrow>
     (if t_claim t then list_all (stmt_within K) (t_prog t) \<and> caps K (seen_sims t S)
      else list_all stmt_starts_nothing (t_prog t) \<and> starts_nothing S t)"

definition cap_inv :: "int \<Rightarrow> overlap \<Rightarrow> bool" where
  "cap_inv K q \<longleftrightarrow>
     ov_core q \<and> caps K (simulations (ov_db q)) \<and> (\<forall>t \<in> set (ov_txns q). cap_txn K (simulations (ov_db q)) t) \<and>
     count_where t_claim (ov_txns q) \<le> 1"

lemma exec_cap:
  assumes "txn_rows (simulations d) t" and "distinct (map s_id (simulations d))" and "cap_txn K (simulations d) t"
    and "exec lk d t = Runs t'"
  shows "cap_txn K (simulations d) t' \<and> t_claim t' = t_claim t"
proof -
  let ?S = "simulations d"
  from assms(4) obtain st sts where t: "t_writes t = []" "t_fires t = []" "t_prog t = st # sts"
    by (auto simp: exec_def split: list.splits)
  let ?t = "t\<lparr> t_prog := sts \<rparr>"
  show ?thesis
  proof (cases st)
    case (SUpdate fires P f)
    with assms(4) t have ex: "exec_update fires P f lk d ?t = Runs t'" by (simp add: exec_def)
    define l where "l = filter lk (map s_id (simulations (seen t d)))"
    have "P (seen t d) l = P (seen ?t d) (filter lk (map s_id (simulations (seen ?t d))))" by (simp add: l_def same_seen)
    note x = exec_update_seen [OF assms(2) ex this]
    show ?thesis
    proof (cases "t_claim t")
      case True
      with assms(3) t SUpdate have "stmt_within K (SUpdate fires P f)" "caps K (simulations (seen t d))"
        by (simp_all add: cap_txn_def)
      moreover have "distinct (map s_id (simulations (seen t d)))" using seen_distinct [OF assms(1,2)] by simp
      ultimately have "caps K (upd_where (P (seen t d) l) f (simulations (seen t d)))" unfolding stmt_within.simps by blast
      then show ?thesis using True assms(3) t x(6,8) unfolding cap_txn_def x(1) by (simp add: same_seen)
    next
      case False
      with assms(3) t SUpdate have "\<And>s. P (seen t d) l s \<Longrightarrow> s_state (f s) = ''running'' \<Longrightarrow> s_state s = ''running''"
        "starts_nothing ?S t" by (auto simp: cap_txn_def)
      then have "starts_nothing ?S t'"
        unfolding starts_nothing_def x(3) by (auto simp: x(2) same_seen elim!: in_upd_whereE)
      then show ?thesis using False assms(3) t x(6,8) by (simp add: cap_txn_def)
    qed
  next
    case (SInsert g)
    with assms(4) t obtain r where r: "g (seen t d) = Some r" and t': "t' = ?t\<lparr> t_new := t_new t @ [r], t_fires := [s_batch_id r] \<rparr>"
      by (auto simp: exec_def split: option.splits if_splits)
    have "\<not> t_claim t" "s_state r \<noteq> ''running''" "starts_nothing ?S t" using assms(3) t r SInsert by (auto simp: cap_txn_def split: if_splits)
    moreover have "own t' = own t" by (simp add: t' own_def [abs_def])
    ultimately show ?thesis using assms(3) t by (simp add: cap_txn_def starts_nothing_def) (simp add: t')
  next
    case SResync
    with assms(3,4) t show ?thesis by (auto simp: exec_def cap_txn_def starts_nothing_def same_seen split: if_splits)
  qed
qed

lemma snap_cap: "snap d t = Runs t' \<Longrightarrow> cap_txn K S t' = cap_txn K S t \<and> t_claim t' = t_claim t"
  by (auto simp: snap_def cap_txn_def starts_nothing_def same_seen split: list.splits option.splits)

lemma write_row_cap: "write_row bk d t = Runs t' \<Longrightarrow> cap_txn K S t' = cap_txn K S t \<and> t_claim t' = t_claim t"
  by (auto simp: write_row_def cap_txn_def starts_nothing_def same_seen split: list.splits option.splits if_splits)

lemma claims_others:
  assumes "i < length (ov_txns q)"
  shows "count_where t_claim (ov_txns q) = (if t_claim (ov_txns q ! i) then 1 else 0) + count_where t_claim (others_of i q)"
    "count_where t_claim ((ov_txns q)[i := t]) = (if t_claim t then 1 else 0) + count_where t_claim (others_of i q)"
proof -
  from others_split [OF assms] obtain us vs where *: "ov_txns q = us @ ov_txns q ! i # vs" "others_of i q = us @ vs"
    "\<And>t. (ov_txns q)[i := t] = us @ t # vs" by metis
  show "count_where t_claim (ov_txns q) = (if t_claim (ov_txns q ! i) then 1 else 0) + count_where t_claim (others_of i q)"
    by (subst *(1)) (simp add: *(2))
  show "count_where t_claim ((ov_txns q)[i := t]) = (if t_claim t then 1 else 0) + count_where t_claim (others_of i q)"
    by (simp add: *(2,3))
qed

lemma advance_claims:
  assumes "\<And>t'. i < length (ov_txns q) \<Longrightarrow> step (ov_txns q ! i) = Runs t' \<Longrightarrow> t_claim t' = t_claim (ov_txns q ! i)"
  shows "count_where t_claim (ov_txns (advance i step q)) \<le> count_where t_claim (ov_txns q)"
  using assms claims_others [of i q] by (auto simp: advance_def split: outcome.splits)

text \<open>One event; \<open>T\<close> collects what a step of one transaction has to keep.\<close>

lemma advance_cap:
  assumes "cap_inv K q"
    and "\<And>t t'. t \<in> set (ov_txns q) \<Longrightarrow> step t = Runs t' \<Longrightarrow> cap_txn K (simulations (ov_db q)) t' \<and> t_claim t' = t_claim t"
  shows "\<forall>t \<in> set (ov_txns (advance i step q)). cap_txn K (simulations (ov_db q)) t"
    "count_where t_claim (ov_txns (advance i step q)) \<le> 1"
proof -
  show "\<forall>t \<in> set (ov_txns (advance i step q)). cap_txn K (simulations (ov_db q)) t"
    by (rule advance_all) (use assms in \<open>auto simp: cap_inv_def\<close>)
  have "count_where t_claim (ov_txns (advance i step q)) \<le> count_where t_claim (ov_txns q)"
    by (rule advance_claims) (use assms(2) nth_mem in blast)
  with assms(1) show "count_where t_claim (ov_txns (advance i step q)) \<le> 1" by (simp add: cap_inv_def)
qed

lemma commit_cap:
  assumes "cap_inv K q" and "i < length (ov_txns q)"
  shows "caps K (seen_sims (ov_txns q ! i) (simulations (ov_db q)))"
    "\<forall>t \<in> set (others_of i q). cap_txn K (seen_sims (ov_txns q ! i) (simulations (ov_db q))) t"
    "count_where t_claim (others_of i q) \<le> 1"
proof -
  let ?S = "simulations (ov_db q)" and ?u = "ov_txns q ! i"
  have inv: "ov_inv q" and caps: "caps K ?S" and all: "\<forall>t \<in> set (ov_txns q). cap_txn K ?S t"
    and one: "count_where t_claim (ov_txns q) \<le> 1"
    using assms(1) by (simp_all add: cap_inv_def ov_core_def)
  note o = ov_inv_others [OF inv assms(2)]
  have u: "txn_rows ?S ?u" "cap_txn K ?S ?u" using o(1) all assms(2) by (simp_all add: txn_ok_def)
  show "caps K (seen_sims ?u ?S)" using u caps caps_seen by (auto simp: cap_txn_def split: if_splits)
  show "count_where t_claim (others_of i q) \<le> 1" using one claims_others(1) [OF assms(2)] by simp
  show "\<forall>t \<in> set (others_of i q). cap_txn K (seen_sims ?u ?S) t"
  proof
    fix t assume t: "t \<in> set (others_of i q)"
    then have dis: "disjoint_rows t ?u" and rows: "txn_rows ?S t" and cap: "cap_txn K ?S t"
      using o(3) all in_others by (auto simp: disjoint_rows_sym txn_ok_def)
    show "cap_txn K (seen_sims ?u ?S) t"
    proof (cases "t_claim t")
      case False
      with cap starts_nothing_commit [OF rows u(1) dis] show ?thesis by (simp add: cap_txn_def)
    next
      case True
      then have "0 < count_where t_claim (others_of i q)" using t by (auto simp: count_where_pos)
      then have "\<not> t_claim ?u" using one claims_others(1) [OF assms(2)] by auto
      then have "starts_nothing (seen_sims t ?S) ?u"
        using u starts_nothing_commit [OF u(1) rows disjoint_rows_sym [OF dis]] by (simp add: cap_txn_def)
      moreover have "caps K (seen_sims t ?S)" using cap True by (simp add: cap_txn_def)
      ultimately have "caps K (seen_sims ?u (seen_sims t ?S))"
        using caps_seen txn_rows_commit [OF u(1) rows disjoint_rows_sym [OF dis]] by blast
      with True cap caps_swap [OF rows u(1) dis] show ?thesis by (simp add: cap_txn_def)
    qed
  qed
qed

lemma ov_step_cap:
  assumes "cap_inv K q" and "event_within K e"
  shows "cap_inv K (ov_step e q)"
proof -
  from assms(1) have core: "ov_core q" and caps: "caps K (simulations (ov_db q))"
    and all: "\<forall>t \<in> set (ov_txns q). cap_txn K (simulations (ov_db q)) t" and one: "count_where t_claim (ov_txns q) \<le> 1"
    by (simp_all add: cap_inv_def)
  have rows: "txn_rows (simulations (ov_db q)) t" if "t \<in> set (ov_txns q)" for t
    using core that by (simp add: ov_core_def ov_inv_def Let_def txn_ok_def)
  have dist: "distinct (map s_id (simulations (ov_db q)))" using core by (simp add: ov_core_def ov_inv_def Let_def)
  have "caps K (simulations (ov_db (ov_step e q))) \<and>
    (\<forall>t \<in> set (ov_txns (ov_step e q)). cap_txn K (simulations (ov_db (ov_step e q))) t) \<and> count_where t_claim (ov_txns (ov_step e q)) \<le> 1"
  proof (cases e)
    case (Begin k)
    have "cap_txn K (simulations (ov_db q)) (new_txn k)"
      using assms(2) caps program_within [of k K] program_starts_nothing [of k] Begin
      by (simp add: cap_txn_def starts_nothing_def)
    moreover have "count_where t_claim (ov_txns q) = 0" if "\<not> list_ex t_claim (ov_txns q)"
      using that by (auto simp: count_where_eq_0 list_ex_iff)
    ultimately show ?thesis using caps all one Begin by (auto simp: ov_step.simps)
  next
    case (Exec i)
    show ?thesis unfolding Exec ov_step.simps advance_db
      by (intro conjI caps advance_cap [OF assms(1)] exec_cap [OF rows dist]) (use all in auto)
  next
    case (Snap i)
    show ?thesis unfolding Snap ov_step.simps advance_db
      by (intro conjI caps advance_cap [OF assms(1)]) (use all snap_cap in auto)
  next
    case (WriteRow i)
    show ?thesis unfolding WriteRow ov_step.simps advance_db
      by (intro conjI caps advance_cap [OF assms(1)]) (use all write_row_cap in auto)
  next
    case (Commit i)
    then show ?thesis using caps all one commit_cap [OF assms(1)] by (simp add: ov_step.simps)
  next
    case (Rollback i)
    have "count_where t_claim (others_of i q) \<le> count_where t_claim (ov_txns q)"
      using claims_others(1) [of i q] by (cases "i < length (ov_txns q)") (simp_all add: others_of_def)
    then show ?thesis using caps all one in_others Rollback by (fastforce simp: ov_step.simps)
  next
    case (Plain x a)
    then show ?thesis using caps all one plain_ok(1) by (simp add: ov_step.simps)
  qed
  with ov_step_core [OF core] show ?thesis by (simp add: cap_inv_def)
qed

lemma cap_inv_idle: "db_inv d \<Longrightarrow> cap_ok K d \<Longrightarrow> cap_inv K (idle d)"
  using ov_core_idle [of d] by (simp add: cap_inv_def cap_ok_caps) (simp add: idle_def)

interpretation capped_overlap: guarded_invariant "idle empty_db" ov_step "event_within (int K)" "cap_inv (int K)" for K
proof
  have "cap_ok (int K) empty_db" by (simp add: cap_ok_def running_count_def empty_db_def)
  then show "cap_inv (int K) (idle empty_db)" by (rule cap_inv_idle [OF db_inv_empty])
qed (rule ov_step_cap)

section \<open>Properties\<close>

text \<open>
  C6. The cap survives overlap: when every claim asks for at most \<open>K\<close> running simulations per user, no
  interleaving of claims, heartbeats, finishes, back-fills, inserts, reaper passes, sweeps, commits
  and rollbacks ever commits a database in which a user has more.
\<close>

theorem overlap_keeps_cap:
  assumes "reachable d" and "cap_ok K d" and "list_all (event_within K) evs"
  shows "cap_ok K (ov_db (ov_run evs (idle d)))"
proof -
  have "0 \<le> K" using assms(2) unfolding cap_ok_def by (meson of_nat_0_le_iff order_trans)
  then obtain n where K: "K = int n" by (rule nonneg_int_cases)
  have "cap_inv K (idle d)" by (rule cap_inv_idle [OF reachable_inv [OF assms(1)] assms(2)])
  then have "cap_inv K (ov_run evs (idle d))"
    unfolding ov_run_def using capped_overlap.ginv_run assms(3) by (simp add: K)
  then show ?thesis by (simp add: cap_inv_def cap_ok_caps)
qed

end
