(* ===== verification/OverlapExact.thy ===== *)
theory OverlapExact
  imports OverlapCap
begin

text \<open>
  When the counts are exact under overlap. A transaction uses a batch while it holds a state change of
  one of its simulations, a new simulation of it, or an unfinished rollup or sweep of its row. As long
  as at most one transaction at a time uses a batch, its committed row is exact, whatever the
  transactions of other batches, heartbeats and back-fills do meanwhile.
\<close>

definition batch_states :: "string \<Rightarrow> simulations_row list \<Rightarrow> string list" where
  "batch_states bid S = map s_state (batch_sims bid S)"

lemma batch_states_simps [simp]:
  "batch_states bid [] = []" "batch_states bid (S @ T) = batch_states bid S @ batch_states bid T"
  "batch_states bid (s # S) = (if s_batch_id s = Some bid then s_state s # batch_states bid S else batch_states bid S)"
  by (simp_all add: batch_states_def batch_sims_def)

lemma count_states: "count_where (\<lambda>s. P (s_state s)) S = count_where P (map s_state S)"
  by (induction S) simp_all

lemma counts_of_cong: "batch_states bid S = batch_states bid S' \<Longrightarrow> counts_of bid S = counts_of bid S'"
  unfolding counts_of_def Let_def batch_states_def
  by (simp add: count_states [of "\<lambda>x. x = ''succeeded''"] count_states [of "\<lambda>x. x = ''failed''"] count_states [of "\<lambda>x. x = ''running''"]
      count_states [of "\<lambda>x. x = ''succeeded'' \<or> x = ''failed''"]) (metis length_map)

lemma batch_states_map:
  assumes "\<And>s. s \<in> set S \<Longrightarrow> s_batch_id (g s) = s_batch_id s" "\<And>s. s \<in> set S \<Longrightarrow> s_batch_id s = Some bid \<Longrightarrow> s_state (g s) = s_state (h s)"
    "\<And>s. s \<in> set S \<Longrightarrow> s_batch_id (h s) = s_batch_id s"
  shows "batch_states bid (map g S) = batch_states bid (map h S)"
  using assms by (induction S) auto

section \<open>Using a batch\<close>

definition moves :: "string \<Rightarrow> simulations_row list \<Rightarrow> txn \<Rightarrow> bool" where
  "moves bid S t \<longleftrightarrow>
     list_ex (\<lambda>s. s_batch_id s = Some bid \<and> s_state (own t s) \<noteq> s_state s) S \<or> list_ex (\<lambda>r. s_batch_id r = Some bid) (t_new t)"

definition uses :: "string \<Rightarrow> simulations_row list \<Rightarrow> txn \<Rightarrow> bool" where
  "uses bid S t \<longleftrightarrow>
     moves bid S t \<or> Some bid \<in> set (t_fires t) \<or> bid \<in> set (map write_id (t_writes t)) \<or> t_bats t bid \<noteq> None"

definition one_user :: "string \<Rightarrow> overlap \<Rightarrow> bool" where
  "one_user bid q \<longleftrightarrow> count_where (uses bid (simulations (ov_db q))) (ov_txns q) \<le> 1"

primrec batch_serial :: "string \<Rightarrow> ov_event list \<Rightarrow> overlap \<Rightarrow> bool" where
  "batch_serial bid [] q \<longleftrightarrow> one_user bid q"
| "batch_serial bid (e # evs) q \<longleftrightarrow> one_user bid q \<and> batch_serial bid evs (ov_step e q)"

lemma not_moves:
  assumes "txn_rows S t" and "\<not> moves bid S t"
  shows "batch_states bid (seen_sims t S) = batch_states bid S"
proof -
  have "batch_states bid (map (own t) S) = batch_states bid (map (\<lambda>s. s) S)"
    by (rule batch_states_map) (use assms in \<open>auto simp: txn_rows_def row_le_def moves_def list_ex_iff\<close>)
  moreover have "batch_states bid (t_new t) = []"
    using assms(2) by (auto simp: moves_def list_ex_iff batch_states_def batch_sims_def filter_empty_conv)
  ultimately show ?thesis by (simp add: seen_sims_def)
qed

lemma states_commit:
  assumes "txn_rows S t" "txn_rows S u" "disjoint_rows t u" and "\<not> moves bid S u"
  shows "batch_states bid (seen_sims t (seen_sims u S)) = batch_states bid (seen_sims t S)"
proof -
  have "s_batch_id (own u s) = s_batch_id s \<and> s_batch_id (own t s) = s_batch_id s \<and> s_batch_id (own t (own u s)) = s_batch_id s \<and>
      (s_batch_id s = Some bid \<longrightarrow> s_state (own t (own u s)) = s_state (own t s))" if s: "s \<in> set S" for s
  proof (cases "row_locked t (s_id s)")
    case True
    then have "own u s = s" by (rule own_locked) (rule disjoint_rows_sym [OF assms(3)])
    with s assms(1) show ?thesis by (simp add: txn_rows_def row_le_def)
  next
    case False
    then have "own t s = s" "own t (own u s) = own u s" using own_id [OF assms(2) s] by simp_all
    with s assms(2,4) show ?thesis by (auto simp: txn_rows_def row_le_def moves_def list_ex_iff)
  qed
  then have "batch_states bid (map (own t \<circ> own u) S) = batch_states bid (map (own t) S)"
    by (intro batch_states_map) simp_all
  moreover have "map (own t) (t_new u) = t_new u" using own_new [OF assms(1-3)] by (simp add: map_idI)
  moreover have "batch_states bid (t_new u) = []"
    using assms(4) by (auto simp: moves_def list_ex_iff batch_states_def batch_sims_def filter_empty_conv)
  ultimately show ?thesis by (simp add: seen_sims_def)
qed

lemma moves_commit:
  assumes "txn_rows S t" "txn_rows S u" "disjoint_rows t u" and "moves bid (seen_sims u S) t"
  shows "moves bid S t"
proof (cases "list_ex (\<lambda>r. s_batch_id r = Some bid) (t_new t)")
  case False
  with assms(4) obtain s where s: "s \<in> set (seen_sims u S)" "s_batch_id s = Some bid" "s_state (own t s) \<noteq> s_state s"
    by (auto simp: moves_def list_ex_iff)
  then have locked: "row_locked t (s_id s)" by (metis own_other)
  then have "\<not> row_locked u (s_id s)" using assms(3) unfolding disjoint_rows_def by blast
  then have "s \<notin> set (t_new u)" by (auto simp: row_locked_def list_ex_iff)
  then obtain s0 where s0: "s0 \<in> set S" "s = own u s0" using s(1) by (auto simp: seen_sims_def)
  with locked have "s = s0" using own_id [OF assms(2) s0(1)] own_locked [OF _ disjoint_rows_sym [OF assms(3)]] by simp
  with s s0 show ?thesis by (auto simp: moves_def list_ex_iff)
qed (simp add: moves_def)

section \<open>Exact rows\<close>

definition exact_row :: "string \<Rightarrow> simulations_row list \<Rightarrow> batches_row list \<Rightarrow> bool" where
  "exact_row bid S B \<longleftrightarrow> (\<forall>b \<in> set B. b_id b = bid \<longrightarrow> rollup S b = b)"

lemma exact_row_cong:
  assumes "exact_row bid S B" and "batch_states bid S = batch_states bid S'" and "\<And>b. b \<in> set B' \<Longrightarrow> b_id b = bid \<Longrightarrow> b \<in> set B"
  shows "exact_row bid S' B'"
  using assms counts_of_cong [OF assms(2)] by (auto simp: exact_row_def rollup_split)

text \<open>A write that is still to come and will leave the row exact in the transaction's view \<open>S\<close>, \<open>B\<close>.\<close>

fun pending_ok :: "string \<Rightarrow> simulations_row list \<Rightarrow> batches_row list \<Rightarrow> batch_write \<Rightarrow> bool" where
  "pending_ok bid S B (Trigger i c) \<longleftrightarrow> c = counts_of bid S"
| "pending_ok bid S B (Repair i c) \<longleftrightarrow> c = counts_of bid S \<and> c_inserted c = c_done c \<and> exact_row bid S B"

definition view_ok :: "string \<Rightarrow> simulations_row list \<Rightarrow> batches_row list \<Rightarrow> txn \<Rightarrow> bool" where
  "view_ok bid S B t \<longleftrightarrow>
     Some bid \<in> set (t_fires t) \<or>
     (if bid \<in> set (map write_id (t_writes t)) then \<forall>w \<in> set (t_writes t). write_id w = bid \<longrightarrow> pending_ok bid (seen_sims t S) (seen_bats t B) w
      else exact_row bid (seen_sims t S) (seen_bats t B))"

lemma apply_write_exact:
  assumes "pending_ok bid S B w" and "b_id b = bid" and "b \<in> set B"
  shows "rollup S (apply_write w b) = apply_write w b"
proof (cases w)
  case (Trigger i c)
  with assms have "apply_write w b = rollup S b" by (simp add: rollup_split)
  then show ?thesis by simp
next
  case (Repair i c)
  with assms have c: "c = counts_of bid S" "c_inserted c = c_done c" "rollup S b = b" by (auto simp: exact_row_def)
  then have "repair_counts c b = (if List.member [''expanding'', ''queued'', ''running''] (b_state b) \<and> b_total b > 0 \<and> c_inserted c \<ge> b_total b
      then rollup S b else b)" using assms(2) by (auto simp: repair_counts_def rollup_split apply_counts_def)
  with Repair c(3) show ?thesis by simp
qed

lemma in_seen_bats:
  assumes "txn_ok S t" and "c \<in> set (seen_bats t B)"
  obtains "c \<in> set B" "t_bats t (b_id c) = None" | b where "b \<in> set B" "b_id b = b_id c" "t_bats t (b_id c) = Some c"
proof -
  obtain b where b: "b \<in> set B" "c = (case t_bats t (b_id b) of None \<Rightarrow> b | Some c \<Rightarrow> c)"
    using assms(2) by (auto simp: seen_bats_def)
  show ?thesis
  proof (cases "t_bats t (b_id b)")
    case None
    with b that(1) show ?thesis by simp
  next
    case (Some c')
    with b assms(1) have "b_id b = b_id c" "c' = c" by (auto simp: txn_ok_def)
    with b(1) Some that(2) show ?thesis by simp
  qed
qed

lemma view_of_nonuser:
  assumes "txn_ok S t" and "exact_row bid S B" and "\<not> uses bid S t"
  shows "view_ok bid S B t"
proof -
  have rows: "txn_rows S t" using assms(1) by (simp add: txn_ok_def)
  have "exact_row bid (seen_sims t S) (seen_bats t B)"
  proof (rule exact_row_cong [OF assms(2)])
    show "batch_states bid S = batch_states bid (seen_sims t S)" using not_moves [OF rows] assms(3) by (simp add: uses_def)
    fix c assume "c \<in> set (seen_bats t B)" "b_id c = bid"
    then show "c \<in> set B" using assms(3) by (auto simp: uses_def elim!: in_seen_bats [OF assms(1)])
  qed
  with assms(3) show ?thesis by (simp add: view_ok_def uses_def)
qed

section \<open>Steps of the using transaction\<close>

fun stmt_fires :: "stmt \<Rightarrow> bool" where
  "stmt_fires (SUpdate fires P f) \<longleftrightarrow> fires \<or> (\<forall>s. s_state (f s) = s_state s)"
| "stmt_fires _ \<longleftrightarrow> True"

lemma program_fires: "list_all stmt_fires (program k)"
  by (cases k) (simp_all add: row_defs)

lemma upd_where_states:
  assumes "\<And>s. s \<in> set S \<Longrightarrow> P s \<Longrightarrow> s_batch_id (f s) = s_batch_id s" and "\<And>s. s \<in> set S \<Longrightarrow> P s \<Longrightarrow> s_batch_id s = Some bid \<Longrightarrow> s_state (f s) = s_state s"
  shows "batch_states bid (upd_where P f S) = batch_states bid S"
  using batch_states_map [of S "\<lambda>s. if P s then f s else s" bid "\<lambda>s. s"] assms by (simp add: upd_where_def)

lemma seen_bats_same: "seen_bats (t\<lparr> t_prog := p \<rparr>) = seen_bats t" "t_bats t' = t_bats t \<Longrightarrow> seen_bats t' = seen_bats t"
  by (simp_all add: seen_bats_def fun_eq_iff)

lemma exec_view:
  assumes "txn_ok (simulations d) t" and "distinct (map s_id (simulations d))" and "list_all stmt_fires (t_prog t)"
    and "view_ok bid (simulations d) (batches d) t" and "exec lk d t = Runs t'"
  shows "view_ok bid (simulations d) (batches d) t'"
proof -
  let ?S = "simulations d"
  from assms(5) obtain st sts where t: "t_writes t = []" "t_fires t = []" "t_prog t = st # sts"
    by (auto simp: exec_def split: list.splits)
  let ?t = "t\<lparr> t_prog := sts \<rparr>"
  have ok: "txn_ok ?S ?t" "stmt_ok st" "txn_rows ?S t" using assms(1) t by (auto simp: txn_ok_def same_seen same_rows)
  have exact: "exact_row bid (seen_sims t ?S) (seen_bats t (batches d))" using assms(4) t by (simp add: view_ok_def)
  show ?thesis
  proof (cases st)
    case (SUpdate fires P f)
    with assms(5) t have ex: "exec_update fires P f lk d ?t = Runs t'" by (simp add: exec_def)
    define hit where "hit = P (seen ?t d) (filter lk (map s_id (simulations (seen ?t d))))"
    note x = exec_update_seen [OF assms(2) ex hit_def]
    show ?thesis
    proof (cases "Some bid \<in> set (t_fires t')")
      case False
      have le: "row_le s (f s)" if "s \<in> set (seen_sims t ?S)" "hit s" for s
        using ok(2) that seen_distinct [OF ok(3) assms(2)] seen_states [OF ok(3)]
        unfolding SUpdate stmt_ok.simps hit_def same_seen simulations_seen(1) [symmetric] by blast
      have "batch_states bid (upd_where hit f (seen_sims t ?S)) = batch_states bid (seen_sims t ?S)"
      proof (rule upd_where_states)
        fix s assume s: "s \<in> set (seen_sims t ?S)" "hit s"
        with le show "s_batch_id (f s) = s_batch_id s" by (simp add: row_le_def)
        assume "s_batch_id s = Some bid"
        with s False x(7) have "\<not> fires" by (force simp: same_seen)
        with assms(3) t SUpdate show "s_state (f s) = s_state s" by simp
      qed
      then have "exact_row bid (seen_sims t' ?S) (seen_bats t' (batches d))"
        by (intro exact_row_cong [OF exact]) (use x(1,4) in \<open>simp_all add: same_seen seen_bats_def\<close>)
      with t x(5) show ?thesis by (simp add: view_ok_def)
    qed (simp add: view_ok_def)
  next
    case (SInsert g)
    with assms(5) t obtain r where t': "t' = ?t\<lparr> t_new := t_new t @ [r], t_fires := [s_batch_id r] \<rparr>"
      by (auto simp: exec_def split: option.splits if_splits)
    have see: "seen_sims t' ?S = seen_sims t ?S @ [r]" "seen_bats t' = seen_bats t"
      unfolding t' by (simp_all add: seen_sims_def own_def [abs_def] seen_bats_def fun_eq_iff)
    have "exact_row bid (seen_sims t' ?S) (seen_bats t' (batches d))" if "s_batch_id r \<noteq> Some bid"
      using exact_row_cong [OF exact, of "seen_sims t ?S @ [r]"] that by (simp add: see)
    moreover have "t_writes t' = []" "t_fires t' = [s_batch_id r]" using t by (simp_all add: t')
    ultimately show ?thesis by (cases "s_batch_id r = Some bid") (simp_all add: view_ok_def)
  next
    case SResync
    let ?R = "filter (stuck (seen_sims t ?S)) (seen_bats t (batches d))"
    have t': "t' = ?t\<lparr> t_writes := map (\<lambda>b. Repair (b_id b) (counts_of (b_id b) (seen_sims t ?S))) ?R \<rparr>"
      using assms(5) t SResync by (simp add: exec_def)
    have "c_inserted (counts_of (b_id b) (seen_sims t ?S)) = c_done (counts_of (b_id b) (seen_sims t ?S))" if "b \<in> set ?R" for b
      using write_le_repair [of "seen_sims t ?S" b] that seen_states [OF ok(3)] by (simp add: counts_of_states)
    with exact t show ?thesis by (auto simp: view_ok_def t' same_seen seen_bats_def)
  qed
qed

lemma snap_view:
  assumes "view_ok bid (simulations d) (batches d) t" and "snap d t = Runs t'"
  shows "view_ok bid (simulations d) (batches d) t'"
proof -
  from assms(2) obtain f fs where t: "t_writes t = []" "t_fires t = f # fs" by (auto simp: snap_def split: list.splits)
  show ?thesis
  proof (cases f)
    case None
    with assms t show ?thesis by (auto simp: snap_def view_ok_def same_seen seen_bats_def)
  next
    case (Some i)
    have t': "t' = t\<lparr> t_fires := fs, t_writes := [Trigger i (counts_of i (seen_sims t (simulations d)))] \<rparr>"
      using assms(2) t Some by (simp add: snap_def)
    show ?thesis using assms(1) t Some by (auto simp: view_ok_def t' same_seen seen_bats_def)
  qed
qed

lemma write_row_view:
  assumes "view_ok bid (simulations d) (batches d) t" and "distinct (map b_id (batches d))"
    and "\<forall>i b. t_bats t i = Some b \<longrightarrow> b_id b = i" and "write_row bk d t = Runs t'"
  shows "view_ok bid (simulations d) (batches d) t'"
proof -
  let ?S = "seen_sims t (simulations d)" and ?B = "seen_bats t (batches d)"
  from assms(4) obtain w ws where w: "t_writes t = w # ws" and "\<not> bk (write_id w)"
    by (auto simp: write_row_def split: list.splits if_splits)
  let ?u = "t\<lparr> t_writes := ws \<rparr>"
  have eq: "seen_bats ?u = seen_bats t" by (simp add: seen_bats_def fun_eq_iff)
  have t': "(case query_row (\<lambda>b. b_id b = write_id w) (seen_bats ?u (batches d)) of
            None \<Rightarrow> ?u | Some b \<Rightarrow> ?u\<lparr> t_bats := (t_bats ?u)(write_id w \<mapsto> apply_write w b) \<rparr>) = t'"
    using assms(4) w \<open>\<not> bk (write_id w)\<close> by (simp add: write_row_def eq split: option.splits)
  have "bats_ok d ?u" using assms(2,3) by (simp add: bats_ok_def)
  from seen_bats_write [OF this apply_write_id t'] have B': "seen_bats t' (batches d) = upd_where (\<lambda>b. b_id b = write_id w) (apply_write w) ?B"
    and rows: "t_rows t' = t_rows t" "t_new t' = t_new t" by (simp_all add: eq)
  have S': "seen_sims t' (simulations d) = ?S" using rows by (simp add: seen_sims_def own_def [abs_def])
  have f: "t_fires t' = t_fires t" "t_writes t' = ws" using t' by (auto split: option.splits)
  show ?thesis
  proof (cases "Some bid \<in> set (t_fires t)")
    case False
    have exact: "exact_row bid ?S (seen_bats t' (batches d))"
      if "write_id w = bid \<Longrightarrow> pending_ok bid ?S ?B w" "write_id w \<noteq> bid \<Longrightarrow> exact_row bid ?S ?B"
      unfolding B' exact_row_def
    proof (intro ballI impI)
      fix c assume "c \<in> set (upd_where (\<lambda>b. b_id b = write_id w) (apply_write w) ?B)" and c: "b_id c = bid"
      then obtain b where b: "b \<in> set ?B" "c = (if b_id b = write_id w then apply_write w b else b)" by (auto simp: set_upd_where)
      show "rollup ?S c = c"
      proof (cases "b_id b = write_id w")
        case True
        with b c have "write_id w = bid" by simp
        with True b that(1) show ?thesis using apply_write_exact [of bid ?S ?B w b] by simp
      next
        case False
        with b c that(2) show ?thesis by (simp add: exact_row_def)
      qed
    qed
    show ?thesis
    proof (cases "bid \<in> set (map write_id (w # ws))")
      case True
      with assms(1) False w have p: "\<forall>v \<in> set (w # ws). write_id v = bid \<longrightarrow> pending_ok bid ?S ?B v" by (simp add: view_ok_def)
      have "pending_ok bid ?S (seen_bats t' (batches d)) v" if v: "v \<in> set ws" "write_id v = bid" for v
      proof -
        have "pending_ok bid ?S ?B v" using p v by simp
        moreover have "exact_row bid ?S (seen_bats t' (batches d))" if "exact_row bid ?S ?B" using exact p that by simp
        ultimately show ?thesis by (cases v) simp_all
      qed
      moreover have "exact_row bid ?S (seen_bats t' (batches d))" if "bid \<notin> set (map write_id ws)"
        by (rule exact) (use p True that in auto)
      ultimately show ?thesis by (simp add: view_ok_def S' f)
    next
      case False
      with assms(1) \<open>Some bid \<notin> set (t_fires t)\<close> w have "exact_row bid ?S ?B" by (simp add: view_ok_def)
      then have "exact_row bid ?S (seen_bats t' (batches d))" by (intro exact) (use False in simp_all)
      with False show ?thesis by (simp add: view_ok_def S' f)
    qed
  qed (simp add: view_ok_def f)
qed

section \<open>The invariant\<close>

definition exact_inv :: "string \<Rightarrow> overlap \<Rightarrow> bool" where
  "exact_inv bid q \<longleftrightarrow>
     ov_core q \<and> bid \<in> b_id ` set (batches (ov_db q)) \<and> exact_row bid (simulations (ov_db q)) (batches (ov_db q)) \<and>
     (\<forall>t \<in> set (ov_txns q). list_all stmt_fires (t_prog t) \<and> view_ok bid (simulations (ov_db q)) (batches (ov_db q)) t)"

lemma seen_bats_within:
  assumes "txn_ok S t" and "\<And>b. b \<in> set B' \<Longrightarrow> b_id b = bid \<Longrightarrow> b \<in> set B" and "c \<in> set (seen_bats t B')" and "b_id c = bid"
  shows "c \<in> set (seen_bats t B)"
proof (rule in_seen_bats [OF assms(1,3)])
  assume "c \<in> set B'" "t_bats t (b_id c) = None"
  with assms(2) [of c] assms(4) show ?thesis by (force simp: seen_bats_def)
next
  fix b assume "b \<in> set B'" "b_id b = b_id c" "t_bats t (b_id c) = Some c"
  with assms(2) [of b] assms(4) show ?thesis by (force simp: seen_bats_def)
qed

lemma view_ok_cong:
  assumes "view_ok bid S B t" and "txn_ok S t" and "batch_states bid (seen_sims t S) = batch_states bid (seen_sims t S')"
    and "\<And>b. b \<in> set B' \<Longrightarrow> b_id b = bid \<Longrightarrow> b \<in> set B"
  shows "view_ok bid S' B' t"
proof -
  have row: "exact_row bid (seen_sims t S') (seen_bats t B')" if "exact_row bid (seen_sims t S) (seen_bats t B)"
    by (rule exact_row_cong [OF that assms(3)]) (rule seen_bats_within [OF assms(2,4)])
  have "pending_ok bid (seen_sims t S') (seen_bats t B') w" if "pending_ok bid (seen_sims t S) (seen_bats t B) w" for w
    using that row counts_of_cong [OF assms(3)] by (cases w) simp_all
  with assms(1) row show ?thesis unfolding view_ok_def by (auto split: if_splits)
qed

lemma plain_keeps: "\<not> touches_simulations a \<Longrightarrow> set (batches d) \<subseteq> set (batches (perform x a d))"
  by (cases a) (auto simp: upsert_result_def insert_batch_def Let_def split: if_splits option.splits)

lemma count_where_middle: "count_where P (us @ t # vs) = (if P t then 1 else 0) + count_where P (us @ vs)"
  by simp

lemma commit_exact:
  assumes "exact_inv bid q" and "one_user bid q" and "i < length (ov_txns q)" and "finished (ov_txns q ! i)"
  shows "exact_row bid (seen_sims (ov_txns q ! i) (simulations (ov_db q))) (seen_bats (ov_txns q ! i) (batches (ov_db q)))"
    "t \<in> set (others_of i q) \<Longrightarrow> view_ok bid (seen_sims (ov_txns q ! i) (simulations (ov_db q))) (seen_bats (ov_txns q ! i) (batches (ov_db q))) t"
proof -
  let ?S = "simulations (ov_db q)" and ?B = "batches (ov_db q)" and ?u = "ov_txns q ! i"
  have inv: "ov_inv q" using assms(1) by (simp add: exact_inv_def ov_core_def)
  note o = ov_inv_others [OF inv assms(3)]
  have "view_ok bid ?S ?B ?u" using assms(1,3) by (simp add: exact_inv_def)
  with assms(4) show exact: "exact_row bid (seen_sims ?u ?S) (seen_bats ?u ?B)" by (simp add: view_ok_def finished_def)
  assume t: "t \<in> set (others_of i q)"
  with o(1,3) have dis: "disjoint_rows t ?u" and rows: "txn_rows ?S t" "txn_rows ?S ?u" and ok: "txn_ok ?S t"
    by (auto simp: disjoint_rows_sym txn_ok_def)
  have ok': "txn_ok (seen_sims ?u ?S) t" using commit_inv [OF inv assms(3)] t by (simp add: ov_inv_def Let_def)
  show "view_ok bid (seen_sims ?u ?S) (seen_bats ?u ?B) t"
  proof (cases "uses bid (seen_sims ?u ?S) t")
    case False
    with view_of_nonuser [OF ok' exact] show ?thesis .
  next
    case True
    then have "uses bid ?S t" using moves_commit [OF rows dis] by (auto simp: uses_def)
    moreover have "count_where (uses bid ?S) (ov_txns q) = (if uses bid ?S ?u then 1 else 0) + count_where (uses bid ?S) (others_of i q)"
      by (rule others_split [OF assms(3)]) (metis count_where_middle)
    ultimately have no: "\<not> uses bid ?S ?u"
      using assms(2) t count_where_pos [of "uses bid ?S" "others_of i q"] by (auto simp: one_user_def split: if_splits)
    have "view_ok bid ?S ?B t" using assms(1) in_others [OF t] by (simp add: exact_inv_def)
    then show ?thesis
    proof (rule view_ok_cong [OF _ ok])
      show "batch_states bid (seen_sims t ?S) = batch_states bid (seen_sims t (seen_sims ?u ?S))"
        using states_commit [OF rows dis] no by (simp add: uses_def)
      show "b \<in> set ?B" if "b \<in> set (seen_bats ?u ?B)" "b_id b = bid" for b
        using that no by (auto simp: uses_def elim!: in_seen_bats [OF o(1)])
    qed
  qed
qed

lemma step_progs:
  "exec lk d t = Runs t' \<Longrightarrow> t_prog t' = tl (t_prog t)" "snap d t = Runs t' \<Longrightarrow> t_prog t' = t_prog t"
  "write_row bk d t = Runs t' \<Longrightarrow> t_prog t' = t_prog t"
  by (auto simp: exec_def exec_update_def Let_def snap_def write_row_def split: list.splits stmt.splits option.splits if_splits)

lemma list_all_tl: "list_all P xs \<Longrightarrow> list_all P (tl xs)"
  by (cases xs) simp_all

lemma ov_step_exact:
  assumes "exact_inv bid q" and "one_user bid q"
  shows "exact_inv bid (ov_step e q)"
proof -
  let ?S = "simulations (ov_db q)" and ?B = "batches (ov_db q)"
  from assms(1) have core: "ov_core q" and mem: "bid \<in> b_id ` set ?B" and row: "exact_row bid ?S ?B"
    and all: "\<forall>t \<in> set (ov_txns q). list_all stmt_fires (t_prog t) \<and> view_ok bid ?S ?B t" by (simp_all add: exact_inv_def)
  have ok: "txn_ok ?S t" if "t \<in> set (ov_txns q)" for t using core that by (simp add: ov_core_def ov_inv_def Let_def)
  have dist: "distinct (map s_id ?S)" "distinct (map b_id ?B)" using core by (simp_all add: ov_core_def core_inv_def keys_ok_def)
  have adv: "bid \<in> b_id ` set (batches (ov_db (advance i step q))) \<and>
      exact_row bid (simulations (ov_db (advance i step q))) (batches (ov_db (advance i step q))) \<and>
      (\<forall>t \<in> set (ov_txns (advance i step q)). list_all stmt_fires (t_prog t) \<and>
         view_ok bid (simulations (ov_db (advance i step q))) (batches (ov_db (advance i step q))) t)"
    if "\<And>t t'. t \<in> set (ov_txns q) \<Longrightarrow> step t = Runs t' \<Longrightarrow> list_all stmt_fires (t_prog t') \<and> view_ok bid ?S ?B t'" for i step
    using mem row advance_all [OF all that] by simp
  have "bid \<in> b_id ` set (batches (ov_db (ov_step e q))) \<and>
      exact_row bid (simulations (ov_db (ov_step e q))) (batches (ov_db (ov_step e q))) \<and>
      (\<forall>t \<in> set (ov_txns (ov_step e q)). list_all stmt_fires (t_prog t) \<and>
         view_ok bid (simulations (ov_db (ov_step e q))) (batches (ov_db (ov_step e q))) t)"
  proof (cases e)
    case (Begin k)
    have "view_ok bid ?S ?B (new_txn k)" using row by (simp add: view_ok_def seen_bats_def)
    with mem row all Begin show ?thesis by (simp add: ov_step.simps program_fires)
  next
    case (Exec i)
    show ?thesis unfolding Exec ov_step.simps
      by (rule adv) (use all exec_view [OF ok dist(1)] step_progs(1) list_all_tl in metis)
  next
    case (Snap i)
    show ?thesis unfolding Snap ov_step.simps by (rule adv) (use all snap_view step_progs(2) in metis)
  next
    case (WriteRow i)
    have "list_all stmt_fires (t_prog t') \<and> view_ok bid ?S ?B t'"
      if t: "t \<in> set (ov_txns q)" and r: "write_row bk (ov_db q) t = Runs t'" for t t' bk
    proof -
      have "\<forall>i b. t_bats t i = Some b \<longrightarrow> b_id b = i" using ok [OF t] by (simp add: txn_ok_def)
      with all t write_row_view [OF _ dist(2) _ r] step_progs(3) [OF r] show ?thesis by simp
    qed
    then show ?thesis unfolding WriteRow ov_step.simps by (rule adv)
  next
    case (Commit i)
    show ?thesis
    proof (cases "i < length (ov_txns q) \<and> finished (ov_txns q ! i)")
      case True
      let ?u = "ov_txns q ! i"
      have "frame_ok (ov_db q) ?u" using core True by (simp add: ov_core_def core_txn_def)
      from arg_cong [OF seen_bats_frame [OF this dist(2)], of "map fst"] have "map b_id (seen_bats ?u ?B) = map b_id ?B"
        by (simp only: via_batch_frame(1))
      then have "b_id ` set (seen_bats ?u ?B) = b_id ` set ?B" by (metis set_map)
      with True mem all commit_exact [OF assms, of i] in_others show ?thesis unfolding Commit by (auto simp: ov_step.simps)
    qed (use mem row all Commit in \<open>auto simp: ov_step.simps\<close>)
  next
    case (Rollback i)
    with mem row all in_others show ?thesis by (auto simp: ov_step.simps)
  next
    case (Plain x a)
    show ?thesis
    proof (cases "touches_simulations a")
      case False
      let ?d = "perform x a (ov_db q)"
      note keep = plain_keeps [OF False, of "ov_db q" x]
      have "core_inv ?d" using plain_core [OF _ False] core by (simp add: ov_core_def)
      then have dist': "distinct (map b_id (batches ?d))" by (simp add: core_inv_def keys_ok_def)
      obtain b0 where b0: "b0 \<in> set ?B" "b_id b0 = bid" using mem by auto
      have within: "b \<in> set ?B" if "b \<in> set (batches ?d)" "b_id b = bid" for b
        using distinct_map_eqD [OF dist' that(1) subsetD [OF keep b0(1)]] that(2) b0 by simp
      have "exact_row bid ?S (batches ?d)" by (rule exact_row_cong [OF row refl within])
      moreover have "view_ok bid ?S (batches ?d) t" if "t \<in> set (ov_txns q)" for t
        using all that by (auto intro: view_ok_cong [OF _ ok [OF that] refl within])
      ultimately show ?thesis using Plain False mem keep all plain_ok(1) [OF False] by (auto simp: ov_step.simps)
    qed (use mem row all Plain in \<open>simp add: ov_step.simps\<close>)
  qed
  with ov_step_core [OF core] show ?thesis by (simp add: exact_inv_def)
qed

lemma ov_run_exact: "exact_inv bid q \<Longrightarrow> batch_serial bid evs q \<Longrightarrow> exact_inv bid (ov_run evs q)"
  by (induction evs arbitrary: q) (auto intro: ov_step_exact)

section \<open>Properties\<close>

text \<open>
  C8. Rollups are lost only to overlap within one batch: on every history of overlapping transactions in
  which at most one at a time uses a given batch (holds a state change or a new row of it, or an
  unfinished rollup or sweep of its row), the committed row of that batch is at every moment exactly
  what the trigger computes from the committed simulations, whatever overlaps elsewhere.
\<close>

theorem rollup_exact_without_batch_overlap:
  assumes "reachable d" and "bid \<in> b_id ` set (batches d)" and "batch_serial bid evs (idle d)" and "q = ov_run evs (idle d)"
    and "b \<in> set (batches (ov_db q))" and "b_id b = bid"
  shows "rollup (simulations (ov_db q)) b = b"
proof -
  have inv: "db_inv d" by (rule reachable_inv [OF assms(1)])
  then have "exact_inv bid (idle d)"
    using ov_core_idle [OF inv] assms(2) by (simp add: exact_inv_def) (simp add: idle_def exact_row_def db_inv_def rollup_ok_def)
  from ov_run_exact [OF this assms(3)] assms(4-6) show ?thesis by (simp add: exact_inv_def exact_row_def)
qed

end
