(* ===== verification/OverlapScenario.thy ===== *)
theory OverlapScenario
  imports OverlapExact "HOL-Library.Code_Target_Nat"
begin

text \<open>
  Two runners finish the last two simulations of a batch at the same time: a history of overlapping
  transactions in which the rollup of one of them is lost, and the witnesses of the properties of
  overlapping transactions.
\<close>

definition race_ctx :: "int \<Rightarrow> string \<Rightarrow> stmt_ctx" where
  "race_ctx t u = \<lparr> x_now = t, x_uuid = u, x_uuid_in = Some \<rparr>"

definition race_params :: InsertSimulationParams where
  "race_params =
     \<lparr> p_BatchID = Some ''b'', p_UserID = ''u'', p_EngineVersion = ''24.1.0'', p_Priority = 1,
       p_ModelRef = ''s3://in/m.idf'', p_WeatherRef = ''s3://in/w.epw'', p_ModelSHA256 = None,
       p_WeatherSHA256 = None, p_ExtractionSpec = None, p_ContentHash = ''h'', p_State = ''queued'' \<rparr>"

definition race_db :: db where
  "race_db = run
     [(race_ctx 1 ''u'', ANewUser ''a@x''), (race_ctx 4 ''b'', ACreate ''u'' 2 None),
      (race_ctx 5 ''s1'', AInsert race_params None), (race_ctx 6 ''s2'', AInsert race_params None),
      (race_ctx 8 ''x'', AClaim ''r1'' ''24.1.0'' 2 60 []), (race_ctx 9 ''x'', AClaim ''r2'' ''24.1.0'' 2 60 [])] empty_db"

definition race :: "ov_event list" where
  "race =
     [Begin (TFinish ''s1'' ''r1'' True None 10), Begin (TFinish ''s2'' ''r2'' True None 11),
      Exec 0, Exec 1, Snap 0, Snap 1, WriteRow 0, WriteRow 1, Commit 0, WriteRow 0, Commit 0]"

definition after_race :: overlap where
  "after_race = ov_run race (idle race_db)"

lemma race_reachable: "reachable race_db"
  unfolding race_db_def by (intro run_reachable reachable_init)

lemma after_race_txns: "ov_txns after_race = []"
  by code_simp

lemma after_race_sims: "map (\<lambda>s. (s_id s, s_batch_id s, s_state s)) (simulations (ov_db after_race)) =
  [(''s1'', Some ''b'', ''succeeded''), (''s2'', Some ''b'', ''succeeded'')]"
  by code_simp

lemma after_race_batches: "map (\<lambda>b. (b_id b, b_total b, b_succeeded b, b_failed b, b_state b)) (batches (ov_db after_race)) =
  [(''b'', 2, 1, 0, ''running'')]"
  by code_simp

section \<open>The lost rollup\<close>


section \<open>Witnesses\<close>

definition race_batch :: batches_row where
  "race_batch = batches (ov_db after_race) ! 0"

lemma race_batch_in: "race_batch \<in> set (batches (ov_db after_race))"
  using arg_cong [OF after_race_batches, of length] by (simp add: race_batch_def)

theorem overlap_never_overstates_witness:
  "core_inv (ov_db after_race) \<and> b_succeeded race_batch = 1 \<and>
   b_succeeded race_batch \<le> int (count_where (\<lambda>s. s_state s = ''succeeded'') (batch_sims (b_id race_batch) (simulations (ov_db after_race))))"
proof -
  have "b_succeeded race_batch = 1" by code_simp
  with overlap_never_overstates [OF race_reachable after_race_def] race_batch_in show ?thesis unfolding Let_def by blast
qed



theorem resync_repairs_overlap_witness:
  "rollup (simulations (ov_db after_race)) race_batch \<in> set (batches (ov_db (ov_run (solo TResync 1) after_race))) \<and>
   b_succeeded (rollup (simulations (ov_db after_race)) race_batch) = 2"
proof -
  have len: "length (batches (ov_db after_race)) \<le> 1" by code_simp
  have all: "\<forall>s \<in> set (batch_sims (b_id race_batch) (simulations (ov_db after_race))). terminal s" by code_simp
  have total: "int (length (batch_sims (b_id race_batch) (simulations (ov_db after_race)))) = b_total race_batch" by code_simp
  have "b_succeeded (rollup (simulations (ov_db after_race)) race_batch) = 2" by code_simp
  with resync_repairs_overlap [OF race_reachable after_race_def after_race_txns race_batch_in total all len] show ?thesis by simp
qed


text \<open>
  A third simulation arrives; a claim that overlaps the finish of the first still counts it as
  running and takes nothing, the claim after both have committed takes the new one.
\<close>

definition claims :: "ov_event list" where
  "claims =
     [Begin (TInsert (race_ctx 9 ''s3'') race_params None), Exec 0, Snap 0, WriteRow 0, Commit 0,
      Begin (TFinish ''s1'' ''r1'' True None 10), Exec 0, Begin (TClaim ''r3'' ''24.1.0'' 2 60 11), Exec 1,
      Begin (TClaim ''r4'' ''24.1.0'' 2 60 12), Snap 0, WriteRow 0, Commit 0, Commit 0,
      Begin (TClaim ''r4'' ''24.1.0'' 2 60 13), Exec 0, Snap 0, WriteRow 0, Commit 0]"

theorem overlap_keeps_cap_witness:
  "cap_ok 2 (ov_db (ov_run claims (idle race_db))) \<and> running_count ''u'' (ov_db (ov_run claims (idle race_db))) = 2"
proof -
  have "cap_ok 2 race_db"
  proof -
    have "\<forall>s \<in> set (simulations race_db). s_user_id s = ''u''" "length (simulations race_db) = 2" by code_simp+
    then show ?thesis
      using count_where_le [of _ "simulations race_db"] by (simp add: cap_ok_def running_count_def)
  qed
  moreover have "list_all (event_within 2) claims" by code_simp
  moreover have "running_count ''u'' (ov_db (ov_run claims (idle race_db))) = 2" by code_simp
  ultimately show ?thesis using overlap_keeps_cap [OF race_reachable] by simp
qed

text \<open>The two finishes one after the other, with a heartbeat overlapping the first.\<close>

definition calm_finish :: "ov_event list" where
  "calm_finish =
     [Begin (TFinish ''s1'' ''r1'' True None 10), Exec 0, Begin (TRenew ''s2'' ''r2'' 60 11), Exec 1, Snap 0, WriteRow 0,
      Commit 0, Commit 0, Begin (TFinish ''s2'' ''r2'' True None 12), Exec 0, Snap 0, WriteRow 0, Commit 0]"

theorem rollup_exact_without_batch_overlap_witness:
  "batch_serial ''b'' calm_finish (idle race_db) \<and>
   rollup (simulations (ov_db (ov_run calm_finish (idle race_db)))) (batches (ov_db (ov_run calm_finish (idle race_db))) ! 0) =
     batches (ov_db (ov_run calm_finish (idle race_db))) ! 0 \<and>
   b_state (batches (ov_db (ov_run calm_finish (idle race_db))) ! 0) = ''done''"
proof -
  let ?b = "batches (ov_db (ov_run calm_finish (idle race_db))) ! 0"
  have serial: "batch_serial ''b'' calm_finish (idle race_db)" by code_simp
  have "length (batches (ov_db (ov_run calm_finish (idle race_db)))) = 1" "b_id ?b = ''b''" "b_state ?b = ''done''" by code_simp+
  moreover have "''b'' \<in> b_id ` set (batches race_db)" by code_simp
  ultimately show ?thesis
    using rollup_exact_without_batch_overlap [OF race_reachable _ serial refl, of ?b] serial by simp
qed

end
