(* ===== verification/DeepCopy.thy ===== *)
theory DeepCopy
  imports RunnerPool
begin

text \<open>
  The generated copies of the API types (\<open>api/v1/zz_generated.deepcopy.go\<close>), over an explicit heap,
  because what matters of a copy is what it does not share: the manager hands out objects from a
  cache that every reader shares, and the reconciler writes into the copy it got. A struct is a
  record; a slice is a header that points to a backing array in the heap; a pointer to a fresh
  struct is the struct.
\<close>

section \<open>Slices\<close>

record slice =
  sl_arr :: nat
  sl_off :: nat
  sl_len :: nat

definition slice_elems :: "('e \<Rightarrow> 'a list) \<Rightarrow> 'e list \<Rightarrow> slice \<Rightarrow> 'a list" where
  "slice_elems arr h s = take (sl_len s) (drop (sl_off s) (arr (h ! sl_arr s)))"

text \<open>
  \<open>make\<close> a new array of zero values, then copy element by element into it. \<open>copy\<close> is the
  \<open>DeepCopyInto\<close> of the elements, \<open>mk\<close> and \<open>arr\<close> make and read an array of their type.
\<close>

fun copy_elems ::
  "('a \<Rightarrow> 'e list \<Rightarrow> 'a \<times> 'e list) \<Rightarrow> ('a list \<Rightarrow> 'e) \<Rightarrow> ('e \<Rightarrow> 'a list) \<Rightarrow> slice \<Rightarrow> nat \<Rightarrow> nat list \<Rightarrow> 'e list \<Rightarrow> 'e list"
where
  "copy_elems copy mk arr s a [] h = h"
| "copy_elems copy mk arr s a (i # is) h =
     (let (x, h1) = copy (slice_elems arr h s ! i) h
      in copy_elems copy mk arr s a is (h1[a := mk ((arr (h1 ! a))[i := x])]))"

definition copy_slice ::
  "('a \<Rightarrow> 'e list \<Rightarrow> 'a \<times> 'e list) \<Rightarrow> ('a list \<Rightarrow> 'e) \<Rightarrow> ('e \<Rightarrow> 'a list) \<Rightarrow> 'a \<Rightarrow> slice \<Rightarrow> 'e list \<Rightarrow> slice \<times> 'e list" where
  "copy_slice copy mk arr zero s h =
     (\<lparr> sl_arr = length h, sl_off = 0, sl_len = sl_len s \<rparr>,
      copy_elems copy mk arr s (length h) [0..<sl_len s] (h @ [mk (replicate (sl_len s) zero)]))"

text \<open>A slice field: nil stays nil.\<close>

definition copy_opt :: "('a \<Rightarrow> 'h \<Rightarrow> 'a \<times> 'h) \<Rightarrow> 'a option \<Rightarrow> 'h \<Rightarrow> 'a option \<times> 'h" where
  "copy_opt copy x h = (case x of None \<Rightarrow> (None, h) | Some y \<Rightarrow> (let (y', h') = copy y h in (Some y', h')))"

section \<open>The types and their copies\<close>

record goStatus =
  gs_ReadyReplicas :: int
  gs_EligibleQueued :: int
  gs_Conditions :: "slice option"

record 'o goPool =
  gp_TypeMeta :: "string \<times> string"
  gp_ObjectMeta :: 'o
  gp_Spec :: RunnerPoolSpec
  gp_Status :: goStatus

record 'l goPoolList =
  gl_TypeMeta :: "string \<times> string"
  gl_ListMeta :: 'l
  gl_Items :: "slice option"

text \<open>The heap: arrays of conditions and of pools, and whatever the metadata library keeps there.\<close>

datatype ('o, 'c, 'd) cell = Conds "'c list" | Items "'o goPool list" | Lib 'd

fun conds_of :: "('o, 'c, 'd) cell \<Rightarrow> 'c list" where
  "conds_of (Conds xs) = xs"
| "conds_of _ = []"

fun items_of :: "('o, 'c, 'd) cell \<Rightarrow> 'o goPool list" where
  "items_of (Items xs) = xs"
| "items_of _ = []"

type_synonym ('o, 'c, 'd) heap = "('o, 'c, 'd) cell list"

text \<open>The \<open>DeepCopyInto\<close> methods of \<open>metav1\<close>, and the zero values \<open>make\<close> fills an array with.\<close>

record ('o, 'l, 'c, 'd) metav1 =
  mv_Condition :: "'c \<Rightarrow> ('o, 'c, 'd) heap \<Rightarrow> 'c \<times> ('o, 'c, 'd) heap"
  mv_ObjectMeta :: "'o \<Rightarrow> ('o, 'c, 'd) heap \<Rightarrow> 'o \<times> ('o, 'c, 'd) heap"
  mv_ListMeta :: "'l \<Rightarrow> ('o, 'c, 'd) heap \<Rightarrow> 'l \<times> ('o, 'c, 'd) heap"
  mv_zeroCondition :: 'c
  mv_zeroObjectMeta :: 'o

definition RunnerResources_DeepCopyInto :: "RunnerResources \<Rightarrow> 'h \<Rightarrow> RunnerResources \<times> 'h" where
  "RunnerResources_DeepCopyInto i h = (i, h)"

definition RunnerResources_DeepCopy :: "RunnerResources option \<Rightarrow> 'h \<Rightarrow> RunnerResources option \<times> 'h" where
  "RunnerResources_DeepCopy = copy_opt RunnerResources_DeepCopyInto"

definition RunnerPoolSpec_DeepCopyInto :: "RunnerPoolSpec \<Rightarrow> 'h \<Rightarrow> RunnerPoolSpec \<times> 'h" where
  "RunnerPoolSpec_DeepCopyInto i h = (i\<lparr> rps_Resources := rps_Resources i \<rparr>, h)"

definition RunnerPoolSpec_DeepCopy :: "RunnerPoolSpec option \<Rightarrow> 'h \<Rightarrow> RunnerPoolSpec option \<times> 'h" where
  "RunnerPoolSpec_DeepCopy = copy_opt RunnerPoolSpec_DeepCopyInto"

definition RunnerPoolStatus_DeepCopyInto ::
  "('o, 'l, 'c, 'd) metav1 \<Rightarrow> goStatus \<Rightarrow> ('o, 'c, 'd) heap \<Rightarrow> goStatus \<times> ('o, 'c, 'd) heap" where
  "RunnerPoolStatus_DeepCopyInto mv i h =
     (let (cs, h1) = copy_opt (copy_slice (mv_Condition mv) Conds conds_of (mv_zeroCondition mv)) (gs_Conditions i) h
      in (i\<lparr> gs_Conditions := cs \<rparr>, h1))"

definition RunnerPoolStatus_DeepCopy ::
  "('o, 'l, 'c, 'd) metav1 \<Rightarrow> goStatus option \<Rightarrow> ('o, 'c, 'd) heap \<Rightarrow> goStatus option \<times> ('o, 'c, 'd) heap" where
  "RunnerPoolStatus_DeepCopy mv = copy_opt (RunnerPoolStatus_DeepCopyInto mv)"

definition RunnerPool_DeepCopyInto ::
  "('o, 'l, 'c, 'd) metav1 \<Rightarrow> 'o goPool \<Rightarrow> ('o, 'c, 'd) heap \<Rightarrow> 'o goPool \<times> ('o, 'c, 'd) heap" where
  "RunnerPool_DeepCopyInto mv i h =
     (let (om, h1) = mv_ObjectMeta mv (gp_ObjectMeta i) h;
          (st, h2) = RunnerPoolStatus_DeepCopyInto mv (gp_Status i) h1
      in (i\<lparr> gp_TypeMeta := gp_TypeMeta i, gp_ObjectMeta := om, gp_Spec := gp_Spec i, gp_Status := st \<rparr>, h2))"

definition RunnerPool_DeepCopy ::
  "('o, 'l, 'c, 'd) metav1 \<Rightarrow> 'o goPool option \<Rightarrow> ('o, 'c, 'd) heap \<Rightarrow> 'o goPool option \<times> ('o, 'c, 'd) heap" where
  "RunnerPool_DeepCopy mv = copy_opt (RunnerPool_DeepCopyInto mv)"

definition zero_pool :: "'o \<Rightarrow> 'o goPool" where
  "zero_pool om =
     \<lparr> gp_TypeMeta = ([], []), gp_ObjectMeta = om,
       gp_Spec = \<lparr> rps_EngineVersion = [], rps_Image = [], rps_Resources = \<lparr> rr_CPU = [], rr_Memory = [] \<rparr>,
                   rps_MinReplicas = 0, rps_MaxReplicas = 0, rps_DefaultUserConcurrency = 0 \<rparr>,
       gp_Status = \<lparr> gs_ReadyReplicas = 0, gs_EligibleQueued = 0, gs_Conditions = None \<rparr> \<rparr>"

definition RunnerPoolList_DeepCopyInto ::
  "('o, 'l, 'c, 'd) metav1 \<Rightarrow> 'l goPoolList \<Rightarrow> ('o, 'c, 'd) heap \<Rightarrow> 'l goPoolList \<times> ('o, 'c, 'd) heap" where
  "RunnerPoolList_DeepCopyInto mv i h =
     (let (lm, h1) = mv_ListMeta mv (gl_ListMeta i) h;
          (its, h2) = copy_opt (copy_slice (RunnerPool_DeepCopyInto mv) Items items_of (zero_pool (mv_zeroObjectMeta mv)))
                        (gl_Items i) h1
      in (i\<lparr> gl_TypeMeta := gl_TypeMeta i, gl_ListMeta := lm, gl_Items := its \<rparr>, h2))"

definition RunnerPoolList_DeepCopy ::
  "('o, 'l, 'c, 'd) metav1 \<Rightarrow> 'l goPoolList option \<Rightarrow> ('o, 'c, 'd) heap \<Rightarrow> 'l goPoolList option \<times> ('o, 'c, 'd) heap" where
  "RunnerPoolList_DeepCopy mv = copy_opt (RunnerPoolList_DeepCopyInto mv)"

text \<open>\<open>runtime.Object\<close>: the interface is nil, or holds one of the two root types.\<close>

datatype ('o, 'l) object = PoolObject "'o goPool" | ListObject "'l goPoolList"

definition RunnerPool_DeepCopyObject ::
  "('o, 'l, 'c, 'd) metav1 \<Rightarrow> 'o goPool option \<Rightarrow> ('o, 'c, 'd) heap \<Rightarrow> ('o, 'l) object option \<times> ('o, 'c, 'd) heap" where
  "RunnerPool_DeepCopyObject mv i h =
     (case RunnerPool_DeepCopy mv i h of (Some c, h') \<Rightarrow> (Some (PoolObject c), h') | (None, h') \<Rightarrow> (None, h'))"

definition RunnerPoolList_DeepCopyObject ::
  "('o, 'l, 'c, 'd) metav1 \<Rightarrow> 'l goPoolList option \<Rightarrow> ('o, 'c, 'd) heap \<Rightarrow> ('o, 'l) object option \<times> ('o, 'c, 'd) heap" where
  "RunnerPoolList_DeepCopyObject mv i h =
     (case RunnerPoolList_DeepCopy mv i h of (Some c, h') \<Rightarrow> (Some (ListObject c), h') | (None, h') \<Rightarrow> (None, h'))"

section \<open>What a deep copy is\<close>

text \<open>
  For a type whose values refer into the heap: \<open>ok h x\<close> says that every reference of \<open>x\<close> is good,
  \<open>foot h x\<close> are the cells reachable from it, and \<open>val h x\<close> is what it stands for. A deep copy
  changes no cell that is there, its own cells are all new, and it stands for the same.
\<close>

locale deep_copy =
  fixes copy :: "'a \<Rightarrow> 'e list \<Rightarrow> 'a \<times> 'e list"
    and foot :: "'e list \<Rightarrow> 'a \<Rightarrow> nat set" and val :: "'e list \<Rightarrow> 'a \<Rightarrow> 'v" and ok :: "'e list \<Rightarrow> 'a \<Rightarrow> bool"
  assumes grows: "ok h x \<Longrightarrow> \<exists>cs. snd (copy x h) = h @ cs"
    and copy_ok: "ok h x \<Longrightarrow> ok (snd (copy x h)) (fst (copy x h))"
    and fresh: "ok h x \<Longrightarrow> foot (snd (copy x h)) (fst (copy x h)) \<inter> {..<length h} = {}"
    and same: "ok h x \<Longrightarrow> val (snd (copy x h)) (fst (copy x h)) = val h x"
    and bounded: "ok h x \<Longrightarrow> foot h x \<subseteq> {..<length h}"
    and local: "ok h x \<Longrightarrow> length h \<le> length k \<Longrightarrow> (\<And>a. a \<in> foot h x \<Longrightarrow> k ! a = h ! a) \<Longrightarrow>
        ok k x \<and> foot k x = foot h x \<and> val k x = val h x"
begin

lemma kept:
  assumes "ok h x"
  shows "ok (h @ cs) x" "foot (h @ cs) x = foot h x" "val (h @ cs) x = val h x"
proof -
  have "ok (h @ cs) x \<and> foot (h @ cs) x = foot h x \<and> val (h @ cs) x = val h x"
    by (rule local [OF assms]) (use bounded [OF assms] in \<open>auto simp: nth_append\<close>)
  then show "ok (h @ cs) x" "foot (h @ cs) x = foot h x" "val (h @ cs) x = val h x" by simp_all
qed

lemma copyE:
  assumes "ok h x"
  obtains y cs where "copy x h = (y, h @ cs)" "ok (h @ cs) y" "val (h @ cs) y = val h x"
    "foot (h @ cs) y \<subseteq> {length h..<length (h @ cs)}"
proof -
  obtain y k where c: "copy x h = (y, k)" by (cases "copy x h")
  moreover obtain cs where "k = h @ cs" using grows [OF assms] c by auto
  moreover have "foot k y \<subseteq> {length h..<length k}"
    using fresh [OF assms] bounded [of k y] copy_ok [OF assms] c by fastforce
  ultimately show ?thesis using that copy_ok [OF assms] same [OF assms] by auto
qed

text \<open>Writing through the one never shows in the other, and copying does not show in the original.\<close>

lemma independent:
  assumes "ok h x" and "copy x h = (y, h')"
  shows "val h' y = val h x" "val h' x = val h x"
    "length h' \<le> length k \<Longrightarrow> (\<And>a. a < length h' \<Longrightarrow> a \<notin> foot h' x \<Longrightarrow> k ! a = h' ! a) \<Longrightarrow> val k y = val h x"
    "length h' \<le> length k \<Longrightarrow> (\<And>a. a < length h' \<Longrightarrow> a \<notin> foot h' y \<Longrightarrow> k ! a = h' ! a) \<Longrightarrow> val k x = val h x"
proof -
  obtain cs where h': "h' = h @ cs" and y: "ok h' y" "val h' y = val h x" "foot h' y \<subseteq> {length h..<length h'}"
    using copyE [OF assms(1)] assms(2) by (metis prod.inject)
  note x = kept [OF assms(1), of cs, folded h']
  have lo: "a < length h" if "a \<in> foot h' x" for a using that bounded [OF assms(1)] x(2) by blast
  have hi: "length h \<le> a" "a < length h'" if "a \<in> foot h' y" for a using that y(3) by (simp_all add: subset_iff)
  have sep: "a \<notin> foot h' x" if "a \<in> foot h' y" for a using lo hi(1) that leD by blast
  show "val h' y = val h x" "val h' x = val h x" using y x by simp_all
  show "val k y = val h x" if "length h' \<le> length k" "\<And>a. a < length h' \<Longrightarrow> a \<notin> foot h' x \<Longrightarrow> k ! a = h' ! a"
  proof -
    have "val k y = val h' y" using local [OF y(1) that(1)] that(2) hi(2) sep by blast
    then show ?thesis using y(2) by simp
  qed
  show "val k x = val h x" if "length h' \<le> length k" "\<And>a. a < length h' \<Longrightarrow> a \<notin> foot h' y \<Longrightarrow> k ! a = h' ! a"
  proof -
    have "a < length h'" if "a \<in> foot h' x" for a using lo [OF that] by (simp add: h')
    then have "val k x = val h' x" using local [OF x(1) that(1)] that(2) sep by blast
    then show ?thesis using x(3) by simp
  qed
qed

end

section \<open>Copies of parts make copies of the whole\<close>

text \<open>A type without references, a field that may be nil, two fields copied one after the other.\<close>

lemma deep_copy_flat: "deep_copy (\<lambda>x h. (x, h)) (\<lambda>h x. {}) (\<lambda>h x. x) (\<lambda>h x. True)"
  by unfold_locales auto

definition opt_foot :: "('h \<Rightarrow> 'a \<Rightarrow> nat set) \<Rightarrow> 'h \<Rightarrow> 'a option \<Rightarrow> nat set" where
  "opt_foot foot h x = (case x of None \<Rightarrow> {} | Some y \<Rightarrow> foot h y)"

definition opt_ok :: "('h \<Rightarrow> 'a \<Rightarrow> bool) \<Rightarrow> 'h \<Rightarrow> 'a option \<Rightarrow> bool" where
  "opt_ok ok h x = (case x of None \<Rightarrow> True | Some y \<Rightarrow> ok h y)"

lemma deep_copy_opt:
  assumes "deep_copy copy foot val ok"
  shows "deep_copy (copy_opt copy) (opt_foot foot) (\<lambda>h. map_option (val h)) (opt_ok ok)"
proof -
  have none [simp]: "copy_opt copy None h = (None, h)" "opt_foot foot h None = {}" "opt_ok ok h None" for h
    by (simp_all add: copy_opt_def opt_foot_def opt_ok_def)
  have some [simp]: "copy_opt copy (Some x) h = (Some (fst (copy x h)), snd (copy x h))"
    "opt_foot foot h (Some x) = foot h x" "opt_ok ok h (Some x) = ok h x" for h x
    by (simp_all add: copy_opt_def opt_foot_def opt_ok_def split_beta)
  show ?thesis
  proof
    fix h p assume k: "opt_ok ok h p"
    show "\<exists>cs. snd (copy_opt copy p h) = h @ cs" using k deep_copy.grows [OF assms] by (cases p) simp_all
    show "opt_ok ok (snd (copy_opt copy p h)) (fst (copy_opt copy p h))"
      using k deep_copy.copy_ok [OF assms] by (cases p) simp_all
    show "opt_foot foot (snd (copy_opt copy p h)) (fst (copy_opt copy p h)) \<inter> {..<length h} = {}"
      using k deep_copy.fresh [OF assms] by (cases p) simp_all
    show "map_option (val (snd (copy_opt copy p h))) (fst (copy_opt copy p h)) = map_option (val h) p"
      using k deep_copy.same [OF assms] by (cases p) simp_all
    show "opt_foot foot h p \<subseteq> {..<length h}" using k deep_copy.bounded [OF assms] by (cases p) simp_all
    show "opt_ok ok g p \<and> opt_foot foot g p = opt_foot foot h p \<and> map_option (val g) p = map_option (val h) p"
      if "length h \<le> length g" "\<And>a. a \<in> opt_foot foot h p \<Longrightarrow> g ! a = h ! a" for g
      using k that deep_copy.local [OF assms, of h _ g] by (cases p) simp_all
  qed
qed

lemma deep_copy_pair:
  assumes "deep_copy c1 f1 v1 k1" and "deep_copy c2 f2 v2 k2"
  shows "deep_copy (\<lambda>(x, y) h. let (x', h1) = c1 x h; (y', h2) = c2 y h1 in ((x', y'), h2))
    (\<lambda>h (x, y). f1 h x \<union> f2 h y) (\<lambda>h (x, y). (v1 h x, v2 h y)) (\<lambda>h (x, y). k1 h x \<and> k2 h y)"
    (is "deep_copy ?c ?f ?v ?k")
proof -
  have step: "\<exists>x' y' cs. ?c (x, y) h = ((x', y'), h @ cs) \<and> k1 (h @ cs) x' \<and> k2 (h @ cs) y' \<and>
      v1 (h @ cs) x' = v1 h x \<and> v2 (h @ cs) y' = v2 h y \<and>
      f1 (h @ cs) x' \<inter> {..<length h} = {} \<and> f2 (h @ cs) y' \<inter> {..<length h} = {}"
    if "k1 h x" "k2 h y" for x y h
  proof -
    obtain x' cs where x: "c1 x h = (x', h @ cs)" "k1 (h @ cs) x'" "v1 (h @ cs) x' = v1 h x"
        "f1 (h @ cs) x' \<subseteq> {length h..<length (h @ cs)}"
      using deep_copy.copyE [OF assms(1) \<open>k1 h x\<close>] .
    note y0 = deep_copy.kept [OF assms(2) \<open>k2 h y\<close>, of cs]
    obtain y' ds where y: "c2 y (h @ cs) = (y', (h @ cs) @ ds)" "k2 ((h @ cs) @ ds) y'"
        "v2 ((h @ cs) @ ds) y' = v2 (h @ cs) y" "f2 ((h @ cs) @ ds) y' \<subseteq> {length (h @ cs)..<length ((h @ cs) @ ds)}"
      using deep_copy.copyE [OF assms(2) y0(1)] .
    note x0 = deep_copy.kept [OF assms(1) x(2), of ds]
    have "f1 (h @ cs @ ds) x' \<inter> {..<length h} = {}" "f2 (h @ cs @ ds) y' \<inter> {..<length h} = {}"
      using x(4) y(4) x0(2) by (auto simp: subset_iff disjoint_iff)
    then show ?thesis using x y x0 y0
      by (intro exI [of _ x'] exI [of _ y'] exI [of _ "cs @ ds"]) simp
  qed
  show ?thesis
  proof
    fix h p assume "?k h p"
    then obtain x y where p: "p = (x, y)" and k: "k1 h x" "k2 h y" by auto
    from step [OF k] obtain x' y' cs where *: "?c (x, y) h = ((x', y'), h @ cs)" "k1 (h @ cs) x'" "k2 (h @ cs) y'"
      "v1 (h @ cs) x' = v1 h x" "v2 (h @ cs) y' = v2 h y"
      "f1 (h @ cs) x' \<inter> {..<length h} = {}" "f2 (h @ cs) y' \<inter> {..<length h} = {}" by blast
    then have c: "?c p h = ((x', y'), h @ cs)" by (simp add: p)
    show "\<exists>cs. snd (?c p h) = h @ cs" unfolding c by simp
    show "?k (snd (?c p h)) (fst (?c p h))" "?v (snd (?c p h)) (fst (?c p h)) = ?v h p"
      unfolding c using * by (simp_all add: p)
    show "?f (snd (?c p h)) (fst (?c p h)) \<inter> {..<length h} = {}"
      unfolding c using *(6,7) by (simp add: Int_Un_distrib2)
    show "?f h p \<subseteq> {..<length h}"
      using deep_copy.bounded [OF assms(1) k(1)] deep_copy.bounded [OF assms(2) k(2)] by (simp add: p)
    show "?k g p \<and> ?f g p = ?f h p \<and> ?v g p = ?v h p"
      if "length h \<le> length g" "\<And>a. a \<in> ?f h p \<Longrightarrow> g ! a = h ! a" for g
      using deep_copy.local [OF assms(1) k(1) that(1)] deep_copy.local [OF assms(2) k(2) that(1)] that(2)
      by (simp add: p)
  qed
qed

text \<open>A record: some fields \<open>fs\<close> are copied, the others \<open>g\<close> assigned; \<open>mkv\<close> puts the value together.\<close>

lemma deep_copy_record:
  assumes "deep_copy copy foot val ok" and "\<And>x h. copy (fs x) h = (fs (fst (copy' x h)), snd (copy' x h))"
    and "\<And>x h. g (fst (copy' x h)) = g x"
  shows "deep_copy copy' (\<lambda>h x. foot h (fs x)) (\<lambda>h x. mkv (g x) (val h (fs x))) (\<lambda>h x. ok h (fs x))"
proof -
  have eq: "fs (fst (copy' x h)) = fst (copy (fs x) h)" "snd (copy' x h) = snd (copy (fs x) h)" for x h
    using assms(2) [of x h] by simp_all
  show ?thesis
  proof
    fix h x assume k: "ok h (fs x)"
    show "\<exists>cs. snd (copy' x h) = h @ cs" unfolding eq by (rule deep_copy.grows [OF assms(1) k])
    show "ok (snd (copy' x h)) (fs (fst (copy' x h)))" unfolding eq by (rule deep_copy.copy_ok [OF assms(1) k])
    show "foot (snd (copy' x h)) (fs (fst (copy' x h))) \<inter> {..<length h} = {}"
      unfolding eq by (rule deep_copy.fresh [OF assms(1) k])
    show "mkv (g (fst (copy' x h))) (val (snd (copy' x h)) (fs (fst (copy' x h)))) = mkv (g x) (val h (fs x))"
      unfolding eq assms(3) deep_copy.same [OF assms(1) k] ..
    show "foot h (fs x) \<subseteq> {..<length h}" by (rule deep_copy.bounded [OF assms(1) k])
    show "ok k' (fs x) \<and> foot k' (fs x) = foot h (fs x) \<and> mkv (g x) (val k' (fs x)) = mkv (g x) (val h (fs x))"
      if "length h \<le> length k'" "\<And>a. a \<in> foot h (fs x) \<Longrightarrow> k' ! a = h ! a" for k'
      using deep_copy.local [OF assms(1) k that] by simp
  qed
qed

section \<open>Copies of slices\<close>

definition slice_ok :: "('e \<Rightarrow> 'a list) \<Rightarrow> ('e list \<Rightarrow> 'a \<Rightarrow> bool) \<Rightarrow> 'e list \<Rightarrow> slice \<Rightarrow> bool" where
  "slice_ok arr ok h s \<longleftrightarrow>
     sl_arr s < length h \<and> sl_off s + sl_len s \<le> length (arr (h ! sl_arr s)) \<and> list_all (ok h) (slice_elems arr h s)"

definition slice_foot :: "('e \<Rightarrow> 'a list) \<Rightarrow> ('e list \<Rightarrow> 'a \<Rightarrow> nat set) \<Rightarrow> 'e list \<Rightarrow> slice \<Rightarrow> nat set" where
  "slice_foot arr foot h s = insert (sl_arr s) (\<Union>x \<in> set (slice_elems arr h s). foot h x)"

definition slice_val :: "('e \<Rightarrow> 'a list) \<Rightarrow> ('e list \<Rightarrow> 'a \<Rightarrow> 'v) \<Rightarrow> 'e list \<Rightarrow> slice \<Rightarrow> 'v list" where
  "slice_val arr val h s = map (val h) (slice_elems arr h s)"

locale slice_copy = deep_copy copy foot val ok
  for copy :: "'a \<Rightarrow> 'e list \<Rightarrow> 'a \<times> 'e list" and foot :: "'e list \<Rightarrow> 'a \<Rightarrow> nat set"
    and val :: "'e list \<Rightarrow> 'a \<Rightarrow> 'v" and ok :: "'e list \<Rightarrow> 'a \<Rightarrow> bool" +
  fixes mk :: "'a list \<Rightarrow> 'e" and arr :: "'e \<Rightarrow> 'a list" and zero :: 'a
  assumes arr_mk: "arr (mk xs) = xs"
begin

lemma elems_append: "sl_arr s < length h \<Longrightarrow> slice_elems arr (h @ cs) s = slice_elems arr h s"
  by (simp add: slice_elems_def nth_append)

lemma elems_length: "slice_ok arr ok h s \<Longrightarrow> length (slice_elems arr h s) = sl_len s"
  by (auto simp: slice_ok_def slice_elems_def)

text \<open>The first \<open>i\<close> elements of the new array are done: each stands for its original, in new cells.\<close>

definition copied :: "'e list \<Rightarrow> slice \<Rightarrow> 'a list \<Rightarrow> 'e list \<Rightarrow> nat \<Rightarrow> bool" where
  "copied h s ys k i \<longleftrightarrow>
     (\<forall>j < i. ok k (ys ! j) \<and> foot k (ys ! j) \<subseteq> {length h<..} \<and> val k (ys ! j) = val h (slice_elems arr h s ! j))"

lemma copied_step:
  assumes "copied h s ys k i" and "length k \<le> length k'" and "\<And>a. length h < a \<Longrightarrow> a < length k \<Longrightarrow> k' ! a = k ! a"
    and "\<And>j. j < i \<Longrightarrow> ys' ! j = ys ! j"
  shows "copied h s ys' k' i"
  unfolding copied_def
proof (intro allI impI)
  fix j assume j: "j < i"
  with assms(1) have *: "ok k (ys ! j)" "foot k (ys ! j) \<subseteq> {length h<..}" "val k (ys ! j) = val h (slice_elems arr h s ! j)"
    by (simp_all add: copied_def)
  have "ok k' (ys ! j) \<and> foot k' (ys ! j) = foot k (ys ! j) \<and> val k' (ys ! j) = val k (ys ! j)"
    by (rule local [OF *(1) assms(2)], rule assms(3)) (use *(2) bounded [OF *(1)] in auto)
  with * j assms(4) show "ok k' (ys' ! j) \<and> foot k' (ys' ! j) \<subseteq> {length h<..} \<and> val k' (ys' ! j) = val h (slice_elems arr h s ! j)"
    by simp
qed

lemma copy_elems_step:
  assumes "slice_ok arr ok h s" and "length ys = sl_len s" and "i < sl_len s" and "copied h s ys (h @ mk ys # cs) i"
  shows "\<exists>ys' cs'. length ys' = sl_len s \<and> copied h s ys' (h @ mk ys' # cs') (Suc i) \<and>
    copy_elems copy mk arr s (length h) (i # is) (h @ mk ys # cs) =
      copy_elems copy mk arr s (length h) is (h @ mk ys' # cs')"
proof -
  let ?k = "h @ mk ys # cs" and ?x = "slice_elems arr h s ! i"
  have x: "slice_elems arr ?k s ! i = ?x" using assms(1) by (simp add: elems_append slice_ok_def)
  have "ok h ?x"
    using assms(1,3) elems_length [OF assms(1)] unfolding slice_ok_def list_all_iff by simp
  note xk = kept [OF this, of "mk ys # cs"]
  obtain y ds where y: "copy ?x ?k = (y, ?k @ ds)" "ok (?k @ ds) y" "val (?k @ ds) y = val ?k ?x"
      "foot (?k @ ds) y \<subseteq> {length ?k..<length (?k @ ds)}"
    using copyE [OF xk(1)] .
  let ?ys = "ys[i := y]" and ?k' = "h @ mk (ys[i := y]) # (cs @ ds)"
  have away: "?k' ! a = (?k @ ds) ! a" if "length h < a" for a using that by (simp add: nth_append nth_Cons')
  have "copied h s ?ys ?k' i" using assms(4)
    by (rule copied_step) (auto simp: nth_append nth_Cons')
  moreover have "ok ?k' y \<and> foot ?k' y = foot (?k @ ds) y \<and> val ?k' y = val (?k @ ds) y"
    by (rule local [OF y(2)]) (use y(4) away in \<open>auto simp: subset_iff\<close>)
  then have "ok ?k' y \<and> foot ?k' y \<subseteq> {length h<..} \<and> val ?k' y = val h ?x"
    using y(3,4) xk(3) by (auto simp: subset_iff)
  ultimately have "copied h s ?ys ?k' (Suc i)"
    using assms(2,3) by (auto simp: copied_def less_Suc_eq)
  moreover have "copy_elems copy mk arr s (length h) (i # is) ?k = copy_elems copy mk arr s (length h) is ?k'"
    using x y(1) by (simp add: arr_mk list_update_append nth_append)
  ultimately show ?thesis using assms(2) by (intro exI [of _ ?ys] exI [of _ "cs @ ds"]) simp
qed

lemma copy_elems_spec:
  assumes "slice_ok arr ok h s" and "length ys = sl_len s" and "i \<le> sl_len s" and "copied h s ys (h @ mk ys # cs) i"
  shows "\<exists>ys' cs'. length ys' = sl_len s \<and> copied h s ys' (h @ mk ys' # cs') (sl_len s) \<and>
    copy_elems copy mk arr s (length h) [i..<sl_len s] (h @ mk ys # cs) = h @ mk ys' # cs'"
  using assms(2-)
proof (induction "sl_len s - i" arbitrary: i ys cs)
  case 0
  then show ?case by auto
next
  case (Suc n)
  then have i: "i < sl_len s" by simp
  from copy_elems_step [OF assms(1) Suc.prems(1) i Suc.prems(3)] obtain ys1 cs1 where
    *: "length ys1 = sl_len s" "copied h s ys1 (h @ mk ys1 # cs1) (Suc i)"
      "copy_elems copy mk arr s (length h) (i # [Suc i..<sl_len s]) (h @ mk ys # cs) =
        copy_elems copy mk arr s (length h) [Suc i..<sl_len s] (h @ mk ys1 # cs1)" by blast
  have "[i..<sl_len s] = i # [Suc i..<sl_len s]" using i by (rule upt_conv_Cons)
  with *(3) Suc.hyps(1) [OF _ *(1) _ *(2)] Suc.hyps(2) i show ?case by simp
qed

lemma copy_slice_spec:
  assumes "slice_ok arr ok h s"
  shows "\<exists>ys cs. length ys = sl_len s \<and> copied h s ys (h @ mk ys # cs) (sl_len s) \<and>
    copy_slice copy mk arr zero s h = (\<lparr> sl_arr = length h, sl_off = 0, sl_len = sl_len s \<rparr>, h @ mk ys # cs)"
  using copy_elems_spec [OF assms, of "replicate (sl_len s) zero" 0 "[]"] by (simp add: copy_slice_def copied_def)

sublocale slices: deep_copy "copy_slice copy mk arr zero" "slice_foot arr foot" "slice_val arr val" "slice_ok arr ok"
proof
  fix h s assume s: "slice_ok arr ok h s"
  obtain ys cs where n: "length ys = sl_len s" and d: "copied h s ys (h @ mk ys # cs) (sl_len s)"
    and c: "copy_slice copy mk arr zero s h = (\<lparr> sl_arr = length h, sl_off = 0, sl_len = sl_len s \<rparr>, h @ mk ys # cs)"
    using copy_slice_spec [OF s] by blast
  let ?k = "h @ mk ys # cs" and ?s = "\<lparr> sl_arr = length h, sl_off = 0, sl_len = sl_len s \<rparr>"
  have elems: "slice_elems arr ?k ?s = ys" by (simp add: slice_elems_def arr_mk n)
  show "\<exists>cs. snd (copy_slice copy mk arr zero s h) = h @ cs" unfolding c by simp
  show "slice_ok arr ok (snd (copy_slice copy mk arr zero s h)) (fst (copy_slice copy mk arr zero s h))"
    unfolding c using d n elems by (auto simp: slice_ok_def arr_mk copied_def list_all_iff in_set_conv_nth)
  show "slice_foot arr foot (snd (copy_slice copy mk arr zero s h)) (fst (copy_slice copy mk arr zero s h)) \<inter> {..<length h} = {}"
    unfolding c using d n elems by (fastforce simp: slice_foot_def copied_def in_set_conv_nth)
  show "slice_val arr val (snd (copy_slice copy mk arr zero s h)) (fst (copy_slice copy mk arr zero s h)) = slice_val arr val h s"
    unfolding c using d n elems elems_length [OF s]
    by (auto simp: slice_val_def copied_def intro: nth_equalityI)
  show "slice_foot arr foot h s \<subseteq> {..<length h}"
    using s bounded [of h] by (fastforce simp: slice_foot_def slice_ok_def list_all_iff)
  show "slice_ok arr ok g s \<and> slice_foot arr foot g s = slice_foot arr foot h s \<and> slice_val arr val g s = slice_val arr val h s"
    if len: "length h \<le> length g" and eq: "\<And>a. a \<in> slice_foot arr foot h s \<Longrightarrow> g ! a = h ! a" for g
  proof -
    have a: "g ! sl_arr s = h ! sl_arr s" by (rule eq) (simp add: slice_foot_def)
    then have el: "slice_elems arr g s = slice_elems arr h s" by (simp add: slice_elems_def)
    have "ok g x \<and> foot g x = foot h x \<and> val g x = val h x" if x: "x \<in> set (slice_elems arr h s)" for x
    proof (rule local)
      show "ok h x" using s x by (simp add: slice_ok_def list_all_iff)
      show "g ! a = h ! a" if "a \<in> foot h x" for a using that x by (intro eq) (auto simp: slice_foot_def)
    qed (rule len)
    with s a len show ?thesis by (simp add: slice_ok_def slice_foot_def slice_val_def el list_all_iff)
  qed
qed

lemma slices_deep_copy:
  "deep_copy (copy_slice copy mk arr zero) (slice_foot arr foot) (slice_val arr val) (slice_ok arr ok)"
  by (rule slices.deep_copy_axioms)

end

section \<open>The generated copies are deep copies\<close>

interpretation resources: deep_copy RunnerResources_DeepCopyInto "\<lambda>h x. {}" "\<lambda>h x. x" "\<lambda>h x. True"
  by unfold_locales (auto simp: RunnerResources_DeepCopyInto_def)

interpretation spec: deep_copy RunnerPoolSpec_DeepCopyInto "\<lambda>h x. {}" "\<lambda>h x. x" "\<lambda>h x. True"
  by unfold_locales (auto simp: RunnerPoolSpec_DeepCopyInto_def)

text \<open>Conditions are plain values; a copier for them that only returns its argument gives copied slices.\<close>

interpretation value_conditions: slice_copy "\<lambda>x h. (x, h)" "\<lambda>h x. {}" "\<lambda>h x. x" "\<lambda>h x. True" Conds conds_of zero for zero
  by unfold_locales auto

definition status_foot :: "(('o, 'c, 'd) heap \<Rightarrow> 'c \<Rightarrow> nat set) \<Rightarrow> ('o, 'c, 'd) heap \<Rightarrow> goStatus \<Rightarrow> nat set" where
  "status_foot cf h st = opt_foot (slice_foot conds_of cf) h (gs_Conditions st)"

definition status_val ::
  "(('o, 'c, 'd) heap \<Rightarrow> 'c \<Rightarrow> 'v) \<Rightarrow> ('o, 'c, 'd) heap \<Rightarrow> goStatus \<Rightarrow> (int \<times> int) \<times> 'v list option" where
  "status_val cv h st =
     ((gs_ReadyReplicas st, gs_EligibleQueued st), map_option (slice_val conds_of cv h) (gs_Conditions st))"

definition status_ok :: "(('o, 'c, 'd) heap \<Rightarrow> 'c \<Rightarrow> bool) \<Rightarrow> ('o, 'c, 'd) heap \<Rightarrow> goStatus \<Rightarrow> bool" where
  "status_ok ck h st = opt_ok (slice_ok conds_of ck) h (gs_Conditions st)"

definition pool_foot where
  "pool_foot cf mf h p = mf h (gp_ObjectMeta p) \<union> status_foot cf h (gp_Status p)"

definition pool_val where
  "pool_val cv mv h p = ((gp_TypeMeta p, gp_Spec p), mv h (gp_ObjectMeta p), status_val cv h (gp_Status p))"

definition pool_ok where
  "pool_ok ck mk h p \<longleftrightarrow> mk h (gp_ObjectMeta p) \<and> status_ok ck h (gp_Status p)"

definition list_foot where
  "list_foot cf mf lf h l = lf h (gl_ListMeta l) \<union> opt_foot (slice_foot items_of (pool_foot cf mf)) h (gl_Items l)"

definition list_val where
  "list_val cv mv lv h l =
     (gl_TypeMeta l, lv h (gl_ListMeta l), map_option (slice_val items_of (pool_val cv mv) h) (gl_Items l))"

definition list_ok where
  "list_ok ck mk lk h l \<longleftrightarrow> lk h (gl_ListMeta l) \<and> opt_ok (slice_ok items_of (pool_ok ck mk)) h (gl_Items l)"

lemma deep_copy_slice_field:
  assumes "deep_copy copy foot val ok" and "\<And>xs. arr (mk xs) = xs"
  shows "deep_copy (copy_opt (copy_slice copy mk arr zero)) (opt_foot (slice_foot arr foot))
    (\<lambda>h. map_option (slice_val arr val h)) (opt_ok (slice_ok arr ok))"
proof (rule deep_copy_opt)
  have "slice_copy copy foot val ok mk arr"
    by (intro slice_copy.intro assms(1) slice_copy_axioms.intro) (rule assms(2))
  then show "deep_copy (copy_slice copy mk arr zero) (slice_foot arr foot) (slice_val arr val) (slice_ok arr ok)"
    by (rule slice_copy.slices_deep_copy)
qed

lemma status_deep_copy:
  assumes "deep_copy (mv_Condition lib) cf cv ck"
  shows "deep_copy (RunnerPoolStatus_DeepCopyInto lib) (status_foot cf) (status_val cv) (status_ok ck)"
  unfolding status_foot_def [abs_def] status_val_def [abs_def] status_ok_def [abs_def]
  by (rule deep_copy_record [where mkv = Pair, OF deep_copy_slice_field [where arr = conds_of and mk = Conds, OF assms]])
    (simp_all add: RunnerPoolStatus_DeepCopyInto_def split_beta)

lemma pool_deep_copy:
  assumes "deep_copy (mv_Condition lib) cf cv ck" and "deep_copy (mv_ObjectMeta lib) mf mv mk"
  shows "deep_copy (RunnerPool_DeepCopyInto lib) (pool_foot cf mf) (pool_val cv mv) (pool_ok ck mk)"
proof -
  note both = deep_copy_pair [OF assms(2) status_deep_copy [OF assms(1)]]
  show ?thesis
    using deep_copy_record [OF both, where copy' = "RunnerPool_DeepCopyInto lib" and mkv = Pair
      and fs = "\<lambda>p. (gp_ObjectMeta p, gp_Status p)" and g = "\<lambda>p. (gp_TypeMeta p, gp_Spec p)"]
    by (simp add: RunnerPool_DeepCopyInto_def split_beta pool_foot_def [abs_def] pool_val_def [abs_def] pool_ok_def [abs_def])
qed

lemma list_deep_copy:
  assumes "deep_copy (mv_Condition lib) cf cv ck" and "deep_copy (mv_ObjectMeta lib) mf mv mk"
    and "deep_copy (mv_ListMeta lib) lf lv lk"
  shows "deep_copy (RunnerPoolList_DeepCopyInto lib) (list_foot cf mf lf) (list_val cv mv lv) (list_ok ck mk lk)"
proof -
  note both = deep_copy_pair [OF assms(3) deep_copy_slice_field [OF pool_deep_copy [OF assms(1,2)],
    where mk = Items and arr = items_of and zero = "zero_pool (mv_zeroObjectMeta lib)"]]
  show ?thesis
    using deep_copy_record [OF both, where copy' = "RunnerPoolList_DeepCopyInto lib" and mkv = Pair
      and fs = "\<lambda>l. (gl_ListMeta l, gl_Items l)" and g = gl_TypeMeta]
    by (simp add: RunnerPoolList_DeepCopyInto_def split_beta list_foot_def [abs_def] list_val_def [abs_def] list_ok_def [abs_def])
qed

section \<open>Properties\<close>

text \<open>A heap after writes that touch, of the cells that were there, only those in \<open>S\<close>.\<close>

definition writes_only :: "nat set \<Rightarrow> 'e list \<Rightarrow> 'e list \<Rightarrow> bool" where
  "writes_only S h k \<longleftrightarrow> length h \<le> length k \<and> (\<forall>a < length h. a \<notin> S \<longrightarrow> k ! a = h ! a)"

lemma deep_copy_independent:
  assumes "deep_copy copy foot val ok" and "ok h x" and "copy x h = (y, h')"
  shows "val h' y = val h x \<and> val h' x = val h x \<and>
    (\<forall>k. writes_only (foot h' x) h' k \<longrightarrow> val k y = val h x) \<and> (\<forall>k. writes_only (foot h' y) h' k \<longrightarrow> val k x = val h x)"
  using deep_copy.independent [OF assms] unfolding writes_only_def by blast

text \<open>
  C35. Copies share nothing. If the metadata types of the library are deep copied by their methods,
  then \<open>DeepCopyObject\<close> of a pool and of a list of pools gives an object that reads the same as the
  original, leaves the original as it was, and stays the same whatever is written through any
  reference of the original, and the original whatever is written through the copy. A nil pointer
  gives nil.
\<close>

theorem deepcopy_shares_nothing:
  assumes "deep_copy (mv_Condition lib) cf cv ck" and "deep_copy (mv_ObjectMeta lib) mf mv mk"
    and "deep_copy (mv_ListMeta lib) lf lv lk" and "pool_ok ck mk h p" and "list_ok ck mk lk h l"
  shows "(\<exists>p' h'. RunnerPool_DeepCopyObject lib (Some p) h = (Some (PoolObject p'), h') \<and>
      pool_val cv mv h' p' = pool_val cv mv h p \<and> pool_val cv mv h' p = pool_val cv mv h p \<and>
      (\<forall>k. writes_only (pool_foot cf mf h' p) h' k \<longrightarrow> pool_val cv mv k p' = pool_val cv mv h p) \<and>
      (\<forall>k. writes_only (pool_foot cf mf h' p') h' k \<longrightarrow> pool_val cv mv k p = pool_val cv mv h p)) \<and>
    (\<exists>l' h'. RunnerPoolList_DeepCopyObject lib (Some l) h = (Some (ListObject l'), h') \<and>
      list_val cv mv lv h' l' = list_val cv mv lv h l \<and> list_val cv mv lv h' l = list_val cv mv lv h l \<and>
      (\<forall>k. writes_only (list_foot cf mf lf h' l) h' k \<longrightarrow> list_val cv mv lv k l' = list_val cv mv lv h l) \<and>
      (\<forall>k. writes_only (list_foot cf mf lf h' l') h' k \<longrightarrow> list_val cv mv lv k l = list_val cv mv lv h l)) \<and>
    RunnerPool_DeepCopyObject lib None h = (None, h) \<and> RunnerPoolList_DeepCopyObject lib None h = (None, h)"
proof (intro conjI)
  obtain p' h' where p: "RunnerPool_DeepCopyInto lib p h = (p', h')" by (cases "RunnerPool_DeepCopyInto lib p h")
  then have "RunnerPool_DeepCopyObject lib (Some p) h = (Some (PoolObject p'), h')"
    by (simp add: RunnerPool_DeepCopyObject_def RunnerPool_DeepCopy_def copy_opt_def)
  with deep_copy_independent [OF pool_deep_copy [OF assms(1,2)] assms(4) p]
  show "\<exists>p' h'. RunnerPool_DeepCopyObject lib (Some p) h = (Some (PoolObject p'), h') \<and>
      pool_val cv mv h' p' = pool_val cv mv h p \<and> pool_val cv mv h' p = pool_val cv mv h p \<and>
      (\<forall>k. writes_only (pool_foot cf mf h' p) h' k \<longrightarrow> pool_val cv mv k p' = pool_val cv mv h p) \<and>
      (\<forall>k. writes_only (pool_foot cf mf h' p') h' k \<longrightarrow> pool_val cv mv k p = pool_val cv mv h p)" by blast
next
  obtain l' h' where l: "RunnerPoolList_DeepCopyInto lib l h = (l', h')" by (cases "RunnerPoolList_DeepCopyInto lib l h")
  then have "RunnerPoolList_DeepCopyObject lib (Some l) h = (Some (ListObject l'), h')"
    by (simp add: RunnerPoolList_DeepCopyObject_def RunnerPoolList_DeepCopy_def copy_opt_def)
  with deep_copy_independent [OF list_deep_copy [OF assms(1-3)] assms(5) l]
  show "\<exists>l' h'. RunnerPoolList_DeepCopyObject lib (Some l) h = (Some (ListObject l'), h') \<and>
      list_val cv mv lv h' l' = list_val cv mv lv h l \<and> list_val cv mv lv h' l = list_val cv mv lv h l \<and>
      (\<forall>k. writes_only (list_foot cf mf lf h' l) h' k \<longrightarrow> list_val cv mv lv k l' = list_val cv mv lv h l) \<and>
      (\<forall>k. writes_only (list_foot cf mf lf h' l') h' k \<longrightarrow> list_val cv mv lv k l = list_val cv mv lv h l)" by blast
qed (simp_all add: RunnerPool_DeepCopyObject_def RunnerPool_DeepCopy_def RunnerPoolList_DeepCopyObject_def
      RunnerPoolList_DeepCopy_def copy_opt_def)

section \<open>Witness\<close>

text \<open>Object metadata as the address of a label map; conditions and list metadata as plain values.\<close>

definition demo_metav1 :: "(nat, string, string \<times> string, (string \<times> string) list) metav1" where
  "demo_metav1 =
     \<lparr> mv_Condition = (\<lambda>c h. (c, h)), mv_ObjectMeta = (\<lambda>a h. (length h, h @ [h ! a])), mv_ListMeta = (\<lambda>l h. (l, h)),
       mv_zeroCondition = ([], []), mv_zeroObjectMeta = 0 \<rparr>"

definition demo_go_pool :: "nat goPool" where
  "demo_go_pool =
     (zero_pool 1)\<lparr> gp_Status := \<lparr> gs_ReadyReplicas = 3, gs_EligibleQueued = 0,
       gs_Conditions = Some \<lparr> sl_arr = 0, sl_off = 0, sl_len = 1 \<rparr> \<rparr> \<rparr>"

definition demo_heap :: "(nat, string \<times> string, (string \<times> string) list) heap" where
  "demo_heap = [Conds [(''Ready'', ''True'')], Lib [(''team'', ''a'')], Items [demo_go_pool]]"

definition demo_list :: "string goPoolList" where
  "demo_list = \<lparr> gl_TypeMeta = ([], []), gl_ListMeta = ''7'', gl_Items = Some \<lparr> sl_arr = 2, sl_off = 0, sl_len = 1 \<rparr> \<rparr>"

lemma deep_copy_labels: "deep_copy (\<lambda>a h. (length h, h @ [h ! a])) (\<lambda>h a. {a}) (\<lambda>h a. h ! a) (\<lambda>h a. a < length h)"
  by unfold_locales auto

theorem deepcopy_shares_nothing_witness:
  "\<exists>l' h'. RunnerPoolList_DeepCopyObject demo_metav1 (Some demo_list) demo_heap = (Some (ListObject l'), h') \<and>
     list_val (\<lambda>h c. c) (\<lambda>h a. h ! a) (\<lambda>h l. l) (h'[0 := Conds [], 1 := Lib [], 2 := Items []]) l' =
       list_val (\<lambda>h c. c) (\<lambda>h a. h ! a) (\<lambda>h l. l) demo_heap demo_list"
proof -
  have "deep_copy (mv_Condition demo_metav1) (\<lambda>h c. {}) (\<lambda>h c. c) (\<lambda>h c. True)"
    "deep_copy (mv_ObjectMeta demo_metav1) (\<lambda>h a. {a}) (\<lambda>h a. h ! a) (\<lambda>h a. a < length h)"
    "deep_copy (mv_ListMeta demo_metav1) (\<lambda>h l. {}) (\<lambda>h l. l) (\<lambda>h l. True)"
    by (simp_all add: demo_metav1_def deep_copy_flat deep_copy_labels)
  moreover have pool: "pool_ok (\<lambda>h c. True) (\<lambda>h a. a < length h) demo_heap demo_go_pool"
    by (simp add: pool_ok_def status_ok_def opt_ok_def slice_ok_def demo_heap_def demo_go_pool_def zero_pool_def list_all_iff)
  moreover have "list_ok (\<lambda>h c. True) (\<lambda>h a. a < length h) (\<lambda>h l. True) demo_heap demo_list"
    using pool by (simp add: list_ok_def opt_ok_def slice_ok_def slice_elems_def demo_heap_def demo_list_def)
  ultimately obtain l' h' where r: "RunnerPoolList_DeepCopyObject demo_metav1 (Some demo_list) demo_heap = (Some (ListObject l'), h')"
    and kept: "\<And>k. writes_only (list_foot (\<lambda>h c. {}) (\<lambda>h a. {a}) (\<lambda>h l. {}) h' demo_list) h' k \<Longrightarrow>
      list_val (\<lambda>h c. c) (\<lambda>h a. h ! a) (\<lambda>h l. l) k l' = list_val (\<lambda>h c. c) (\<lambda>h a. h ! a) (\<lambda>h l. l) demo_heap demo_list"
    using deepcopy_shares_nothing [of demo_metav1 "\<lambda>h c. {}" "\<lambda>h c. c" "\<lambda>h c. True" "\<lambda>h a. {a}" "\<lambda>h a. h ! a"
      "\<lambda>h a. a < length h" "\<lambda>h l. {}" "\<lambda>h l. l" "\<lambda>h l. True" demo_heap demo_go_pool demo_list] by blast
  have "take 3 (snd (RunnerPoolList_DeepCopyObject demo_metav1 (Some demo_list) demo_heap)) = demo_heap" by code_simp
  then have "take 3 h' = demo_heap" by (simp add: r)
  then obtain cs where "h' = demo_heap @ cs" using append_take_drop_id by metis
  then have "list_foot (\<lambda>h c. {}) (\<lambda>h a. {a}) (\<lambda>h l. {}) h' demo_list = {0, 1, 2}"
    by (auto simp: list_foot_def opt_foot_def slice_foot_def slice_elems_def pool_foot_def status_foot_def demo_list_def
        demo_heap_def demo_go_pool_def zero_pool_def)
  then have "writes_only (list_foot (\<lambda>h c. {}) (\<lambda>h a. {a}) (\<lambda>h l. {}) h' demo_list) h' (h'[0 := Conds [], 1 := Lib [], 2 := Items []])"
    by (auto simp: writes_only_def)
  from kept [OF this] r show ?thesis by blast
qed

end
