(* ===== verification/ClusterScenario.thy ===== *)
theory ClusterScenario
  imports Operator DeepCopy
begin

text \<open>
  A small cluster with pools, Deployments and ScaledObjects, in which the newest version of an
  object shadows the older ones: concrete instances of what the operator's
  properties assume of the Kubernetes libraries.
\<close>

section \<open>The cluster\<close>

record small_cluster =
  sc_deps :: "Deployment list"
  sc_sos :: "ScaledObject list"
  sc_pools :: "RunnerPool list"

definition newest :: "('a \<Rightarrow> string \<times> string) \<Rightarrow> 'a list \<Rightarrow> string \<times> string \<Rightarrow> 'a option" where
  "newest key xs = map_of (map (\<lambda>x. (key x, x)) xs)"

lemma newest_Cons [simp]: "newest key (x # xs) = (newest key xs)(key x \<mapsto> x)"
  by (simp add: newest_def)

lemma newest_key: "newest key xs k = Some x \<Longrightarrow> key x = k"
  by (auto simp: newest_def dest: map_of_SomeD)

definition dep_key :: "Deployment \<Rightarrow> string \<times> string" where
  "dep_key d = (dp_Namespace d, dp_Name d)"

definition found :: "'a option \<Rightarrow> 'a kres" where
  "found x = (case x of None \<Rightarrow> Inl KNotFound | Some v \<Rightarrow> Inr v)"

definition sc_dep :: "small_cluster \<Rightarrow> string \<times> string \<Rightarrow> Deployment option" where
  "sc_dep k = newest dep_key (sc_deps k)"

definition sc_so :: "small_cluster \<Rightarrow> string \<times> string \<Rightarrow> ScaledObject option" where
  "sc_so k = newest so_key (sc_sos k)"

definition sc_pool :: "small_cluster \<Rightarrow> string \<times> string \<Rightarrow> RunnerPool option" where
  "sc_pool k = newest pool_key (sc_pools k)"

definition put_deployment :: "Deployment \<Rightarrow> small_cluster \<Rightarrow> small_cluster" where
  "put_deployment d k = k\<lparr> sc_deps := d\<lparr> dp_ResourceVersion := show_nat (length (sc_deps k)) \<rparr> # sc_deps k \<rparr>"

definition put_scaledobject :: "ScaledObject \<Rightarrow> small_cluster \<Rightarrow> small_cluster" where
  "put_scaledobject x k = k\<lparr> sc_sos := x\<lparr> sdo_ResourceVersion := show_nat (length (sc_sos k)) \<rparr> # sc_sos k \<rparr>"

definition small_kube :: "small_cluster kubeClient" where
  "small_kube =
     \<lparr> kc_GetPool = (\<lambda>key k. (found (sc_pool k key), k)),
       kc_UpdateStatus = (\<lambda>p k. case sc_pool k (pool_key p) of
          None \<Rightarrow> (Inl KNotFound, k)
        | Some p0 \<Rightarrow> (Inr (), k\<lparr> sc_pools := p0\<lparr> rp_Status := rp_Status p \<rparr> # sc_pools k \<rparr>)),
       kc_GetDeployment = (\<lambda>key k. (found (sc_dep k key), k)),
       kc_CreateDeployment = (\<lambda>d k. case sc_dep k (dep_key d) of
          None \<Rightarrow> (Inr (), put_deployment d k) | Some d0 \<Rightarrow> (Inl (KOther ''exists''), k)),
       kc_UpdateDeployment = (\<lambda>d k. case sc_dep k (dep_key d) of
          None \<Rightarrow> (Inl KNotFound, k)
        | Some d0 \<Rightarrow> if dp_ResourceVersion d0 = dp_ResourceVersion d then (Inr (), put_deployment d k) else (Inl KConflict, k)),
       kc_GetScaledObject = (\<lambda>key k. (found (sc_so k key), k)),
       kc_CreateScaledObject = (\<lambda>x k. case sc_so k (so_key x) of
          None \<Rightarrow> (Inr (), put_scaledobject x k) | Some x0 \<Rightarrow> (Inl (KOther ''exists''), k)),
       kc_UpdateScaledObject = (\<lambda>x k. case sc_so k (so_key x) of
          None \<Rightarrow> (Inl KNotFound, k)
        | Some x0 \<Rightarrow> if sdo_ResourceVersion x0 = sdo_ResourceVersion x then (Inr (), put_scaledobject x k) else (Inl KConflict, k)) \<rparr>"

lemma put_frame [simp]:
  "sc_so (put_deployment d k) = sc_so k" "sc_pool (put_deployment d k) = sc_pool k"
  "sc_dep (put_scaledobject x k) = sc_dep k" "sc_pool (put_scaledobject x k) = sc_pool k"
  "sc_dep (put_deployment d k) = (sc_dep k)((dp_Namespace d, dp_Name d) \<mapsto> d\<lparr> dp_ResourceVersion := show_nat (length (sc_deps k)) \<rparr>)"
  "sc_so (put_scaledobject x k) = (sc_so k)(so_key x \<mapsto> x\<lparr> sdo_ResourceVersion := show_nat (length (sc_sos k)) \<rparr>)"
  "sc_dep (k\<lparr> sc_pools := ps \<rparr>) = sc_dep k" "sc_so (k\<lparr> sc_pools := ps \<rparr>) = sc_so k"
  "sc_pool (k\<lparr> sc_pools := p # sc_pools k \<rparr>) = (sc_pool k)(pool_key p \<mapsto> p)"
  by (simp_all add: put_deployment_def put_scaledobject_def sc_dep_def sc_so_def sc_pool_def dep_key_def so_key_def)

lemma small_kube_deployments: "kube_laws small_kube sc_dep (\<lambda>k. k)"
proof -
  have key: "sc_dep k key = Some d \<Longrightarrow> (dp_Namespace d, dp_Name d) = key" for k key d
    using newest_key [of dep_key] by (auto simp: sc_dep_def dep_key_def)
  show ?thesis unfolding kube_laws_def
    by (intro conjI allI) (auto simp: small_kube_def found_def dep_key_def dest: key split: option.splits)
qed

lemma small_kube_laws: "cluster_laws small_kube sc_dep sc_so sc_pool"
proof -
  have pool: "sc_pool k key = Some p \<Longrightarrow> pool_key p = key" for k key p
    using newest_key [of pool_key] by (simp add: sc_pool_def)
  then have status: "sc_pool k key = Some p \<Longrightarrow> pool_key (p\<lparr> rp_Status := st \<rparr>) = key" for k key p st
    by (auto simp: pool_key_def)
  show ?thesis unfolding cluster_laws_def
  proof (intro conjI allI)
    show "kube_laws small_kube sc_dep (\<lambda>k. k)" by (rule small_kube_deployments)
  qed (auto simp: small_kube_def found_def pool status split: option.splits)
qed

section \<open>Witnesses\<close>

text \<open>A pool whose Deployment already runs, out of date, with three runners ready.\<close>

definition small_world :: small_cluster where
  "small_world =
     \<lparr> sc_deps = [demo_scaled\<lparr> dp_ReadyReplicas := 3 \<rparr>], sc_sos = [], sc_pools = [demo_pool] \<rparr>"


end
