(* ===== verification/Engine.thy ===== *)
theory Engine
  imports GoJson GoStrings
begin

text \<open>
  What the runner makes of one EnergyPlus run: the core metrics it extracts from the tabular reports
  (\<open>metrics.py\<close>, \<open>engine.py\<close>) and the verdict it reads off the error file (\<open>parse_err.py\<close>).
  EnergyPlus, SQLite and \<open>float()\<close> are parameters; text is ASCII.
\<close>

section \<open>Python strings\<close>

definition py_space :: "char \<Rightarrow> bool" where
  "py_space c \<longleftrightarrow> List.member [32, 9, 10, 11, 12, 13, 28, 29, 30, 31] (byte c)"

definition py_strip :: "string \<Rightarrow> string" where
  "py_strip s = rev (dropWhile py_space (rev (dropWhile py_space s)))"

fun py_in :: "string \<Rightarrow> string \<Rightarrow> bool" where
  "py_in pat [] \<longleftrightarrow> pat = []"
| "py_in pat (c # s) \<longleftrightarrow> HasPrefix (c # s) pat \<or> py_in pat s"

section \<open>Core metrics (\<open>metrics.py\<close>, \<open>engine.py\<close>)\<close>

text \<open>A dict keeps the order of first insertion.\<close>

type_synonym metrics = "(string \<times> json) list"

definition dict_set :: "string \<Rightarrow> json \<Rightarrow> metrics \<Rightarrow> metrics" where
  "dict_set k v m = (if List.member (map fst m) k then map (\<lambda>(k', v'). if k' = k then (k', v) else (k', v')) m else m @ [(k, v)])"

definition dict_setdefault :: "string \<Rightarrow> json \<Rightarrow> metrics \<Rightarrow> metrics" where
  "dict_setdefault k v m = (if List.member (map fst m) k then m else m @ [(k, v)])"

definition CORE_KEYS :: "string list" where
  "CORE_KEYS = [''site_eui'', ''source_eui'', ''total_site_energy'', ''total_source_energy'',
     ''unmet_heating_hours'', ''unmet_cooling_hours'', ''run_seconds'']"

definition empty_metrics :: metrics where
  "empty_metrics = map (\<lambda>k. (k, JNull)) CORE_KEYS"

text \<open>A row of the tabular reports: report, table, row and column name, which may be null, and the value.\<close>

type_synonym sql_row = "string option \<times> string option \<times> string option \<times> string option \<times> string"

definition norm_name :: "string option \<Rightarrow> string" where
  "norm_name n = map lower (py_strip (case n of None \<Rightarrow> [] | Some s \<Rightarrow> s))"

text \<open>The metric a row assigns, if any.\<close>

fun metric_of :: "sql_row \<Rightarrow> string option" where
  "metric_of (report, table, row_name, col_name, value) =
     (let rn = norm_name row_name; tn = norm_name table; cn = norm_name col_name in
      if py_in ''site and source energy'' tn then
        (let is_total_col = (cn = ''total energy''); is_eui_col = py_in ''energy per total building area'' cn in
         if rn = ''total site energy'' then
           (if is_total_col then Some ''total_site_energy'' else if is_eui_col then Some ''site_eui'' else None)
         else if rn = ''total source energy'' then
           (if is_total_col then Some ''total_source_energy'' else if is_eui_col then Some ''source_eui'' else None)
         else None)
      else if py_in ''comfort and setpoint not met summary'' tn then
        (if py_in ''setpoint not met'' rn \<and> py_in ''heating'' rn then Some ''unmet_heating_hours''
         else if py_in ''setpoint not met'' rn \<and> py_in ''cooling'' rn then Some ''unmet_cooling_hours''
         else None)
      else None)"

definition row_value :: "sql_row \<Rightarrow> string" where
  "row_value r = snd (snd (snd (snd r)))"

text \<open>\<open>rows\<close> is what SQLite yields, \<open>None\<close> when it raises; \<open>to_float\<close> gives null for what is no number.\<close>

definition extract_metrics :: "(string \<Rightarrow> json) \<Rightarrow> sql_row list option \<Rightarrow> metrics" where
  "extract_metrics to_float rows =
     (case rows of
        None \<Rightarrow> empty_metrics
      | Some rs \<Rightarrow> fold (\<lambda>r m. case metric_of r of None \<Rightarrow> m | Some k \<Rightarrow> dict_set k (to_float (row_value r)) m) rs empty_metrics)"

text \<open>
  One execution of EnergyPlus: its exit code, the reports (\<open>None\<close>: there is no \<open>eplusout.sql\<close>), the
  lines of \<open>eplusout.err\<close> (\<open>None\<close>: there is no such file) and the rounded seconds it took.
\<close>

record engine_run =
  er_returncode :: int
  er_sql :: "sql_row list option option"
  er_err :: "string list option"
  er_seconds :: string

definition run_engine :: "(string \<Rightarrow> json) \<Rightarrow> engine_run \<Rightarrow> metrics" where
  "run_engine to_float er =
     (let metrics = (case er_sql er of None \<Rightarrow> empty_metrics | Some rows \<Rightarrow> extract_metrics to_float rows);
          metrics = dict_set ''run_seconds'' (JNum (er_seconds er)) metrics
      in fold (\<lambda>k. dict_setdefault k JNull) CORE_KEYS metrics)"

section \<open>Verdict (\<open>parse_err.py\<close>)\<close>

text \<open>A line contains \<open>**\<close>, the word in any case, and \<open>**\<close>, with blanks around the word.\<close>

definition marker_here :: "string \<Rightarrow> string \<Rightarrow> bool" where
  "marker_here word s \<longleftrightarrow>
     HasPrefix s ''**'' \<and>
     (let r = dropWhile py_space (drop 2 s)
      in map lower (take (length word) r) = word \<and>
         HasPrefix (dropWhile py_space (drop (length word) r)) ''**'')"

fun search_marker :: "string \<Rightarrow> string \<Rightarrow> bool" where
  "search_marker word [] = False"
| "search_marker word (c # s) = (marker_here word (c # s) \<or> search_marker word s)"

record Verdict =
  vd_verdict :: string
  vd_warnings :: nat
  vd_severe :: nat
  vd_fatal :: nat

definition succeeded :: "Verdict \<Rightarrow> bool" where
  "succeeded v \<longleftrightarrow> vd_verdict v = ''clean'' \<or> vd_verdict v = ''warnings''"

fun tally :: "string list \<Rightarrow> nat \<times> nat \<times> nat \<Rightarrow> nat \<times> nat \<times> nat" where
  "tally [] n = n"
| "tally (line # ls) (warnings, severe, fatal) =
     tally ls
       (if search_marker ''fatal'' line then (warnings, severe, fatal + 1)
        else if search_marker ''severe'' line then (warnings, severe + 1, fatal)
        else if search_marker ''warning'' line then (warnings + 1, severe, fatal)
        else (warnings, severe, fatal))"

text \<open>The lines of \<open>eplusout.err\<close>, or \<open>None\<close> when the file does not exist.\<close>

definition classify :: "string list option \<Rightarrow> Verdict" where
  "classify err =
     (case err of
        None \<Rightarrow> \<lparr> vd_verdict = ''fatal'', vd_warnings = 0, vd_severe = 0, vd_fatal = 1 \<rparr>
      | Some ls \<Rightarrow>
          (case tally ls (0, 0, 0) of
             (warnings, severe, fatal) \<Rightarrow>
               \<lparr> vd_verdict = (if fatal > 0 then ''fatal'' else if severe > 0 then ''severe''
                               else if warnings > 0 then ''warnings'' else ''clean''),
                 vd_warnings = warnings, vd_severe = severe, vd_fatal = fatal \<rparr>))"

section \<open>Lemmas\<close>

lemma keys_dict_set: "map fst (dict_set k v m) = (if k \<in> fst ` set m then map fst m else map fst m @ [k])"
  by (auto simp: dict_set_def split_beta)

lemma keys_empty_metrics [simp]: "map fst empty_metrics = CORE_KEYS"
  by (simp add: empty_metrics_def comp_def)

lemma metric_of_core:
  assumes "metric_of r = Some k"
  shows "k \<in> set CORE_KEYS"
proof -
  obtain report table row_name col_name v where r: "r = (report, table, row_name, col_name, v)" by (cases r) blast
  have "k \<in> {''total_site_energy'', ''site_eui'', ''total_source_energy'', ''source_eui'', ''unmet_heating_hours'', ''unmet_cooling_hours''}"
    using assms unfolding r metric_of.simps Let_def by (simp only: option.inject option.distinct split: if_split_asm) simp_all
  then show ?thesis by (auto simp: CORE_KEYS_def)
qed

lemma map_of_replace:
  "map_of (map (\<lambda>(k', v'). if k' = k then (k', v) else (k', v')) m) k'' =
     (if k'' = k \<and> k \<in> fst ` set m then Some v else map_of m k'')"
proof (induction m)
  case (Cons p m)
  obtain a b where "p = (a, b)" by (cases p)
  with Cons.IH show ?case by (cases "k'' = k"; cases "a = k") auto
qed simp

lemma map_of_dict_set: "map_of (dict_set k v m) k' = (if k' = k then Some v else map_of m k')"
proof (cases "k \<in> fst ` set m")
  case True
  then show ?thesis by (simp add: dict_set_def map_of_replace)
next
  case False
  then have "map_of m k = None" by (simp add: map_of_eq_None_iff)
  with False show ?thesis by (auto simp: dict_set_def map_of_append map_add_def split: option.splits)
qed

text \<open>The last row for a metric decides it.\<close>

definition last_value :: "(string \<Rightarrow> json) \<Rightarrow> string \<Rightarrow> sql_row list \<Rightarrow> json option" where
  "last_value f k rs =
     (let ms = filter (\<lambda>r. metric_of r = Some k) rs in if ms = [] then None else Some (f (row_value (last ms))))"

lemma last_value_snoc:
  "last_value f k (rs @ [r]) = (if metric_of r = Some k then Some (f (row_value r)) else last_value f k rs)"
  by (simp add: last_value_def Let_def)

lemma extract_rows:
  "map fst (extract_metrics f (Some rs)) = CORE_KEYS \<and>
   (k \<in> set CORE_KEYS \<longrightarrow> map_of (extract_metrics f (Some rs)) k = Some (case last_value f k rs of None \<Rightarrow> JNull | Some v \<Rightarrow> v))"
proof (induction rs rule: rev_induct)
  case Nil
  have "map_of empty_metrics k = (if k \<in> set CORE_KEYS then Some JNull else None)"
    by (simp add: empty_metrics_def map_of_map_restrict)
  then show ?case by (simp add: extract_metrics_def last_value_def)
next
  case (snoc r rs)
  have step: "extract_metrics f (Some (rs @ [r])) =
      (case metric_of r of None \<Rightarrow> extract_metrics f (Some rs) | Some k \<Rightarrow> dict_set k (f (row_value r)) (extract_metrics f (Some rs)))"
    by (simp add: extract_metrics_def split: option.splits)
  have "k' \<in> fst ` set (extract_metrics f (Some rs))" if "metric_of r = Some k'" for k'
    using metric_of_core [OF that] arg_cong [OF conjunct1 [OF snoc.IH], of set] by simp
  with snoc.IH show ?case
    unfolding step last_value_snoc by (auto simp: keys_dict_set map_of_dict_set split: option.splits)
qed

lemma extract_keys: "map fst (extract_metrics f rows) = CORE_KEYS"
  using extract_rows by (cases rows) (simp_all add: extract_metrics_def)

lemma setdefault_all: "set ks \<subseteq> fst ` set m \<Longrightarrow> fold (\<lambda>k. dict_setdefault k v) ks m = m"
  by (induction ks arbitrary: m) (auto simp: dict_setdefault_def)

lemma run_engine_eq:
  "run_engine f er = dict_set ''run_seconds'' (JNum (er_seconds er))
     (case er_sql er of None \<Rightarrow> empty_metrics | Some rows \<Rightarrow> extract_metrics f rows)"
proof -
  let ?m = "case er_sql er of None \<Rightarrow> empty_metrics | Some rows \<Rightarrow> extract_metrics f rows"
  let ?d = "dict_set ''run_seconds'' (JNum (er_seconds er)) ?m"
  have keys: "map fst ?m = CORE_KEYS" by (simp add: extract_keys split: option.splits)
  have "set CORE_KEYS \<subseteq> fst ` set ?d"
    using arg_cong [OF keys_dict_set [of "''run_seconds''" "JNum (er_seconds er)" ?m], of set]
      arg_cong [OF keys, of set] by auto
  then show ?thesis unfolding run_engine_def Let_def by (rule setdefault_all)
qed

text \<open>A run succeeds exactly when the error file exists and no line of it is marked severe or fatal.\<close>

lemma tally_counts:
  "tally ls (w, s, f) =
     (w + count_where (\<lambda>l. \<not> search_marker ''fatal'' l \<and> \<not> search_marker ''severe'' l \<and> search_marker ''warning'' l) ls,
      s + count_where (\<lambda>l. \<not> search_marker ''fatal'' l \<and> search_marker ''severe'' l) ls,
      f + count_where (search_marker ''fatal'') ls)"
  by (induction ls arbitrary: w s f) simp_all

lemma succeeded_iff:
  "succeeded (classify err) \<longleftrightarrow>
     (\<exists>ls. err = Some ls \<and> (\<forall>l \<in> set ls. \<not> search_marker ''fatal'' l \<and> \<not> search_marker ''severe'' l))"
  by (cases err) (auto simp: succeeded_def classify_def tally_counts count_where_pos)

section \<open>Properties\<close>


end
