(* ===== verification/Runner.thy ===== *)
theory Runner
  imports Queue Engine
begin

text \<open>
  The runner (\<open>runner/synergy_runner\<close>), the process that executes simulations: claim, fetch the
  inputs, back-fill the content hash, run EnergyPlus, record the result, finish the row. Each database
  statement is one step, so that other participants can act between any two; the local work between
  two statements belongs to the second. EnergyPlus, the object store and the disk are parameters.
\<close>

section \<open>Object references (\<open>storage.py\<close>)\<close>

text \<open>
  What \<open>urllib.parse.urlparse\<close> makes of a reference: leading blanks and control characters go,
  tabs and line ends go everywhere; scheme, authority and path, without query and fragment. A path
  without a scheme also loses the parameters of its last segment.
\<close>

definition scheme_char :: "char \<Rightarrow> bool" where
  "scheme_char c \<longleftrightarrow>
     65 \<le> byte c \<and> byte c \<le> 90 \<or> 97 \<le> byte c \<and> byte c \<le> 122 \<or> is_digit c \<or> List.member ''+-.'' c"

definition alpha_char :: "char \<Rightarrow> bool" where
  "alpha_char c \<longleftrightarrow> 65 \<le> byte c \<and> byte c \<le> 90 \<or> 97 \<le> byte c \<and> byte c \<le> 122"

definition splitparams :: "string \<Rightarrow> string" where
  "splitparams p =
     (let n = length p - length (takeWhile (\<lambda>c. c \<noteq> CHR ''/'') (rev p))
      in take n p @ takeWhile (\<lambda>c. c \<noteq> CHR '';'') (drop n p))"

definition urlparse :: "string \<Rightarrow> string \<times> string \<times> string" where
  "urlparse url =
     (let u = filter (\<lambda>c. \<not> List.member [9, 10, 13] (byte c)) (dropWhile (\<lambda>c. byte c \<le> 32) url);
          pre = takeWhile (\<lambda>c. c \<noteq> CHR '':'') u;
          (scheme, rest) =
            (if length pre < length u \<and> pre \<noteq> [] \<and> alpha_char (hd pre) \<and> list_all scheme_char pre
             then (map lower pre, drop (Suc (length pre)) u) else ([], u));
          (netloc, rest) =
            (if HasPrefix rest ''//''
             then (takeWhile (\<lambda>c. \<not> List.member ''/?#'' c) (drop 2 rest), dropWhile (\<lambda>c. \<not> List.member ''/?#'' c) (drop 2 rest))
             else ([], rest));
          path = takeWhile (\<lambda>c. \<not> List.member ''?#'' c) rest
      in (scheme, netloc, if scheme = [] then splitparams path else path))"

record RunnerConfig =
  rcf_runner_id :: string
  rcf_engine_version :: string
  rcf_per_user_cap :: int
  rcf_lease_seconds :: int
  rcf_fetch_attempts :: int
  rcf_bucket_models :: string
  rcf_bucket_weather :: string
  rcf_bucket_results :: string
  rcf_artifact_ttl_days :: "int option"

definition resolve_bucket :: "RunnerConfig \<Rightarrow> string \<Rightarrow> string" where
  "resolve_bucket cfg netloc =
     (if netloc = ''models'' then rcf_bucket_models cfg
      else if netloc = ''weather'' then rcf_bucket_weather cfg
      else if netloc = ''results'' then rcf_bucket_results cfg
      else netloc)"

text \<open>Where the bytes come from: an object, a local file, or nowhere.\<close>

datatype target = S3Object string string | LocalFile string | Unsupported

definition download_target :: "RunnerConfig \<Rightarrow> string \<Rightarrow> target" where
  "download_target cfg ref =
     (case urlparse ref of
        (scheme, netloc, path) \<Rightarrow>
          if scheme = ''s3'' then S3Object (resolve_bucket cfg netloc) (dropWhile (\<lambda>c. c = CHR ''/'') path)
          else if scheme = ''file'' \<or> scheme = [] then LocalFile (if path = [] then ref else path)
          else Unsupported)"

text \<open>Where \<open>upload_dir\<close> puts the files with the given relative paths; \<open>None\<close>: it raises.\<close>

definition strip_slashes :: "string \<Rightarrow> string" where
  "strip_slashes p = rev (dropWhile (\<lambda>c. c = CHR ''/'') (rev (dropWhile (\<lambda>c. c = CHR ''/'') p)))"

definition upload_targets :: "RunnerConfig \<Rightarrow> string \<Rightarrow> string list \<Rightarrow> target list option" where
  "upload_targets cfg ref_prefix rels =
     (case urlparse ref_prefix of
        (scheme, netloc, path) \<Rightarrow>
          if scheme = ''s3'' then
            (let base = strip_slashes path
             in Some (map (\<lambda>rel. S3Object (resolve_bucket cfg netloc) (if base = [] then rel else base @ ''/'' @ rel)) rels))
          else if scheme = ''file'' \<or> scheme = [] then
            Some (map (\<lambda>rel. LocalFile ((if path = [] then ref_prefix else path) @ ''/'' @ rel)) rels)
          else None)"

section \<open>The host\<close>

text \<open>
  What the outside does in one step: the bytes attempt \<open>n\<close> at a download yields (\<open>None\<close>: it raises),
  what EnergyPlus leaves (\<open>None\<close>: it cannot be started) and \<open>float()\<close>, whether the artifacts could be
  uploaded, whether a new connection (the heartbeat's, or after an error) could be opened, the fate
  of the statement, and the text of the exception when something raises.
\<close>

record host =
  h_download :: "nat \<Rightarrow> target \<Rightarrow> string option"
  h_engine :: "string \<Rightarrow> string \<Rightarrow> engine_run option"
  h_float :: "string \<Rightarrow> json"
  h_uploaded :: bool
  h_connect :: bool
  h_fault :: fault
  h_exc :: string

text \<open>\<open>_fetch_input\<close>: up to \<open>max 1 fetch_attempts\<close> tries.\<close>

fun fetch_attempts :: "(nat \<Rightarrow> target \<Rightarrow> string option) \<Rightarrow> target \<Rightarrow> nat \<Rightarrow> nat \<Rightarrow> string option" where
  "fetch_attempts dl tg i 0 = None"
| "fetch_attempts dl tg i (Suc n) =
     (case dl i tg of Some bytes \<Rightarrow> Some bytes | None \<Rightarrow> fetch_attempts dl tg (Suc i) n)"

definition fetch_input :: "RunnerConfig \<Rightarrow> host \<Rightarrow> string \<Rightarrow> string option" where
  "fetch_input cfg h ref =
     fetch_attempts (h_download h) (download_target cfg ref) 0 (nat (max 1 (rcf_fetch_attempts cfg)))"

section \<open>The loop (\<open>loop.py\<close>)\<close>

definition content_hash :: "string \<Rightarrow> string \<Rightarrow> string \<Rightarrow> string" where
  "content_hash model_sha256 weather_sha256 engine_version =
     sha256_hex (model_sha256 @ '':'' @ weather_sha256 @ '':'' @ engine_version)"

text \<open>
  Where a runner stands, before its next statement: polling; with a claimed row; with the inputs on
  disk and their hash written; with the result recorded; in the handler that fails the row.
\<close>

datatype runner_phase =
    Polling
  | Claimed simulations_row
  | Hashed simulations_row string string string
  | Recorded simulations_row string Verdict
  | Failing simulations_row string
  | Exited

text \<open>A statement: its effect on the database, and whether the runner sees it succeed.\<close>

definition attempt :: "fault \<Rightarrow> db \<Rightarrow> db \<Rightarrow> bool \<times> db" where
  "attempt f d d' = (case f of NoFault \<Rightarrow> (True, d') | Lost \<Rightarrow> (False, d) | LostReply \<Rightarrow> (False, d'))"

definition claim :: "RunnerConfig \<Rightarrow> host \<Rightarrow> stmt_ctx \<Rightarrow> string list \<Rightarrow> db \<Rightarrow> runner_phase \<times> db" where
  "claim cfg h x locked d =
     (let (row, d') = claim_simulation (rcf_runner_id cfg) (rcf_engine_version cfg) (rcf_per_user_cap cfg)
                        (rcf_lease_seconds cfg) locked (x_now x) d;
          (ok, d2) = attempt (h_fault h) d d'
      in (if \<not> ok then if h_connect h then Polling else Exited
          else case row of
                 None \<Rightarrow> Polling
               | Some sim \<Rightarrow> if h_connect h then Claimed sim else Exited, d2))"

definition fetch_and_hash :: "RunnerConfig \<Rightarrow> host \<Rightarrow> simulations_row \<Rightarrow> db \<Rightarrow> runner_phase \<times> db" where
  "fetch_and_hash cfg h sim d =
     (case fetch_input cfg h (s_model_ref sim) of
        None \<Rightarrow> (Failing sim (''could not fetch input '' @ s_model_ref sim @ '': '' @ h_exc h), d)
      | Some model \<Rightarrow>
          (case fetch_input cfg h (s_weather_ref sim) of
             None \<Rightarrow> (Failing sim (''could not fetch input '' @ s_weather_ref sim @ '': '' @ h_exc h), d)
           | Some weather \<Rightarrow>
               (let model_sha = sha256_hex model;
                    weather_sha = sha256_hex weather;
                    hash = content_hash model_sha weather_sha (s_engine_version sim);
                    (ok, d2) = attempt (h_fault h) d (backfill_hashes (s_id sim) model_sha weather_sha hash d)
                in (if ok then Hashed sim model weather hash else Failing sim (h_exc h), d2))))"

definition run_and_record ::
  "RunnerConfig \<Rightarrow> host \<Rightarrow> stmt_ctx \<Rightarrow> simulations_row \<Rightarrow> string \<Rightarrow> string \<Rightarrow> string \<Rightarrow> db \<Rightarrow> runner_phase \<times> db" where
  "run_and_record cfg h x sim model weather hash d =
     (case h_engine h model weather of
        None \<Rightarrow> (Failing sim (h_exc h), d)
      | Some er \<Rightarrow>
          (let metrics = run_engine (h_float h) er;
               v = classify (er_err er);
               artifact_uri = (if h_uploaded h then Some (''s3://'' @ rcf_bucket_results cfg @ ''/'' @ hash @ ''/'') else None);
               (ok, d2) = attempt (h_fault h) d
                 (upsert_result hash (vd_verdict v) (JObj metrics) artifact_uri (rcf_artifact_ttl_days cfg) (x_now x) d)
           in (if ok then Recorded sim hash v else Failing sim (h_exc h), d2)))"

definition finalise :: "RunnerConfig \<Rightarrow> host \<Rightarrow> stmt_ctx \<Rightarrow> simulations_row \<Rightarrow> Verdict \<Rightarrow> db \<Rightarrow> runner_phase \<times> db" where
  "finalise cfg h x sim v d =
     (let (ok, d2) = attempt (h_fault h) d
            (snd (finish_simulation (s_id sim) (rcf_runner_id cfg) (succeeded v)
               (if succeeded v then None else Some (''verdict='' @ vd_verdict v)) (x_now x) d))
      in (if ok then Polling else Failing sim (h_exc h), d2))"

definition mark_failed :: "RunnerConfig \<Rightarrow> host \<Rightarrow> stmt_ctx \<Rightarrow> simulations_row \<Rightarrow> string \<Rightarrow> db \<Rightarrow> runner_phase \<times> db" where
  "mark_failed cfg h x sim exc d =
     (Polling, snd (attempt (h_fault h) d
        (snd (finish_simulation (s_id sim) (rcf_runner_id cfg) False (Some (take 1000 exc)) (x_now x) d))))"

fun runner_step :: "RunnerConfig \<Rightarrow> host \<Rightarrow> stmt_ctx \<Rightarrow> string list \<Rightarrow> runner_phase \<Rightarrow> db \<Rightarrow> runner_phase \<times> db" where
  "runner_step cfg h x locked Polling d = claim cfg h x locked d"
| "runner_step cfg h x locked (Claimed sim) d = fetch_and_hash cfg h sim d"
| "runner_step cfg h x locked (Hashed sim model weather hash) d = run_and_record cfg h x sim model weather hash d"
| "runner_step cfg h x locked (Recorded sim hash v) d = finalise cfg h x sim v d"
| "runner_step cfg h x locked (Failing sim exc) d = mark_failed cfg h x sim exc d"
| "runner_step cfg h x locked Exited d = (Exited, d)"

text \<open>The heartbeat thread renews the lease of the row being worked on.\<close>

fun working_on :: "runner_phase \<Rightarrow> simulations_row option" where
  "working_on (Claimed sim) = Some sim"
| "working_on (Hashed sim model weather hash) = Some sim"
| "working_on (Recorded sim hash v) = Some sim"
| "working_on (Failing sim exc) = Some sim"
| "working_on _ = None"

definition heartbeat :: "RunnerConfig \<Rightarrow> fault \<Rightarrow> stmt_ctx \<Rightarrow> runner_phase \<Rightarrow> db \<Rightarrow> db" where
  "heartbeat cfg f x ph d =
     (case working_on ph of
        None \<Rightarrow> d
      | Some sim \<Rightarrow> snd (attempt f d (snd (renew_lease (s_id sim) (rcf_runner_id cfg) (rcf_lease_seconds cfg) (x_now x) d))))"

text \<open>
  \<open>process_simulation\<close> without interference: the steps from a claimed row until the runner polls
  again, the \<open>n\<close>th with the host \<open>hs n\<close> and the statement context \<open>xs n\<close>.
\<close>

fun steps_left :: "runner_phase \<Rightarrow> nat" where
  "steps_left (Claimed sim) = 4"
| "steps_left (Hashed sim model weather hash) = 3"
| "steps_left (Recorded sim hash v) = 2"
| "steps_left (Failing sim exc) = 1"
| "steps_left _ = 0"

lemma runner_step_left:
  "working_on ph \<noteq> None \<Longrightarrow> steps_left (fst (runner_step cfg h x locked ph d)) < steps_left ph"
  by (cases ph) (auto simp: fetch_and_hash_def run_and_record_def finalise_def mark_failed_def split_beta Let_def split: option.splits)

function process_simulation ::
  "RunnerConfig \<Rightarrow> (nat \<Rightarrow> host) \<Rightarrow> (nat \<Rightarrow> stmt_ctx) \<Rightarrow> nat \<Rightarrow> runner_phase \<Rightarrow> db \<Rightarrow> runner_phase \<times> db" where
  "process_simulation cfg hs xs n ph d =
     (if working_on ph = None then (ph, d)
      else process_simulation cfg hs xs (Suc n)
             (fst (runner_step cfg (hs n) (xs n) [] ph d)) (snd (runner_step cfg (hs n) (xs n) [] ph d)))"
  by pat_completeness auto
termination
  by (relation "measure (\<lambda>(cfg, hs, xs, n, ph, d). steps_left ph)") (auto simp: runner_step_left split_beta)

declare process_simulation.simps [simp del]

section \<open>Lemmas\<close>

text \<open>Runner and apiserver compute the same content hash.\<close>

lemma content_hash_agrees: "content_hash = ContentHash"
  by (simp add: fun_eq_iff content_hash_def ContentHash_def)

lemma fetch_attempts_Some: "fetch_attempts dl tg i n = Some b \<Longrightarrow> \<exists>j. dl j tg = Some b"
  by (induction dl tg i n rule: fetch_attempts.induct) (auto split: option.splits)

lemma process_simulation_Polling [simp]: "process_simulation cfg hs xs n Polling d = (Polling, d)"
  by (simp add: process_simulation.simps)

lemma process_simulation_step:
  "working_on ph \<noteq> None \<Longrightarrow> runner_step cfg (hs n) (xs n) [] ph d = (ph', d') \<Longrightarrow>
     process_simulation cfg hs xs n ph d = process_simulation cfg hs xs (Suc n) ph' d'"
  by (subst process_simulation.simps) auto

text \<open>An exception fails the simulation, not the runner: however the steps fare, the runner polls again.\<close>

lemma process_simulation_returns:
  "working_on ph \<noteq> None \<Longrightarrow> fst (process_simulation cfg hs xs n ph d) = Polling"
proof (induction cfg hs xs n ph d rule: process_simulation.induct)
  case (1 cfg hs xs n ph d)
  let ?ph = "fst (runner_step cfg (hs n) (xs n) [] ph d)"
  have "?ph = Polling \<or> working_on ?ph \<noteq> None"
    using 1(2) by (cases ph)
      (auto simp: fetch_and_hash_def run_and_record_def finalise_def mark_failed_def split_beta Let_def split: option.splits)
  with 1 show ?case by (subst process_simulation.simps) auto
qed

lemma query_row_upsert:
  "query_row (\<lambda>r. r_content_hash r = c) (results (upsert_result c v m uri ttl t d)) =
     Some \<lparr> r_content_hash = c, r_verdict = v, r_metrics = m, r_artifact_uri = uri,
            r_artifact_expires_at = map_option (\<lambda>days. t + usec (days * 86400)) ttl,
            r_created_at = (case query_row (\<lambda>r. r_content_hash r = c) (results d) of None \<Rightarrow> t | Some r \<Rightarrow> r_created_at r) \<rparr>"
proof (cases "query_row (\<lambda>r. r_content_hash r = c) (results d)")
  case None
  then show ?thesis by (simp add: upsert_result_def Let_def query_row_append)
next
  case (Some r)
  with query_row_Some [OF Some] show ?thesis
    by (cases r) (simp add: upsert_result_def Let_def query_row_upd_where)
qed

text \<open>
  The exit code of EnergyPlus decides nothing: a process that was killed before it wrote a severe or
  fatal message counts as a clean run.
\<close>

lemma killed_engine_succeeds:
  assumes "h_engine h m w = Some er" and "er_returncode er = 137" and "er_err er = Some []" and "h_fault h = NoFault"
  shows "\<exists>v. fst (run_and_record cfg h x sim m w c d) = Recorded sim c v \<and> vd_verdict v = ''clean'' \<and> succeeded v"
  using assms by (simp add: run_and_record_def attempt_def Let_def classify_def succeeded_def)

text \<open>The statements of a run without faults.\<close>

lemma process_simulation_run:
  assumes "\<forall>n. h_fault (hs n) = NoFault"
    and "fetch_input cfg (hs 0) (s_model_ref sim) = Some m" and "fetch_input cfg (hs 0) (s_weather_ref sim) = Some w"
    and "h_engine (hs 1) m w = Some er"
    and "c = content_hash (sha256_hex m) (sha256_hex w) (s_engine_version sim)" and "v = classify (er_err er)"
    and "uri = (if h_uploaded (hs 1) then Some (''s3://'' @ rcf_bucket_results cfg @ ''/'' @ c @ ''/'') else None)"
    and "d1 = backfill_hashes (s_id sim) (sha256_hex m) (sha256_hex w) c d"
    and "d2 = upsert_result c (vd_verdict v) (JObj (run_engine (h_float (hs 1)) er)) uri (rcf_artifact_ttl_days cfg) (x_now (xs 1)) d1"
  shows "process_simulation cfg hs xs 0 (Claimed sim) d =
    (Polling, snd (finish_simulation (s_id sim) (rcf_runner_id cfg) (succeeded v)
       (if succeeded v then None else Some (''verdict='' @ vd_verdict v)) (x_now (xs 2)) d2))"
proof -
  let ?d3 = "snd (finish_simulation (s_id sim) (rcf_runner_id cfg) (succeeded v)
       (if succeeded v then None else Some (''verdict='' @ vd_verdict v)) (x_now (xs 2)) d2)"
  have "runner_step cfg (hs 0) (xs 0) [] (Claimed sim) d = (Hashed sim m w c, d1)"
    using assms(1,2,3,5,8) by (simp add: fetch_and_hash_def attempt_def Let_def)
  then have "process_simulation cfg hs xs 0 (Claimed sim) d = process_simulation cfg hs xs (Suc 0) (Hashed sim m w c) d1"
    by (rule process_simulation_step [rotated]) simp
  also have "runner_step cfg (hs (Suc 0)) (xs (Suc 0)) [] (Hashed sim m w c) d1 = (Recorded sim c v, d2)"
    using assms(1,4,6,7,9) by (simp add: run_and_record_def attempt_def Let_def)
  then have "process_simulation cfg hs xs (Suc 0) (Hashed sim m w c) d1 =
      process_simulation cfg hs xs (Suc (Suc 0)) (Recorded sim c v) d2"
    by (rule process_simulation_step [rotated]) simp
  also have "runner_step cfg (hs (Suc (Suc 0))) (xs (Suc (Suc 0))) [] (Recorded sim c v) d2 = (Polling, ?d3)"
    using assms(1) by (simp add: finalise_def attempt_def Let_def numeral_2_eq_2)
  then have "process_simulation cfg hs xs (Suc (Suc 0)) (Recorded sim c v) d2 =
      process_simulation cfg hs xs (Suc (Suc (Suc 0))) Polling ?d3"
    by (rule process_simulation_step [rotated]) simp
  finally show ?thesis by simp
qed

section \<open>Properties\<close>

text \<open>
  C25. A runner that fetches both inputs, runs EnergyPlus on them and loses no connection returns to
  polling with: the digests and the content hash of the fetched bytes in its row, which is succeeded
  exactly when the verdict is clean or warnings, and otherwise failed with the verdict as its error;
  the result, with verdict, metrics, artifact address and expiry, under that content hash; and every
  other row as it was.
\<close>

theorem process_simulation_result:
  assumes "\<forall>n. h_fault (hs n) = NoFault"
    and "fetch_input cfg (hs 0) (s_model_ref sim) = Some m" and "fetch_input cfg (hs 0) (s_weather_ref sim) = Some w"
    and "h_engine (hs 1) m w = Some er"
    and "s \<in> set (simulations d)" and "distinct (map s_id (simulations d))" and "owned_by (s_id sim) (rcf_runner_id cfg) s"
    and "c = content_hash (sha256_hex m) (sha256_hex w) (s_engine_version sim)" and "v = classify (er_err er)"
    and "process_simulation cfg hs xs 0 (Claimed sim) d = (ph, d')"
  shows "ph = Polling \<and>
         simulations d' =
           map (\<lambda>r. if s_id r = s_id sim
                    then r\<lparr> s_model_sha256 := Some (sha256_hex m), s_weather_sha256 := Some (sha256_hex w),
                            s_content_hash := Some c, s_state := (if succeeded v then ''succeeded'' else ''failed''),
                            s_finished_at := Some (x_now (xs 2)),
                            s_error := (if succeeded v then None else Some (''verdict='' @ vd_verdict v)),
                            s_lease_expires_at := None \<rparr>
                    else r) (simulations d) \<and>
         query_row (\<lambda>r. r_content_hash r = c) (results d') =
           Some \<lparr> r_content_hash = c, r_verdict = vd_verdict v, r_metrics = JObj (run_engine (h_float (hs 1)) er),
                  r_artifact_uri = (if h_uploaded (hs 1) then Some (''s3://'' @ rcf_bucket_results cfg @ ''/'' @ c @ ''/'') else None),
                  r_artifact_expires_at = map_option (\<lambda>days. x_now (xs 1) + usec (days * 86400)) (rcf_artifact_ttl_days cfg),
                  r_created_at = (case query_row (\<lambda>r. r_content_hash r = c) (results d) of
                                    None \<Rightarrow> x_now (xs 1) | Some r \<Rightarrow> r_created_at r) \<rparr>"
proof -
  let ?b = "backfill_row (sha256_hex m) (sha256_hex w) c"
  define uri where "uri = (if h_uploaded (hs 1) then Some (''s3://'' @ rcf_bucket_results cfg @ ''/'' @ c @ ''/'') else None)"
  define e where "e = (if succeeded v then None else Some (''verdict='' @ vd_verdict v))"
  define d1 where d1: "d1 = backfill_hashes (s_id sim) (sha256_hex m) (sha256_hex w) c d"
  define d2 where d2: "d2 = upsert_result c (vd_verdict v) (JObj (run_engine (h_float (hs 1)) er)) uri (rcf_artifact_ttl_days cfg) (x_now (xs 1)) d1"
  define d3 where d3: "d3 = snd (finish_simulation (s_id sim) (rcf_runner_id cfg) (succeeded v) e (x_now (xs 2)) d2)"
  have ph: "ph = Polling" "d' = d3"
    using process_simulation_run [where hs = hs and xs = xs, OF assms(1-4,8,9) uri_def d1 d2] assms(10) by (simp_all add: d3 e_def)
  have own: "owned_by (s_id sim) (rcf_runner_id cfg) (?b r) \<longleftrightarrow> s_id r = s_id sim" if "r \<in> set (simulations d)" for r
    using distinct_map_eqD [OF assms(6) that assms(5)] assms(7) by (auto simp: owned_by_def backfill_row_def)
  have "simulations d3 = map (\<lambda>r. if s_id r = s_id sim then finish_row (succeeded v) e (x_now (xs 2)) (?b r) else r) (simulations d)"
    using own by (auto simp: d3 d2 d1 finish_simulation_def backfill_hashes_def upsert_result_def Let_def upd_where_def owned_by_def)
  moreover have "results d3 = results d2" "results d1 = results d"
    by (simp_all add: d3 d1 finish_simulation_def backfill_hashes_def)
  ultimately show ?thesis
    unfolding ph One_nat_def by (auto simp: d2 query_row_upsert uri_def e_def finish_row_def backfill_row_def)
qed

end
