(* ===== verification/Fleet.thy ===== *)
theory Fleet
  imports Runner
begin

text \<open>
  Any number of runners, the apiserver and the reaper on one database, interleaved statement by
  statement; runners lose connections, crash and are restarted. As long as objects in the store do
  not change under their references, every succeeded simulation has its result.
\<close>

section \<open>The system\<close>

record fleet =
  ft_db :: db
  ft_phase :: "string \<Rightarrow> runner_phase"

datatype fleet_event =
    RunnerStep string host stmt_ctx "string list"
  | Beat string fault stmt_ctx
  | Stop string
  | Restart string
  | Api stmt_ctx action

definition has_result :: "string \<Rightarrow> db \<Rightarrow> bool" where
  "has_result h d \<longleftrightarrow> query_row (\<lambda>r. r_content_hash r = h) (results d) \<noteq> None"

text \<open>
  What the apiserver and the portal send. The apiserver inserts a simulation as succeeded only after
  \<open>HasResult\<close> has found a result for its content hash.
\<close>

fun api_sends :: "action \<Rightarrow> db \<Rightarrow> bool" where
  "api_sends (AInsert p fin) d \<longleftrightarrow> (p_State p = ''succeeded'' \<longrightarrow> has_result (p_ContentHash p) d)"
| "api_sends AReap d \<longleftrightarrow> True"
| "api_sends AResync d \<longleftrightarrow> True"
| "api_sends (ACreate u n key) d \<longleftrightarrow> True"
| "api_sends (ANewUser email) d \<longleftrightarrow> True"
| "api_sends (ANewKey u h name) d \<longleftrightarrow> True"
| "api_sends (ARevoke i) d \<longleftrightarrow> True"
| "api_sends _ d \<longleftrightarrow> False"

text \<open>\<open>cfgs i\<close> is the configuration of runner \<open>i\<close>; a restarted pod comes back under its name.\<close>

fun fleet_step :: "(string \<Rightarrow> RunnerConfig) \<Rightarrow> fleet_event \<Rightarrow> fleet \<Rightarrow> fleet" where
  "fleet_step cfgs (RunnerStep i h x locked) q =
     (case runner_step (cfgs i) h x locked (ft_phase q i) (ft_db q) of
        (ph, d) \<Rightarrow> \<lparr> ft_db = d, ft_phase = (ft_phase q)(i := ph) \<rparr>)"
| "fleet_step cfgs (Beat i f x) q = q\<lparr> ft_db := heartbeat (cfgs i) f x (ft_phase q i) (ft_db q) \<rparr>"
| "fleet_step cfgs (Stop i) q = (if ft_phase q i = Polling then q\<lparr> ft_phase := (ft_phase q)(i := Exited) \<rparr> else q)"
| "fleet_step cfgs (Restart i) q = q\<lparr> ft_phase := (ft_phase q)(i := Polling) \<rparr>"
| "fleet_step cfgs (Api x a) q = (if api_sends a (ft_db q) then q\<lparr> ft_db := perform x a (ft_db q) \<rparr> else q)"

definition fleet_run :: "(string \<Rightarrow> RunnerConfig) \<Rightarrow> fleet_event list \<Rightarrow> fleet \<Rightarrow> fleet" where
  "fleet_run cfgs evs q = fold (fleet_step cfgs) evs q"

definition fleet_start :: fleet where
  "fleet_start = \<lparr> ft_db = empty_db, ft_phase = (\<lambda>i. Polling) \<rparr>"

section \<open>Every step is an action on the database\<close>

lemma attempt_cases: "snd (attempt f d d') = d \<or> snd (attempt f d d') = d'"
  by (cases f) (simp_all add: attempt_def)

lemma fst_attempt: "fst (attempt f d d') \<Longrightarrow> snd (attempt f d d') = d'"
  by (cases f) (simp_all add: attempt_def)

lemma attempt_reachable: "reachable d \<Longrightarrow> d' = perform x a d \<Longrightarrow> reachable (snd (attempt f d d'))"
  using attempt_cases [of f d d'] reachable_step by metis

lemma claim_db: "snd (claim cfg h x locked d) =
  snd (attempt (h_fault h) d (perform x (AClaim (rcf_runner_id cfg) (rcf_engine_version cfg) (rcf_per_user_cap cfg) (rcf_lease_seconds cfg) locked) d))"
  by (simp add: claim_def split_beta Let_def)

lemma fetch_and_hash_db:
  "snd (fetch_and_hash cfg h sim d) = d \<or>
   (\<exists>m w. snd (fetch_and_hash cfg h sim d) =
      snd (attempt (h_fault h) d (perform x (ABackfill (s_id sim) (sha256_hex m) (sha256_hex w)
        (content_hash (sha256_hex m) (sha256_hex w) (s_engine_version sim))) d)))"
  by (auto simp: fetch_and_hash_def split_beta Let_def split: option.splits)

lemma run_and_record_db:
  "snd (run_and_record cfg h x sim m w c d) = d \<or>
   (\<exists>v j uri ttl. snd (run_and_record cfg h x sim m w c d) = snd (attempt (h_fault h) d (perform x (AUpsert c v j uri ttl) d)))"
  by (auto simp: run_and_record_def split_beta Let_def split: option.splits)

lemma runner_step_reachable:
  assumes "reachable d"
  shows "reachable (snd (runner_step cfg h x locked ph d))"
proof (cases ph)
  case Polling
  then show ?thesis using assms by (simp only: runner_step.simps claim_db) (rule attempt_reachable [OF _ refl])
next
  case (Claimed sim)
  with fetch_and_hash_db [of cfg h sim d x] assms show ?thesis by (auto intro: attempt_reachable [OF _ refl] simp del: perform.simps)
next
  case (Hashed sim m w c)
  with run_and_record_db [of cfg h x sim m w c d] assms show ?thesis by (auto intro: attempt_reachable [OF _ refl] simp del: perform.simps)
next
  case (Recorded sim c v)
  then show ?thesis
    using assms attempt_reachable [OF _ refl, of d "h_fault h" x "AFinish (s_id sim) (rcf_runner_id cfg) (succeeded v)
      (if succeeded v then None else Some (''verdict='' @ vd_verdict v))"]
    by (simp add: finalise_def split_beta Let_def)
next
  case (Failing sim exc)
  then show ?thesis
    using assms attempt_reachable [OF _ refl, of d "h_fault h" x "AFinish (s_id sim) (rcf_runner_id cfg) False (Some (take 1000 exc))"]
    by (simp add: mark_failed_def)
qed (simp_all add: assms)

lemma heartbeat_reachable: "reachable d \<Longrightarrow> reachable (heartbeat cfg f x ph d)"
  using attempt_reachable [OF _ refl, of d f x "ARenew sid (rcf_runner_id cfg) (rcf_lease_seconds cfg)" for sid]
  by (auto simp: heartbeat_def split: option.splits)

lemma fleet_step_reachable:
  assumes "reachable (ft_db q)"
  shows "reachable (ft_db (fleet_step cfgs e q))"
proof (cases e)
  case (RunnerStep i h x locked)
  with runner_step_reachable [OF assms, of "cfgs i" h x locked "ft_phase q i"] show ?thesis by (simp add: split_beta)
qed (simp_all add: assms heartbeat_reachable reachable_step del: perform.simps)

section \<open>Every succeeded simulation has its result\<close>

text \<open>
  The content hash a simulation ought to have, over an object store \<open>O\<close> that does not change: what
  the runner computes from the objects its references name.
\<close>

definition buckets :: "RunnerConfig \<Rightarrow> string \<times> string \<times> string" where
  "buckets cfg = (rcf_bucket_models cfg, rcf_bucket_weather cfg, rcf_bucket_results cfg)"

type_synonym sim_job = "string \<times> string \<times> string \<times> string"

definition job_of :: "simulations_row \<Rightarrow> sim_job" where
  "job_of s = (s_id s, s_model_ref s, s_weather_ref s, s_engine_version s)"

fun true_hash :: "RunnerConfig \<Rightarrow> (target \<Rightarrow> string option) \<Rightarrow> sim_job \<Rightarrow> string option" where
  "true_hash cfg objects (sid, model_ref, weather_ref, ver) =
     (case (objects (download_target cfg model_ref), objects (download_target cfg weather_ref)) of
        (Some model, Some weather) \<Rightarrow> Some (content_hash (sha256_hex model) (sha256_hex weather) ver)
      | _ \<Rightarrow> None)"

definition row_good :: "(sim_job \<Rightarrow> string option) \<Rightarrow> db \<Rightarrow> simulations_row \<Rightarrow> bool" where
  "row_good T d s \<longleftrightarrow>
     (s_state s = ''succeeded'' \<longrightarrow>
        (\<exists>h. s_content_hash s = Some h \<and> has_result h d \<and> (0 < s_attempts s \<longrightarrow> T (job_of s) = Some h)))"

fun phase_good :: "(sim_job \<Rightarrow> string option) \<Rightarrow> db \<Rightarrow> runner_phase \<Rightarrow> bool" where
  "phase_good T d (Claimed sim) \<longleftrightarrow> (\<exists>s \<in> set (simulations d). job_of s = job_of sim \<and> 0 < s_attempts s)"
| "phase_good T d (Hashed sim model weather h) \<longleftrightarrow>
     T (job_of sim) = Some h \<and> (\<exists>s \<in> set (simulations d). job_of s = job_of sim \<and> 0 < s_attempts s \<and> s_content_hash s = Some h)"
| "phase_good T d (Recorded sim h v) \<longleftrightarrow>
     T (job_of sim) = Some h \<and> has_result h d \<and>
     (\<exists>s \<in> set (simulations d). job_of s = job_of sim \<and> 0 < s_attempts s \<and> s_content_hash s = Some h)"
| "phase_good T d _ \<longleftrightarrow> True"

definition fleet_inv :: "(sim_job \<Rightarrow> string option) \<Rightarrow> fleet \<Rightarrow> bool" where
  "fleet_inv T q \<longleftrightarrow>
     reachable (ft_db q) \<and> (\<forall>s \<in> set (simulations (ft_db q)). row_good T (ft_db q) s) \<and>
     (\<forall>i. phase_good T (ft_db q) (ft_phase q i))"

text \<open>How a row moves in one step: its job stays, and its hash changes only to the true one.\<close>

definition row_moves :: "(sim_job \<Rightarrow> string option) \<Rightarrow> simulations_row \<Rightarrow> simulations_row \<Rightarrow> bool" where
  "row_moves T s s' \<longleftrightarrow>
     job_of s' = job_of s \<and> s_attempts s \<le> s_attempts s' \<and>
     (s_content_hash s' = s_content_hash s \<or> 0 < s_attempts s \<and> s_content_hash s' = T (job_of s) \<and> T (job_of s) \<noteq> None)"

definition steady :: "(sim_job \<Rightarrow> string option) \<Rightarrow> simulations_row \<Rightarrow> simulations_row \<Rightarrow> bool" where
  "steady T s s' \<longleftrightarrow>
     row_moves T s s' \<and> (s_state s' = ''succeeded'' \<longrightarrow> s_state s = ''succeeded'' \<and> s_attempts s' = s_attempts s)"

definition settles :: "(sim_job \<Rightarrow> string option) \<Rightarrow> db \<Rightarrow> db \<Rightarrow> bool" where
  "settles T d d' \<longleftrightarrow>
     (\<forall>s \<in> set (simulations d). \<exists>s' \<in> set (simulations d'). row_moves T s s') \<and>
     (\<forall>s' \<in> set (simulations d'). row_good T d' s' \<or> (\<exists>s \<in> set (simulations d). steady T s s')) \<and>
     (\<forall>h. has_result h d \<longrightarrow> has_result h d')"

lemma row_moves_refl [simp]: "row_moves T s s" and steady_refl [simp]: "steady T s s"
  by (simp_all add: row_moves_def steady_def)

lemma settles_refl [simp]: "settles T d d"
  by (auto simp: settles_def intro: row_moves_refl steady_refl)

lemma has_result_cong: "results d' = results d \<Longrightarrow> has_result h d' = has_result h d"
  by (simp add: has_result_def)

lemma settles_rows:
  assumes "settles T d d'" and "\<forall>s \<in> set (simulations d). row_good T d s"
  shows "\<forall>s \<in> set (simulations d'). row_good T d' s"
proof
  fix s' assume "s' \<in> set (simulations d')"
  with assms(1) consider "row_good T d' s'" | s where "s \<in> set (simulations d)" and "steady T s s'"
    by (auto simp: settles_def)
  then show "row_good T d' s'"
  proof cases
    case (2 s)
    with assms show ?thesis
      by (fastforce simp: settles_def row_good_def steady_def row_moves_def)
  qed
qed

lemma settles_phase:
  assumes "settles T d d'" and "phase_good T d ph"
  shows "phase_good T d' ph"
proof -
  have keep: "\<exists>s' \<in> set (simulations d'). job_of s' = j \<and> 0 < s_attempts s' \<and> (s_content_hash s = T j \<longrightarrow> s_content_hash s' = T j)"
    if "s \<in> set (simulations d)" "job_of s = j" "0 < s_attempts s" for s j
    using assms(1) that by (fastforce simp: settles_def row_moves_def)
  have res: "has_result h d \<Longrightarrow> has_result h d'" for h using assms(1) by (simp add: settles_def)
  show ?thesis
    using assms(2) res by (cases ph) (auto dest!: keep)
qed

lemma settles_upd:
  assumes "simulations d' = upd_where P f (simulations d)" and "results d' = results d"
    and "\<And>s. s \<in> set (simulations d) \<Longrightarrow> P s \<Longrightarrow> steady T s (f s) \<or> row_moves T s (f s) \<and> row_good T d' (f s)"
  shows "settles T d d'"
proof -
  have to: "\<exists>s' \<in> set (simulations d'). row_moves T s s'" if "s \<in> set (simulations d)" for s
    using that assms(3) [of s] steady_def row_moves_refl
    by (intro bexI [of _ "if P s then f s else s"]) (auto simp: assms(1) set_upd_where)
  have "row_good T d' s' \<or> (\<exists>s \<in> set (simulations d). steady T s s')" if "s' \<in> set (simulations d')" for s'
    using that assms(3) unfolding assms(1) by (auto elim!: in_upd_whereE intro: steady_refl)
  with to show ?thesis by (simp add: settles_def has_result_cong [OF assms(2)])
qed

lemma settles_same:
  "simulations d' = simulations d \<Longrightarrow> (\<And>h. has_result h d \<Longrightarrow> has_result h d') \<Longrightarrow> settles T d d'"
  by (auto simp: settles_def intro: row_moves_refl steady_refl)

subsection \<open>The statements\<close>

lemma claim_settles: "settles T d (snd (claim_simulation runner ver cap lease locked t d))"
proof (cases rule: claim_cases [where runner = runner and ver = ver and cap = cap and lease = lease
      and locked = locked and t = t and d = d])
  case (2 s2)
  then show ?thesis
    by (intro settles_upd [where P = "\<lambda>s. s_id s = s_id s2" and f = "claim_row runner lease t"])
       (auto simp: steady_def row_moves_def job_of_def claim_row_def)
qed simp

lemma renew_settles: "settles T d (snd (renew_lease sid runner lease t d))"
  by (intro settles_upd [where P = "owned_by sid runner" and f = "\<lambda>s. s\<lparr> s_lease_expires_at := Some (t + usec lease) \<rparr>"])
     (auto simp: renew_lease_def steady_def row_moves_def job_of_def)

lemma reap_settles: "settles T d (snd (reap_expired_leases t d))"
  by (intro settles_upd [OF simulations_reap])
     (auto simp: steady_def row_moves_def job_of_def reap_row_def requeue_row_def expire_row_def)

lemma finish_settles:
  assumes "\<And>s. s \<in> set (simulations d) \<Longrightarrow> s_id s = sid \<Longrightarrow> ok \<Longrightarrow>
             \<exists>h. s_content_hash s = Some h \<and> has_result h d \<and> T (job_of s) = Some h"
  shows "settles T d (snd (finish_simulation sid runner ok err t d))"
proof (intro settles_upd [where P = "owned_by sid runner" and f = "finish_row ok err t"])
  fix s assume s: "s \<in> set (simulations d)" and o: "owned_by sid runner s"
  have mv: "row_moves T s (finish_row ok err t s)" by (simp add: row_moves_def job_of_def finish_row_def)
  show "steady T s (finish_row ok err t s) \<or>
        row_moves T s (finish_row ok err t s) \<and> row_good T (snd (finish_simulation sid runner ok err t d)) (finish_row ok err t s)"
  proof (cases ok)
    case True
    with assms [OF s] o obtain h where "s_content_hash s = Some h" "has_result h d" "T (job_of s) = Some h"
      by (auto simp: owned_by_def)
    with mv show ?thesis
      by (auto simp: row_good_def finish_row_def job_of_def finish_simulation_def has_result_def)
  next
    case False
    with mv show ?thesis by (simp add: steady_def finish_row_def)
  qed
qed (simp_all add: finish_simulation_def)

lemma backfill_settles:
  assumes "\<And>s. s \<in> set (simulations d) \<Longrightarrow> s_id s = sid \<Longrightarrow> 0 < s_attempts s \<and> T (job_of s) = Some h"
  shows "settles T d (backfill_hashes sid m w h d)"
  using assms
  by (intro settles_upd [where P = "\<lambda>s. s_id s = sid" and f = "backfill_row m w h"])
     (auto simp: backfill_hashes_def steady_def row_moves_def job_of_def backfill_row_def)

lemma upsert_has_result: "has_result h' (upsert_result h v m uri ttl t d) \<longleftrightarrow> h' = h \<or> has_result h' d"
proof -
  have iff: "has_result g e \<longleftrightarrow> g \<in> set (map r_content_hash (results e))" for g e
    by (auto simp: has_result_def query_row_None)
  have "set (map r_content_hash (results (upsert_result h v m uri ttl t d))) = insert h (set (map r_content_hash (results d)))"
    by (cases "has_result h d")
       (auto simp: upsert_result_def Let_def map_upd_where has_result_def query_row_None image_iff)
  then show ?thesis unfolding iff by simp
qed

lemma simulations_upsert [simp]: "simulations (upsert_result h v m uri ttl t d) = simulations d"
  by (simp add: upsert_result_def Let_def)

lemma upsert_settles: "settles T d (upsert_result h v m uri ttl t d)"
  by (rule settles_same) (simp_all add: upsert_has_result)

lemma insert_settles:
  assumes "p_State p = ''succeeded'' \<longrightarrow> has_result (p_ContentHash p) d"
  shows "settles T d (snd (insert_simulation p fin x d))"
proof (cases rule: insert_simulation_cases [where p = p and fin = fin and x = x and d = d])
  case 1
  then show ?thesis by simp
next
  case (2 u b)
  let ?r = "new_sim_row p u b fin x"
  have "row_good T (insert_row ?r d) ?r"
    using assms by (auto simp: row_good_def new_sim_row_def has_result_def)
  then have "settles T d (insert_row ?r d)"
    by (auto simp: settles_def has_result_def intro: row_moves_refl steady_refl)
  with 2 show ?thesis by simp
qed

lemma api_settles:
  assumes "reachable d" and "api_sends a d"
  shows "settles T d (perform x a d)"
proof (cases a)
  case (AInsert p fin)
  with assms show ?thesis by (auto intro: insert_settles)
next
  case (ACreate u n key)
  show ?thesis
    by (cases rule: insert_batch_cases [where userID = u and n = n and key = key and x = x and d = d])
       (auto simp: ACreate intro: settles_same simp: has_result_def)
qed (use assms in \<open>auto simp: reap_settles rolled_up_resync [OF reachable_inv] intro: settles_same simp: has_result_def\<close>)

subsection \<open>The runner's steps\<close>

text \<open>
  Downloads yield what the object store holds, and every runner resolves references as \<open>cfg\<close> does.
\<close>

fun honest :: "(string \<Rightarrow> RunnerConfig) \<Rightarrow> RunnerConfig \<Rightarrow> (target \<Rightarrow> string option) \<Rightarrow> fleet_event \<Rightarrow> bool" where
  "honest cfgs cfg objects (RunnerStep i h x locked) \<longleftrightarrow>
     buckets (cfgs i) = buckets cfg \<and> (\<forall>n tg b. h_download h n tg = Some b \<longrightarrow> objects tg = Some b)"
| "honest cfgs cfg objects _ \<longleftrightarrow> True"

lemma download_target_cong: "buckets cfg = buckets cfg' \<Longrightarrow> download_target cfg = download_target cfg'"
proof -
  assume "buckets cfg = buckets cfg'"
  then have "resolve_bucket cfg = resolve_bucket cfg'" by (simp add: fun_eq_iff buckets_def resolve_bucket_def)
  then show ?thesis by (intro ext) (simp add: download_target_def split_beta)
qed

lemma fetch_input_object:
  assumes "fetch_input cfg h ref = Some b" and "buckets cfg = buckets cfg'"
    and "\<forall>n tg b. h_download h n tg = Some b \<longrightarrow> objects tg = Some b"
  shows "objects (download_target cfg' ref) = Some b"
  using fetch_attempts_Some [OF assms(1) [unfolded fetch_input_def]] assms(3)
  unfolding download_target_cong [OF assms(2)] by blast

lemma settles_attempt: "settles T d d' \<Longrightarrow> settles T d (snd (attempt f d d'))"
  by (cases f) (simp_all add: attempt_def)

lemma job_id: "job_of s = job_of s' \<Longrightarrow> s_id s = s_id s'"
  by (simp add: job_of_def)

lemma claimed_row:
  assumes "db_inv d" and "claim_simulation runner ver cap lease locked t d = (Some sim, d')"
  shows "\<exists>s \<in> set (simulations d'). job_of s = job_of sim \<and> 0 < s_attempts s"
proof (cases rule: claim_cases [where runner = runner and ver = ver and cap = cap and lease = lease
      and locked = locked and t = t and d = d])
  case (2 s2)
  have "lifecycle_ok s2" using assms(1) 2(1) by (simp add: db_inv_def)
  then have "0 \<le> s_attempts s2" by (simp add: lifecycle_ok_def)
  moreover have "sim = claim_row runner lease t s2" using 2(4) assms(2) by simp
  moreover have "claim_row runner lease t s2 \<in> set (simulations d')"
    using 2(1,4) assms(2) by (auto simp: set_upd_where)
  ultimately show ?thesis by (intro bexI [of _ sim]) (simp_all add: claim_row_def)
qed (use assms(2) in simp)

lemma claim_good:
  assumes "db_inv d" and "claim cfg h x locked d = (ph', d')"
  shows "settles T d d' \<and> phase_good T d' ph'"
proof
  show "settles T d d'"
    using assms(2) claim_settles [THEN settles_attempt] by (auto simp: claim_def split_beta Let_def)
  show "phase_good T d' ph'"
    using assms(2) claimed_row [OF assms(1)]
    by (auto simp: claim_def split_beta Let_def fst_attempt prod_eq_iff split: option.splits if_splits)
qed

lemma fetch_and_hash_good:
  assumes ids: "distinct (map s_id (simulations d))"
    and ph: "phase_good (true_hash cfg objects) d (Claimed sim)"
    and bk: "buckets cfg' = buckets cfg" and dl: "\<forall>n tg b. h_download h n tg = Some b \<longrightarrow> objects tg = Some b"
    and step: "fetch_and_hash cfg' h sim d = (ph', d')"
  shows "settles (true_hash cfg objects) d d' \<and> phase_good (true_hash cfg objects) d' ph'"
proof -
  let ?T = "true_hash cfg objects"
  obtain s0 where s0: "s0 \<in> set (simulations d)" "job_of s0 = job_of sim" "0 < s_attempts s0" using ph by auto
  have only: "s = s0" if "s \<in> set (simulations d)" "s_id s = s_id sim" for s
    using distinct_map_eqD [OF ids that(1) s0(1)] that(2) job_id [OF s0(2)] by simp
  show ?thesis
  proof (cases "\<exists>m w. fetch_input cfg' h (s_model_ref sim) = Some m \<and> fetch_input cfg' h (s_weather_ref sim) = Some w")
    case True
    then obtain m w where mw: "fetch_input cfg' h (s_model_ref sim) = Some m" "fetch_input cfg' h (s_weather_ref sim) = Some w"
      by blast
    let ?h = "content_hash (sha256_hex m) (sha256_hex w) (s_engine_version sim)"
    let ?d = "backfill_hashes (s_id sim) (sha256_hex m) (sha256_hex w) ?h d"
    have T: "?T (job_of sim) = Some ?h"
      using fetch_input_object [OF mw(1) bk dl] fetch_input_object [OF mw(2) bk dl] by (simp add: job_of_def)
    then have set: "settles ?T d ?d" using only s0 by (intro backfill_settles) auto
    have "backfill_row (sha256_hex m) (sha256_hex w) ?h s0 \<in> set (simulations ?d)"
      using s0(1) job_id [OF s0(2)] by (auto simp: backfill_hashes_def set_upd_where)
    then have "phase_good ?T ?d (Hashed sim m w ?h)"
      using T s0 by (auto simp: backfill_row_def job_of_def intro: rev_bexI)
    with step mw settles_attempt [OF set, of "h_fault h"] show ?thesis
      by (auto simp: fetch_and_hash_def split_beta Let_def fst_attempt simp del: phase_good.simps(2) split: if_splits)
  next
    case False
    with step show ?thesis by (auto simp: fetch_and_hash_def split: option.splits)
  qed
qed

lemma run_and_record_good:
  assumes ph: "phase_good T d (Hashed sim m w c)" and step: "run_and_record cfg h x sim m w c d = (ph', d')"
  shows "settles T d d' \<and> phase_good T d' ph'"
  using ph step upsert_settles [of T d] upsert_settles [THEN settles_attempt, of T d "h_fault h"]
  by (auto simp: run_and_record_def split_beta Let_def fst_attempt upsert_has_result split: option.splits if_splits)

lemma finalise_good:
  assumes ids: "distinct (map s_id (simulations d))"
    and ph: "phase_good T d (Recorded sim c v)" and step: "finalise cfg h x sim v d = (ph', d')"
  shows "settles T d d' \<and> phase_good T d' ph'"
proof -
  obtain s0 where s0: "s0 \<in> set (simulations d)" "job_of s0 = job_of sim" "s_content_hash s0 = Some c"
    and c: "has_result c d" "T (job_of sim) = Some c"
    using ph by auto
  have "\<exists>h. s_content_hash s = Some h \<and> has_result h d \<and> T (job_of s) = Some h"
    if "s \<in> set (simulations d)" "s_id s = s_id sim" for s
    using distinct_map_eqD [OF ids that(1) s0(1)] that(2) job_id [OF s0(2)] s0 c by simp
  then have "settles T d (snd (attempt (h_fault h) d (snd (finish_simulation (s_id sim) (rcf_runner_id cfg) ok err (x_now x) d))))" for ok err
    by (intro settles_attempt finish_settles) blast
  with step show ?thesis by (auto simp: finalise_def split_beta Let_def)
qed

lemma mark_failed_good:
  "mark_failed cfg h x sim exc d = (ph', d') \<Longrightarrow> settles T d d' \<and> phase_good T d' ph'"
  using finish_settles [THEN settles_attempt, of d "s_id sim" False] by (auto simp: mark_failed_def)

text \<open>One step of a runner settles the database and leaves the runner where its phase says.\<close>

lemma runner_step_good:
  assumes "db_inv d" and "phase_good (true_hash cfg objects) d ph"
    and "buckets cfg' = buckets cfg" and "\<forall>n tg b. h_download h n tg = Some b \<longrightarrow> objects tg = Some b"
    and "runner_step cfg' h x locked ph d = (ph', d')"
  shows "settles (true_hash cfg objects) d d' \<and> phase_good (true_hash cfg objects) d' ph'"
proof -
  have ids: "distinct (map s_id (simulations d))" using assms(1) by (simp add: db_inv_def keys_ok_def)
  show ?thesis
    using assms
    by (cases ph)
       (auto simp del: phase_good.simps true_hash.simps
         dest: claim_good fetch_and_hash_good [OF ids] run_and_record_good finalise_good [OF ids] mark_failed_good)
qed

lemma heartbeat_settles: "settles T d (heartbeat cfg f x ph d)"
  by (auto simp: heartbeat_def renew_settles settles_attempt split: option.splits)

lemma fleet_step_inv:
  assumes inv: "fleet_inv (true_hash cfg objects) q" and ok: "honest cfgs cfg objects e"
  shows "fleet_inv (true_hash cfg objects) (fleet_step cfgs e q)"
proof -
  let ?T = "true_hash cfg objects" and ?d = "ft_db q" and ?q = "fleet_step cfgs e q"
  have r: "reachable ?d" and rows: "\<forall>s \<in> set (simulations ?d). row_good ?T ?d s"
    and ph: "\<And>i. phase_good ?T ?d (ft_phase q i)"
    using inv by (auto simp: fleet_inv_def)
  have "settles ?T ?d (ft_db ?q) \<and> (\<forall>i. ft_phase ?q i = ft_phase q i \<or> phase_good ?T (ft_db ?q) (ft_phase ?q i))"
  proof (cases e)
    case (RunnerStep i h x locked)
    obtain ph' d' where "runner_step (cfgs i) h x locked (ft_phase q i) ?d = (ph', d')" by fastforce
    with runner_step_good [OF reachable_inv [OF r] ph _ _ this] ok show ?thesis by (simp add: RunnerStep)
  qed (auto simp: heartbeat_settles api_settles [OF r] simp del: perform.simps)
  with settles_rows [OF _ rows] settles_phase [OF _ ph] fleet_step_reachable [OF r] show ?thesis
    unfolding fleet_inv_def by metis
qed

lemma fleet_start_inv: "fleet_inv T fleet_start"
  by (auto simp: fleet_inv_def fleet_start_def reachable_init) (simp add: empty_db_def)

interpretation fleet_system: guarded_invariant fleet_start "fleet_step cfgs" "honest cfgs cfg objects" "fleet_inv (true_hash cfg objects)"
  for cfgs cfg objects
  by unfold_locales (rule fleet_start_inv, rule fleet_step_inv)

section \<open>Properties\<close>

text \<open>
  C2. In every history of the fleet (runners, apiserver, reaper and portal interleaved statement by
  statement, with lost connections and lost replies, crashed and restarted runners), as long as
  downloads yield what an unchanging object store holds and all runners use the same buckets: the
  database is one the statements reach from the empty one, and every succeeded simulation has a
  content hash under which a result is stored; if a runner ever claimed it, that hash is the one of
  the objects its references name.
\<close>

theorem succeeded_has_result:
  assumes "list_all (honest cfgs cfg objects) evs"
  shows "reachable (ft_db (fleet_run cfgs evs fleet_start)) \<and>
         (\<forall>s \<in> set (simulations (ft_db (fleet_run cfgs evs fleet_start))). s_state s = ''succeeded'' \<longrightarrow>
            (\<exists>h. s_content_hash s = Some h \<and> has_result h (ft_db (fleet_run cfgs evs fleet_start)) \<and>
                 (0 < s_attempts s \<longrightarrow> true_hash cfg objects (job_of s) = Some h)))"
  using fleet_system.ginv_run_init [OF assms] by (simp add: fleet_inv_def row_good_def fleet_run_def)

end
