(* ===== verification/Lease.thy ===== *)
theory Lease
  imports Fleet
begin

text \<open>
  Leases in the fleet: a runner whose heartbeat renews in time keeps its simulation, whatever the
  other participants do, and an undisturbed runner finishes what it claimed.
\<close>

section \<open>Leases\<close>

text \<open>
  Whether, while runner \<open>i\<close> works under a lease that ends at \<open>l\<close>, every pass of the reaper comes no
  later than the end of the lease as last renewed; no one else acts under the runner's name, and the
  runner itself is not restarted and loses no reply to a statement that was executed.
\<close>

fun in_time :: "(string \<Rightarrow> RunnerConfig) \<Rightarrow> string \<Rightarrow> int \<Rightarrow> fleet_event list \<Rightarrow> bool" where
  "in_time cfgs i l [] \<longleftrightarrow> True"
| "in_time cfgs i l (Beat j f x # evs) \<longleftrightarrow>
     in_time cfgs i (if j = i \<and> f \<noteq> Lost then x_now x + usec (rcf_lease_seconds (cfgs i)) else l) evs \<and>
     (j = i \<or> rcf_runner_id (cfgs j) \<noteq> rcf_runner_id (cfgs i))"
| "in_time cfgs i l (RunnerStep j h x locked # evs) \<longleftrightarrow>
     (if j = i then h_fault h \<noteq> LostReply else rcf_runner_id (cfgs j) \<noteq> rcf_runner_id (cfgs i)) \<and> in_time cfgs i l evs"
| "in_time cfgs i l (Stop j # evs) \<longleftrightarrow> in_time cfgs i l evs"
| "in_time cfgs i l (Restart j # evs) \<longleftrightarrow> j \<noteq> i \<and> in_time cfgs i l evs"
| "in_time cfgs i l (Api x a # evs) \<longleftrightarrow> (a = AReap \<longrightarrow> x_now x \<le> l) \<and> in_time cfgs i l evs"

definition holds :: "(string \<Rightarrow> RunnerConfig) \<Rightarrow> string \<Rightarrow> string \<Rightarrow> int \<Rightarrow> db \<Rightarrow> bool" where
  "holds cfgs i sid l d \<longleftrightarrow>
     (\<exists>s \<in> set (simulations d). s_id s = sid \<and> s_state s = ''running'' \<and>
        s_runner_id s = Some (rcf_runner_id (cfgs i)) \<and> s_lease_expires_at s = Some l)"

text \<open>What another participant may do to a row that is held.\<close>

definition leaves :: "string \<Rightarrow> db \<Rightarrow> db \<Rightarrow> bool" where
  "leaves r d d' \<longleftrightarrow>
     (\<forall>s \<in> set (simulations d). s_state s = ''running'' \<longrightarrow> s_runner_id s = Some r \<longrightarrow>
        (\<exists>s' \<in> set (simulations d'). s_id s' = s_id s \<and> s_state s' = ''running'' \<and> s_runner_id s' = Some r \<and>
           s_lease_expires_at s' = s_lease_expires_at s))"

lemma leaves_refl [simp]: "leaves r d d"
  by (auto simp: leaves_def)

lemma leaves_attempt: "leaves r d d' \<Longrightarrow> leaves r d (snd (attempt f d d'))"
  by (cases f) (simp_all add: attempt_def)

lemma leaves_holds: "leaves (rcf_runner_id (cfgs i)) d d' \<Longrightarrow> holds cfgs i sid l d \<Longrightarrow> holds cfgs i sid l d'"
  by (fastforce simp: leaves_def holds_def)

lemma leaves_upd:
  assumes "simulations d' = upd_where P f (simulations d)"
    and "\<And>s. s \<in> set (simulations d) \<Longrightarrow> P s \<Longrightarrow> s_state s = ''running'' \<Longrightarrow> s_runner_id s = Some r \<Longrightarrow>
           s_id (f s) = s_id s \<and> s_state (f s) = ''running'' \<and> s_runner_id (f s) = Some r \<and>
           s_lease_expires_at (f s) = s_lease_expires_at s"
  shows "leaves r d d'"
  unfolding leaves_def assms(1)
proof (intro ballI impI)
  fix s assume "s \<in> set (simulations d)" "s_state s = ''running''" "s_runner_id s = Some r"
  with assms(2) [of s] show "\<exists>s' \<in> set (upd_where P f (simulations d)). s_id s' = s_id s \<and> s_state s' = ''running'' \<and>
    s_runner_id s' = Some r \<and> s_lease_expires_at s' = s_lease_expires_at s"
    by (intro bexI [of _ "if P s then f s else s"]) (auto simp: set_upd_where)
qed

lemma leaves_same: "simulations d' = simulations d @ rs \<Longrightarrow> leaves r d d'"
  by (auto simp: leaves_def)

lemma claim_leaves:
  assumes "distinct (map s_id (simulations d))"
  shows "leaves r d (snd (claim_simulation runner ver cap lease locked t d))"
proof (cases rule: claim_cases [where runner = runner and ver = ver and cap = cap and lease = lease
      and locked = locked and t = t and d = d])
  case (2 s2)
  have "s_state s = ''queued''" if "s \<in> set (simulations d)" "s_id s = s_id s2" for s
    using distinct_map_eqD [OF assms that(1) 2(1) that(2)] 2(2) by (simp add: eligible_def)
  with 2(4) show ?thesis
    by (intro leaves_upd [where P = "\<lambda>s. s_id s = s_id s2" and f = "claim_row runner lease t"]) auto
qed simp

lemma finish_leaves: "runner \<noteq> r \<Longrightarrow> leaves r d (snd (finish_simulation sid runner ok err t d))"
  by (intro leaves_upd [where P = "owned_by sid runner" and f = "finish_row ok err t"])
     (auto simp: finish_simulation_def owned_by_def)

lemma renew_leaves: "runner \<noteq> r \<Longrightarrow> leaves r d (snd (renew_lease sid runner lease t d))"
  by (intro leaves_upd [where P = "owned_by sid runner" and f = "\<lambda>s. s\<lparr> s_lease_expires_at := Some (t + usec lease) \<rparr>"])
     (auto simp: renew_lease_def owned_by_def)

lemma backfill_leaves: "leaves r d (backfill_hashes sid m w h d)"
  by (intro leaves_upd [where P = "\<lambda>s. s_id s = sid" and f = "backfill_row m w h"])
     (auto simp: backfill_hashes_def backfill_row_def)

lemma runner_step_leaves:
  assumes "distinct (map s_id (simulations d))" and "rcf_runner_id cfg \<noteq> r"
  shows "leaves r d (snd (runner_step cfg h x locked ph d))"
proof (cases ph)
  case Polling
  with claim_leaves [OF assms(1), THEN leaves_attempt] show ?thesis by (simp add: claim_db)
next
  case (Claimed sim)
  with fetch_and_hash_db [of cfg h sim d undefined] backfill_leaves [THEN leaves_attempt] show ?thesis by fastforce
next
  case (Hashed sim m w c)
  with run_and_record_db [of cfg h x sim m w c d] leaves_same [THEN leaves_attempt, of _ d "[]"] show ?thesis by fastforce
qed (use finish_leaves [OF assms(2), THEN leaves_attempt] in \<open>simp_all add: finalise_def mark_failed_def split_beta Let_def\<close>)

text \<open>The runner itself, as long as it does not finish the row.\<close>

lemma own_step_leaves:
  assumes "working_on ph = Some sim" and "h_fault h \<noteq> LostReply" and "runner_step cfg h x locked ph d = (ph', d')"
    and "working_on ph' = Some sim"
  shows "leaves r d d'"
proof (cases ph)
  case (Claimed sim')
  with fetch_and_hash_db [of cfg h sim' d undefined] backfill_leaves [THEN leaves_attempt] assms(3) show ?thesis by fastforce
next
  case (Hashed sim' m w c)
  with run_and_record_db [of cfg h x sim' m w c d] leaves_same [THEN leaves_attempt, of _ d "[]"] assms(3) show ?thesis by fastforce
next
  case (Recorded sim' c v)
  with assms show ?thesis by (cases "h_fault h") (auto simp: finalise_def attempt_def)
qed (use assms in \<open>auto simp: mark_failed_def\<close>)

lemma api_leaves:
  assumes "reachable d" and "api_sends a d" and "a \<noteq> AReap"
  shows "leaves r d (perform x a d)"
proof (cases a)
  case (AInsert p fin)
  show ?thesis
    by (cases rule: insert_simulation_cases [where p = p and fin = fin and x = x and d = d])
       (auto simp: AInsert intro: leaves_same)
next
  case (ACreate u n key)
  show ?thesis
    by (cases rule: insert_batch_cases [where userID = u and n = n and key = key and x = x and d = d])
       (auto simp: ACreate intro: leaves_same [of _ _ "[]"])
qed (use assms in \<open>auto simp: rolled_up_resync [OF reachable_inv] intro: leaves_same [of _ _ "[]"]\<close>)

lemma reap_holds:
  assumes "t \<le> l" and "holds cfgs i sid l d"
  shows "holds cfgs i sid l (snd (reap_expired_leases t d))"
proof -
  obtain s where s: "s \<in> set (simulations d)" "s_id s = sid" "s_state s = ''running''"
      "s_runner_id s = Some (rcf_runner_id (cfgs i))" "s_lease_expires_at s = Some l"
    using assms(2) by (auto simp: holds_def)
  with assms(1) have "\<not> expired t s" by (simp add: expired_def)
  with s(1) have "s \<in> set (simulations (snd (reap_expired_leases t d)))"
    unfolding simulations_reap by (auto simp: set_upd_where)
  with s show ?thesis by (auto simp: holds_def)
qed

lemma renew_holds:
  assumes "holds cfgs i sid l d"
  shows "holds cfgs i sid (t + usec lease) (snd (renew_lease sid (rcf_runner_id (cfgs i)) lease t d))"
proof -
  obtain s where "s \<in> set (simulations d)" "s_id s = sid" "s_state s = ''running''" "s_runner_id s = Some (rcf_runner_id (cfgs i))"
    using assms by (auto simp: holds_def)
  then show ?thesis
    unfolding holds_def
    by (intro bexI [of _ "s\<lparr> s_lease_expires_at := Some (t + usec lease) \<rparr>"]) (auto simp: renew_lease_def owned_by_def set_upd_where)
qed

lemma step_holds:
  assumes r: "reachable (ft_db q)" and w: "working_on (ft_phase q i) = Some sim"
    and w': "working_on (ft_phase (fleet_step cfgs e q) i) = Some sim"
    and h: "holds cfgs i (s_id sim) l (ft_db q)" and t: "in_time cfgs i l (e # evs)"
  shows "\<exists>l'. holds cfgs i (s_id sim) l' (ft_db (fleet_step cfgs e q)) \<and> in_time cfgs i l' evs"
proof (cases e)
  case (RunnerStep j hst x locked)
  obtain ph' d' where st: "runner_step (cfgs j) hst x locked (ft_phase q j) (ft_db q) = (ph', d')" by fastforce
  have "leaves (rcf_runner_id (cfgs i)) (ft_db q) d'"
  proof (cases "j = i")
    case True
    with own_step_leaves [OF _ _ st] w w' t st show ?thesis by (simp add: RunnerStep)
  next
    case False
    with runner_step_leaves [of "ft_db q" "cfgs j" "rcf_runner_id (cfgs i)" hst x locked "ft_phase q j"] st reachable_inv [OF r] t
    show ?thesis by (simp add: RunnerStep db_inv_def keys_ok_def)
  qed
  from leaves_holds [OF this h] t st show ?thesis by (auto simp: RunnerStep)
next
  case (Beat j f x)
  show ?thesis
  proof (cases "j = i")
    case True
    have "holds cfgs i (s_id sim) (if f \<noteq> Lost then x_now x + usec (rcf_lease_seconds (cfgs i)) else l) (heartbeat (cfgs i) f x (ft_phase q i) (ft_db q))"
      using h renew_holds [OF h] w by (cases f) (simp_all add: heartbeat_def attempt_def)
    with True t w show ?thesis by (auto simp: Beat)
  next
    case False
    have "leaves (rcf_runner_id (cfgs i)) (ft_db q) (heartbeat (cfgs j) f x (ft_phase q j) (ft_db q))"
      using renew_leaves [THEN leaves_attempt] False t by (auto simp: Beat heartbeat_def split: option.splits)
    from leaves_holds [OF this h] w t False show ?thesis by (auto simp: Beat)
  qed
next
  case (Api x a)
  have "holds cfgs i (s_id sim) l (perform x a (ft_db q))" if "api_sends a (ft_db q)"
  proof (cases "a = AReap")
    case True
    with reap_holds [OF _ h] t show ?thesis by (simp add: Api)
  next
    case False
    with api_leaves [OF r that] leaves_holds h show ?thesis by metis
  qed
  with h w t show ?thesis by (auto simp: Api simp del: perform.simps)
qed (use h w t in auto)

lemma run_holds:
  "reachable (ft_db q) \<Longrightarrow> (\<And>k. k \<le> length evs \<Longrightarrow> working_on (ft_phase (fleet_run cfgs (take k evs) q) i) = Some sim) \<Longrightarrow>
   holds cfgs i (s_id sim) l (ft_db q) \<Longrightarrow> in_time cfgs i l evs \<Longrightarrow>
   (\<exists>l'. holds cfgs i (s_id sim) l' (ft_db (fleet_run cfgs evs q))) \<and> reachable (ft_db (fleet_run cfgs evs q))"
proof (induction evs arbitrary: q l)
  case (Cons e evs)
  have w: "working_on (ft_phase q i) = Some sim" "working_on (ft_phase (fleet_step cfgs e q) i) = Some sim"
    using Cons.prems(2) [of 0] Cons.prems(2) [of 1] by (simp_all add: fleet_run_def)
  from step_holds [OF Cons.prems(1) w Cons.prems(3,4)] obtain l' where
    l': "holds cfgs i (s_id sim) l' (ft_db (fleet_step cfgs e q))" "in_time cfgs i l' evs" by blast
  have "working_on (ft_phase (fleet_run cfgs (take k evs) (fleet_step cfgs e q)) i) = Some sim" if "k \<le> length evs" for k
    using Cons.prems(2) [of "Suc k"] that by (simp add: fleet_run_def)
  from Cons.IH [OF fleet_step_reachable [OF Cons.prems(1)] this l'] show ?case by (simp add: fleet_run_def)
qed (auto simp: fleet_run_def)

section \<open>Properties\<close>

text \<open>
  C24. A runner whose heartbeat renews in time keeps its simulation: if every pass of the reaper comes
  no later than the end of the lease as last renewed, and runner names are unique, then whatever the
  other runners, the apiserver and the portal do, and whichever heartbeats are lost in between, for as
  long as the runner works on the simulation the row stays running under the runner's name, and the
  runner's final statement takes effect.
\<close>

theorem renewed_lease_is_kept:
  assumes "reachable (ft_db q)" and "holds cfgs i (s_id sim) l (ft_db q)" and "in_time cfgs i l evs"
    and "\<forall>k \<le> length evs. working_on (ft_phase (fleet_run cfgs (take k evs) q) i) = Some sim"
  shows "(\<exists>s \<in> set (simulations (ft_db (fleet_run cfgs evs q))).
            s_id s = s_id sim \<and> s_state s = ''running'' \<and> s_runner_id s = Some (rcf_runner_id (cfgs i))) \<and>
         fst (finish_simulation (s_id sim) (rcf_runner_id (cfgs i)) ok err t (ft_db (fleet_run cfgs evs q))) = 1"
proof -
  let ?d = "ft_db (fleet_run cfgs evs q)"
  from run_holds [OF assms(1) _ assms(2,3)] assms(4) obtain s where
    s: "s \<in> set (simulations ?d)" "s_id s = s_id sim" "s_state s = ''running''"
      "s_runner_id s = Some (rcf_runner_id (cfgs i))" and r: "reachable ?d"
    by (auto simp: holds_def)
  have "count_where (owned_by (s_id s) (rcf_runner_id (cfgs i))) (simulations ?d) = 1"
    using reachable_inv [OF r] s by (intro owned_by_unique) (auto simp: db_inv_def keys_ok_def owned_by_def)
  with s show ?thesis by (auto simp: finish_simulation_def)
qed

end
