(* ===== verification/FleetApi.thy ===== *)
theory FleetApi
  imports Lease ApiInputs
begin

text \<open>
  The apiserver and the runners together: what one writes the other finds. References accepted at
  submission are fetched from the bucket and key the apiserver meant; artifacts are listed where the
  runner put them; simulations are inserted as succeeded only over a stored result; and a succeeded
  simulation's result is served.
\<close>

section \<open>Digests\<close>

lemma be_bytes_range: "b \<in> set (be_bytes w n) \<Longrightarrow> 0 \<le> b \<and> b < 256"
  by (induction w arbitrary: n) auto

lemma length_be_bytes [simp]: "length (be_bytes w n) = w"
  by (induction w arbitrary: n) auto

lemma length_sha_round: "length st = 8 \<Longrightarrow> length (sha_round k w st) = 8"
  by (cases "(k, w, st)" rule: sha_round.cases) (auto simp: Let_def)

lemma length_sha_rounds: "length st = 8 \<Longrightarrow> length (sha_rounds ks win st) = 8"
  by (induction ks win st rule: sha_rounds.induct) (auto simp: Let_def length_sha_round)

lemma length_sha_blocks: "length st = 8 \<Longrightarrow> length (foldl sha_block st bs) = 8"
  by (induction bs arbitrary: st) (simp_all add: sha_block_def length_sha_rounds)

lemma length_EncodeToString: "length (EncodeToString bs) = 2 * length bs"
  by (induction bs) (simp_all add: EncodeToString_def)

lemma length_sha256_hex: "length (sha256_hex s) = 64"
proof -
  have "length sha_init = 8" by (simp add: sha_init_def)
  from length_sha_blocks [OF this] have "length (Sum256 s) = 32"
    by (simp add: Sum256_def Let_def length_concat comp_def)
       (simp add: sum_list_triv)
  then show ?thesis by (simp add: sha256_hex_def length_EncodeToString)
qed

lemma hex_digit_safe: "n < 16 \<Longrightarrow> safe_char (hex_digit n)"
  by (auto simp: hex_digit_def safe_char_def byte_def is_digit_def)

lemma sha256_hex_safe: "list_all safe_char (sha256_hex s)"
proof -
  have "safe_char (hex_digit (nat (b div 16))) \<and> safe_char (hex_digit (nat (b mod 16)))" if "b \<in> set (Sum256 s)" for b
  proof -
    from that have "0 \<le> b \<and> b < 256" by (auto simp: Sum256_def Let_def dest: be_bytes_range)
    then have "nat (b div 16) < 16" "nat (b mod 16) < 16" by auto
    then show ?thesis by (simp add: hex_digit_safe)
  qed
  then show ?thesis by (auto simp: sha256_hex_def EncodeToString_def list_all_iff)
qed

section \<open>References\<close>

text \<open>Characters a URL parser takes as they are, inside a path.\<close>

definition plain :: "char \<Rightarrow> bool" where
  "plain c \<longleftrightarrow> c \<noteq> CHR ''?'' \<and> c \<noteq> CHR ''#'' \<and> byte c \<noteq> 9 \<and> byte c \<noteq> 10 \<and> byte c \<noteq> 13"

lemma safe_plain: "safe_char c \<Longrightarrow> plain c \<and> c \<noteq> CHR ''/''"
  by (auto simp: safe_char_def plain_def byte_def is_digit_def)

lemma urlparse_s3:
  assumes "list_all safe_char b" and "list_all plain k"
  shows "urlparse (''s3://'' @ b @ ''/'' @ k) = (''s3'', b, ''/'' @ k)"
proof -
  have b: "\<forall>c \<in> set b. plain c \<and> c \<noteq> CHR ''/''" and k: "\<forall>c \<in> set k. plain c"
    using assms safe_plain by (auto simp: list_all_iff)
  have bytes: "byte (CHR ''s'') = 115" "byte (CHR ''3'') = 51" "byte (CHR '':'') = 58" "byte (CHR ''/'') = 47"
    by (simp_all add: byte_def)
  have "filter (\<lambda>c. \<not> List.member [9, 10, 13] (byte c)) b = b" "filter (\<lambda>c. \<not> List.member [9, 10, 13] (byte c)) k = k"
    using b k by (auto simp: filter_id_conv plain_def)
  then have u: "filter (\<lambda>c. \<not> List.member [9, 10, 13] (byte c)) (dropWhile (\<lambda>c. byte c \<le> 32) (''s3://'' @ b @ ''/'' @ k)) = ''s3://'' @ b @ ''/'' @ k"
    by (simp add: bytes)
  have net: "takeWhile (\<lambda>c. \<not> List.member ''/?#'' c) (b @ ''/'' @ k) = b"
    "dropWhile (\<lambda>c. \<not> List.member ''/?#'' c) (b @ ''/'' @ k) = ''/'' @ k"
    using b by (auto simp: plain_def takeWhile_append2 dropWhile_append2)
  have path: "takeWhile (\<lambda>c. \<not> List.member ''?#'' c) (''/'' @ k) = ''/'' @ k"
    using k by (auto simp: plain_def takeWhile_eq_all_conv)
  have sch: "alpha_char CHR ''s''" "scheme_char CHR ''s''" "scheme_char CHR ''3''" "map lower ''s3'' = ''s3''"
    by (code_simp)+
  show ?thesis
    using net path sch unfolding urlparse_def Let_def u
    by (simp add: HasPrefix_def)
qed

text \<open>The runner's parser and the apiserver's split a plain reference alike.\<close>

lemma download_target_s3:
  assumes "list_all safe_char b" and "list_all plain k" and "k \<noteq> []" and "hd k \<noteq> CHR ''/''"
  shows "download_target cfg (''s3://'' @ b @ ''/'' @ k) = S3Object (resolve_bucket cfg b) k"
  using assms(3,4) by (simp add: download_target_def urlparse_s3 [OF assms(1,2), simplified] dropWhile_eq_self_iff)

text \<open>A key with a query or fragment mark is accepted at submission, but another object is fetched.\<close>

lemma marked_key_is_truncated:
  "validateInputRef s ''s3://models/a?b'' ''model'' = None \<and>
   download_target cfg ''s3://models/a?b'' = S3Object (rcf_bucket_models cfg) ''a'' \<and>
   download_target cfg ''s3://models/a?b'' = download_target cfg ''s3://models/a#c''"
proof -
  have "urlparse ''s3://models/a?b'' = (''s3'', ''models'', ''/a'')" "urlparse ''s3://models/a#c'' = (''s3'', ''models'', ''/a'')"
    "parseS3URI ''s3://models/a?b'' = (''models'', ''a?b'')"
    by code_simp+
  then show ?thesis by (simp add: download_target_def resolve_bucket_def validateInputRef_def)
qed

lemma strip_slashes_dir:
  assumes "c \<noteq> []" and "hd c \<noteq> CHR ''/''" and "last c \<noteq> CHR ''/''"
  shows "strip_slashes (''/'' @ c @ ''/'') = c"
proof -
  have "dropWhile (\<lambda>x. x = CHR ''/'') (c @ ''/'') = c @ ''/''" using assms(1,2) by (cases c) auto
  moreover have "dropWhile (\<lambda>x. x = CHR ''/'') (rev c) = rev c"
    using assms(1,3) by (simp add: dropWhile_eq_self_iff hd_rev)
  ultimately show ?thesis by (simp add: strip_slashes_def)
qed

section \<open>Cached submissions\<close>

lemma perform_has_result: "has_result h d \<Longrightarrow> has_result h (perform x a d)"
proof (cases a)
  case (AInsert p fin)
  assume "has_result h d"
  then show ?thesis
    by (cases rule: insert_simulation_cases [where p = p and fin = fin and x = x and d = d])
       (simp_all add: AInsert has_result_def)
next
  case (ACreate u n key)
  assume "has_result h d"
  then show ?thesis
    by (cases rule: insert_batch_cases [where userID = u and n = n and key = key and x = x and d = d])
       (simp_all add: ACreate has_result_def)
next
  case (AClaim runner ver cap lease locked)
  assume "has_result h d"
  then show ?thesis by (auto simp: AClaim has_result_def claim_simulation_def split: list.splits)
qed (auto simp: upsert_has_result, auto simp: has_result_def renew_lease_def finish_simulation_def
      backfill_hashes_def resync_stuck_batches_def)

lemma others_has_result: "has_result h d \<Longrightarrow> has_result h (others e n d)"
proof -
  have "has_result h d \<Longrightarrow> has_result h (run ls d)" for ls d
    by (induction ls arbitrary: d) (auto simp: perform_has_result simp del: perform.simps)
  then show "has_result h d \<Longrightarrow> has_result h (others e n d)" by (simp add: others_def)
qed

lemma HasResult_true:
  assumes "HasResult e h w = (Inr True, w1)"
  shows "has_result h (others e (w_tick w1) (w_db w1))"
proof -
  from assms have "has_result h (w_db w1)"
    by (auto simp: HasResult_def db_call_def exists_result_def has_result_def Let_def split: fault.splits)
  then show ?thesis by (rule others_has_result)
qed

section \<open>Properties\<close>

text \<open>
  The apiserver inserts a simulation as succeeded only over a stored result: whatever the other
  participants do between its two statements, when the state it computed for a single submission or
  for a batch variant is sent to the database, the content hash sent with it has a result.
\<close>

lemma succeeded_only_when_cached:
  "(variant_state (pgStore e) spec v w = (Inr st, w1) \<longrightarrow>
      api_sends (AInsert (variant_params spec v st) fin) (others e (w_tick w1) (w_db w1))) \<and>
   (sim_state (apiServer e mio p cfg isPrint flt) req w = (Inr st, w1) \<longrightarrow>
      api_sends (AInsert (sim_params req uid st) fin) (others e (w_tick w1) (w_db w1)))"
  by (auto simp: variant_state_def sim_state_def variant_params_def sim_params_def
      dest!: HasResult_true split: if_splits prod.splits sum.splits)

text \<open>
  C3. In every history of the fleet over an unchanging object store, \<open>GET /v1/results/{simId}\<close> by the
  owner of a succeeded simulation answers 200 with the stored result of the simulation's content
  hash, when its two statements reach the database and no one writes before the first.
\<close>

theorem succeeded_result_is_served:
  assumes "list_all (honest cfgs cfg objects) evs" and "w_db w = ft_db (fleet_run cfgs evs fleet_start)"
    and "s \<in> set (simulations (w_db w))" and "s_state s = ''succeeded''"
    and "s_user_id s = userID r" and "e_uuid_in e (URLParam r ''simId'') = Some (s_id s)"
    and "e_fault e (w_tick w) = NoFault" and "e_fault e (Suc (w_tick w)) = NoFault" and "e_other e (w_tick w) = []"
  shows "\<exists>h row. s_content_hash s = Some h \<and> r_content_hash row = h \<and>
    row \<in> set (results (others e (Suc (w_tick w)) (w_db w))) \<and>
    fst (handleGetResult (apiServer e mio p acfg isPrint flt) r w) =
      writeJSON 200 (resultPayload (apiServer e mio p acfg isPrint flt) (scanResult row))"
proof -
  let ?s = "apiServer e mio p acfg isPrint flt" and ?w = "w\<lparr> w_tick := Suc (w_tick w) \<rparr>"
  have inv: "fleet_inv (true_hash cfg objects) (fleet_run cfgs evs fleet_start)"
    using fleet_system.ginv_run_init [OF assms(1)] by (simp add: fleet_run_def)
  then obtain h where h: "s_content_hash s = Some h" "has_result h (w_db w)"
    using assms(2-4) by (auto simp: fleet_inv_def row_good_def)
  have "distinct (map s_id (simulations (w_db w)))"
    using inv assms(2) reachable_inv by (auto simp: fleet_inv_def db_inv_def keys_ok_def)
  from query_row_key [OF this assms(3)] have get: "GetSimulation e (URLParam r ''simId'') w = (Inr (scanSimulation s), ?w)"
    using assms(6,7,9) by (simp add: GetSimulation_def db_call_def Let_def others_def select_simulation_def)
  from others_has_result [OF h(2)] obtain row where
    row: "query_row (\<lambda>r. r_content_hash r = h) (results (others e (Suc (w_tick w)) (w_db w))) = Some row"
    by (auto simp: has_result_def)
  then have res: "fst (GetResult e h ?w) = Inr (scanResult row)"
    using assms(8) by (simp add: GetResult_def db_call_def Let_def select_result_def)
  have "fst (handleGetResult ?s r w) = writeJSON 200 (resultPayload ?s (scanResult row))"
    using get res assms(5) h(1)
    by (cases "GetResult e h ?w") (simp add: handleGetResult_def with_own_sim_def with_result_def scanSimulation_def)
  with h(1) query_row_Some [OF row] show ?thesis by blast
qed

text \<open>
  C27. A reference the apiserver accepts is fetched from the configured bucket of its kind under
  exactly its key, whether it names the bucket by its logical or by its configured name: when runner
  and apiserver are configured with the same buckets, bucket names are letters, digits, dots, dashes
  and underscores and not logical names of another kind, and the key is free of query and fragment
  marks and line breaks and does not start with a slash.
\<close>

theorem accepted_ref_is_fetched:
  assumes "validateInputRef s ref kind = None" and "parseS3URI ref = (b, k)"
    and "rcf_bucket_models cfg = BucketModels (sv_cfg s)" and "rcf_bucket_weather cfg = BucketWeather (sv_cfg s)"
    and "list_all safe_char (BucketModels (sv_cfg s))" and "list_all safe_char (BucketWeather (sv_cfg s))"
    and "BucketModels (sv_cfg s) \<notin> {''weather'', ''results''}" and "BucketWeather (sv_cfg s) \<notin> {''models'', ''results''}"
    and "list_all plain k" and "\<not> HasPrefix k ''/''"
  shows "download_target cfg ref =
    S3Object (if kind = ''model'' then BucketModels (sv_cfg s) else BucketWeather (sv_cfg s)) k"
proof -
  have bk: "b \<noteq> []" "k \<noteq> []"
    and kind: "kind = ''model'' \<and> (b = ''models'' \<or> b = BucketModels (sv_cfg s)) \<or>
               kind = ''weather'' \<and> (b = ''weather'' \<or> b = BucketWeather (sv_cfg s))"
    using assms(1,2) by (auto simp: validateInputRef_def split: if_splits)
  have ref: "ref = ''s3://'' @ b @ ''/'' @ k" using parseS3URI_iff [of ref b k] assms(2) bk by blast
  have "list_all safe_char ''models''" "list_all safe_char ''weather''" by code_simp+
  with kind assms(5,6) have b: "list_all safe_char b" by auto
  have "hd k \<noteq> CHR ''/''" using bk(2) assms(10) by (cases k) (auto simp: HasPrefix_def)
  from download_target_s3 [OF b assms(9) bk(2) this] show ?thesis
    using kind assms(3,4,7,8) unfolding ref by (auto simp: resolve_bucket_def)
qed

text \<open>
  C28. Artifacts are listed where the runner put them: for a result recorded after a successful upload,
  the bucket and prefix the apiserver searches are those under which \<open>upload_dir\<close> stored the files,
  and the name it gives each of them is the file's path relative to the output directory.
\<close>

theorem artifacts_are_listed_where_uploaded:
  assumes "run_and_record cfg h x sim m w c d = (Recorded sim c v, d')" and "h_uploaded h"
    and "c = content_hash ms ws ver" and "query_row (\<lambda>r. r_content_hash r = c) (results d') = Some row"
    and "list_all safe_char (rcf_bucket_results cfg)" and "rcf_bucket_results cfg \<noteq> []"
    and "rcf_bucket_results cfg \<notin> {''models'', ''weather''}"
  shows "\<exists>uri. r_artifact_uri row = Some uri \<and>
    resultPrefix (scanResult row) c dflt = (rcf_bucket_results cfg, c @ ''/'') \<and>
    upload_targets cfg uri rels = Some (map (\<lambda>rel. S3Object (rcf_bucket_results cfg) ((c @ ''/'') @ rel)) rels) \<and>
    (\<forall>rel \<in> set rels. rel \<noteq> [] \<longrightarrow> \<not> HasPrefix rel ''/'' \<longrightarrow> artifact_name (c @ ''/'') ((c @ ''/'') @ rel) = rel)"
proof -
  let ?b = "rcf_bucket_results cfg" and ?uri = "''s3://'' @ rcf_bucket_results cfg @ ''/'' @ c @ ''/''"
  have c: "list_all safe_char c" "c \<noteq> []"
    using sha256_hex_safe length_sha256_hex [of "ms @ '':'' @ ws @ '':'' @ ver"] assms(3) by (auto simp: content_hash_def)
  have "plain (CHR ''/'')" by code_simp
  with c(1) safe_plain have k: "list_all plain (c @ ''/'')" by (simp add: list_all_iff)
  have uri: "r_artifact_uri row = Some ?uri"
    using assms(1,2,4)
    by (cases "h_engine h m w"; cases "h_fault h") (auto simp: run_and_record_def attempt_def Let_def query_row_upsert)
  have "CHR ''/'' \<notin> set ?b" using safe_no_slash [OF assms(5)] .
  then have "parseS3URI ?uri = (?b, c @ ''/'')" using parseS3URI_iff [of ?uri ?b "c @ ''/''"] assms(6) by simp
  then have rp: "resultPrefix (scanResult row) c dflt = (?b, c @ ''/'')"
    using uri assms(6) by (simp add: resultPrefix_def scanResult_def HasPrefix_def HasSuffix_iff)
  have "strip_slashes (''/'' @ c @ ''/'') = c"
    using c safe_plain by (intro strip_slashes_dir) (auto simp: list_all_iff)
  then have "upload_targets cfg ?uri rels = Some (map (\<lambda>rel. S3Object ?b ((c @ ''/'') @ rel)) rels)"
    using urlparse_s3 [OF assms(5) k] assms(7) c(2) by (simp add: upload_targets_def resolve_bucket_def Let_def)
  with uri rp artifact_name_under [of _ "c @ ''/''"] show ?thesis by auto
qed


end
