(* ===== verification/FleetScenario.thy ===== *)
theory FleetScenario
  imports FleetApi Scenario
begin

text \<open>
  A concrete fleet for the witnesses of the properties about runners: two runners over a store with
  a model and a weather file, one simulation that succeeds after a lost heartbeat, and one whose run
  ends in a severe error.
\<close>

definition demo_rc :: "string \<Rightarrow> RunnerConfig" where
  "demo_rc i =
     \<lparr> rcf_runner_id = i, rcf_engine_version = ''24.1.0'', rcf_per_user_cap = 2, rcf_lease_seconds = 90,
       rcf_fetch_attempts = 3, rcf_bucket_models = ''models'', rcf_bucket_weather = ''weather'',
       rcf_bucket_results = ''results'', rcf_artifact_ttl_days = Some 30 \<rparr>"

definition demo_objects :: "target \<Rightarrow> string option" where
  "demo_objects tg =
     (if tg = S3Object ''models'' ''a.idf'' then Some ''Building'' else if tg = S3Object ''weather'' ''w.epw'' then Some ''LOCATION'' else None)"

definition demo_engine :: "string list option \<Rightarrow> engine_run" where
  "demo_engine err = \<lparr> er_returncode = 0, er_sql = None, er_err = err, er_seconds = ''1.5'' \<rparr>"

text \<open>Downloads fail once; EnergyPlus leaves the given error file.\<close>

definition demo_host :: "string list option \<Rightarrow> host" where
  "demo_host err =
     \<lparr> h_download = (\<lambda>n tg. if n = 0 then None else demo_objects tg), h_engine = (\<lambda>m w. Some (demo_engine err)), h_float = JNum,
       h_uploaded = True, h_connect = True, h_fault = NoFault, h_exc = [] \<rparr>"

definition warn_err :: "string list option" where
  "warn_err = Some [''Program Version,EnergyPlus'', ''   ** Warning ** Version mismatch'']"

definition severe_err :: "string list option" where
  "severe_err = Some [''   ** Severe  ** GetSurfaceData: Errors discovered'']"

definition run_params :: InsertSimulationParams where
  "run_params =
     \<lparr> p_BatchID = None, p_UserID = ''u1'', p_EngineVersion = ''24.1.0'', p_Priority = 1,
       p_ModelRef = ''s3://models/a.idf'', p_WeatherRef = ''s3://weather/w.epw'', p_ModelSHA256 = None,
       p_WeatherSHA256 = None, p_ExtractionSpec = None, p_ContentHash = ''placeholder'', p_State = ''queued'' \<rparr>"

lemma fleet_run_Nil: "fleet_run cfgs [] q = q"
  and fleet_run_Cons: "fleet_run cfgs (e # evs) q = fleet_run cfgs evs (fleet_step cfgs e q)"
  by (simp_all add: fleet_run_def)

definition claim_evs :: "fleet_event list" where
  "claim_evs =
     [Api (at 1 ''u1'') (ANewUser ''a@x''), Api (at 2 ''s1'') (AInsert run_params None),
      RunnerStep ''r1'' (demo_host warn_err) (at 3 ''x'') []]"

definition claimed_db :: db where
  "claimed_db = ft_db (fleet_run demo_rc claim_evs fleet_start)"

definition claimed_sim :: simulations_row where
  "claimed_sim = simulations claimed_db ! 0"

definition run_of :: "string list option \<Rightarrow> runner_phase \<times> db" where
  "run_of err = process_simulation (demo_rc ''r1'') (\<lambda>n. demo_host err) (\<lambda>n. at (10 + int n) ''x'') 0 (Claimed claimed_sim) claimed_db"

lemma claimed_facts:
  "simulations claimed_db = [claimed_sim]" "s_id claimed_sim = ''s1''" "s_model_ref claimed_sim = ''s3://models/a.idf''"
  "s_weather_ref claimed_sim = ''s3://weather/w.epw''" "s_engine_version claimed_sim = ''24.1.0''"
  "s_attempts claimed_sim = 1" "s_user_id claimed_sim = ''u1''" "owned_by ''s1'' ''r1'' claimed_sim" "s_lease_expires_at claimed_sim = Some 90000003"
  "ft_phase (fleet_run demo_rc claim_evs fleet_start) ''r1'' = Claimed claimed_sim"
  by code_simp+

lemma demo_fetch:
  "fetch_input (demo_rc ''r1'') (demo_host err) (s_model_ref claimed_sim) = Some ''Building''"
  "fetch_input (demo_rc ''r1'') (demo_host err) (s_weather_ref claimed_sim) = Some ''LOCATION''"
  unfolding claimed_facts demo_host_def by code_simp+

lemma demo_rc_simps [simp]:
  "rcf_runner_id (demo_rc i) = i" "rcf_lease_seconds (demo_rc i) = 90" "rcf_bucket_models (demo_rc i) = ''models''"
  "rcf_bucket_weather (demo_rc i) = ''weather''" "rcf_bucket_results (demo_rc i) = ''results''"
  "rcf_artifact_ttl_days (demo_rc i) = Some 30"
  by (simp_all add: demo_rc_def)

lemma demo_host_simps [simp]:
  "h_fault (demo_host err) = NoFault" "h_engine (demo_host err) m w = Some (demo_engine err)" "er_err (demo_engine err) = err" "h_float (demo_host err) = JNum" "h_uploaded (demo_host err)"
  by (simp_all add: demo_host_def demo_engine_def)

lemma at_simps [simp]: "x_now (at t u) = t"
  by (simp add: at_def)

text \<open>The row and the database at the end of a run with the given error file.\<close>

definition end_hash :: string where
  "end_hash = content_hash (sha256_hex ''Building'') (sha256_hex ''LOCATION'') ''24.1.0''"

definition end_db :: "string list option \<Rightarrow> db" where
  "end_db err =
     snd (finish_simulation ''s1'' ''r1'' (succeeded (classify err))
       (if succeeded (classify err) then None else Some (''verdict='' @ vd_verdict (classify err))) 12
       (upsert_result end_hash (vd_verdict (classify err)) (JObj (run_engine JNum (demo_engine err))) (Some (''s3://results/'' @ end_hash @ ''/'')) (Some 30) 11
         (backfill_hashes ''s1'' (sha256_hex ''Building'') (sha256_hex ''LOCATION'') end_hash claimed_db)))"

lemma run_of_end: "run_of err = (Polling, end_db err)"
  unfolding run_of_def end_db_def
  using process_simulation_run [where hs = "\<lambda>n. demo_host err" and xs = "\<lambda>n. at (10 + int n) ''x''" and d = claimed_db,
      OF _ demo_fetch _ refl refl refl refl refl]
  by (simp add: claimed_facts end_hash_def)

lemma end_db_sims:
  "map (\<lambda>s. (s_id s, s_state s, s_attempts s, s_user_id s)) (simulations (end_db err)) =
     [(''s1'', if succeeded (classify err) then ''succeeded'' else ''failed'', 1, ''u1'')]"
  "users (end_db err) = users claimed_db"
  using claimed_facts(8)
  by (simp_all add: end_db_def finish_simulation_def backfill_hashes_def claimed_facts upd_where_def owned_by_def
      backfill_row_def finish_row_def upsert_result_def Let_def)

definition work_evs :: "fleet_event list" where
  "work_evs =
     [RunnerStep ''r1'' (demo_host warn_err) (at 10 ''x'') [], RunnerStep ''r1'' (demo_host warn_err) (at 11 ''x'') [],
      RunnerStep ''r1'' (demo_host warn_err) (at 12 ''x'') []]"

lemma demo_honest: "list_all (honest demo_rc (demo_rc ''r1'') demo_objects) (claim_evs @ work_evs)"
  by (simp add: claim_evs_def work_evs_def buckets_def demo_rc_def demo_host_def)

lemma fleet_end: "ft_db (fleet_run demo_rc (claim_evs @ work_evs) fleet_start) = end_db warn_err"
proof -
  let ?q = "fleet_run demo_rc claim_evs fleet_start"
  have "ft_db (fleet_run demo_rc work_evs ?q) = end_db warn_err"
    by (simp add: fleet_run_Cons fleet_run_Nil work_evs_def claimed_facts claimed_db_def [symmetric] fetch_and_hash_def
        demo_fetch [unfolded claimed_facts] run_and_record_def finalise_def attempt_def Let_def end_db_def end_hash_def)
  then show ?thesis by (simp add: fleet_run_def)
qed

lemma warn_succeeds: "succeeded (classify warn_err)" and severe_fails: "\<not> succeeded (classify severe_err)"
  by code_simp+

section \<open>Witnesses\<close>

theorem succeeded_has_result_witness:
  "\<exists>s \<in> set (simulations (end_db warn_err)). s_state s = ''succeeded'' \<and>
     (\<exists>h. s_content_hash s = Some h \<and> has_result h (end_db warn_err) \<and>
          true_hash (demo_rc ''r1'') demo_objects (job_of s) = Some h)"
proof -
  obtain s where s: "simulations (end_db warn_err) = [s]" "s_state s = ''succeeded''" "s_attempts s = 1"
    using end_db_sims(1) [of warn_err] warn_succeeds by auto
  with succeeded_has_result [OF demo_honest] show ?thesis unfolding fleet_end by auto
qed

theorem process_simulation_result_witness:
  "\<exists>d'. run_of warn_err = (Polling, d') \<and> map s_state (simulations d') = [''succeeded''] \<and>
     map_option r_verdict (query_row (\<lambda>r. r_content_hash r = content_hash (sha256_hex ''Building'') (sha256_hex ''LOCATION'') ''24.1.0'')
       (results d')) = Some ''warnings''"
proof -
  obtain ph d' where r: "run_of warn_err = (ph, d')" by fastforce
  have "classify warn_err = \<lparr> vd_verdict = ''warnings'', vd_warnings = 1, vd_severe = 0, vd_fatal = 0 \<rparr>" by code_simp
  with process_simulation_result [where hs = "\<lambda>n. demo_host warn_err" and d = claimed_db, OF _ demo_fetch _ _ _ _ refl refl r [unfolded run_of_def]]
    claimed_facts r
  show ?thesis by (auto simp: succeeded_def)
qed

section \<open>A lease\<close>

definition lost_host :: host where
  "lost_host = (demo_host None)\<lparr> h_download := (\<lambda>n tg. None) \<rparr>"

definition lease_evs :: "fleet_event list" where
  "lease_evs =
     [Beat ''r1'' NoFault (at 4 ''x''), Beat ''r1'' Lost (at 30000000 ''x''), Api (at 60000000 ''x'') AReap,
      RunnerStep ''r2'' (demo_host None) (at 61000000 ''x'') [], RunnerStep ''r1'' lost_host (at 70000000 ''x'') [],
      Beat ''r1'' NoFault (at 80000000 ''x''), Api (at 150000000 ''x'') AReap]"

theorem renewed_lease_is_kept_witness:
  "fst (finish_simulation ''s1'' ''r1'' False None 160000000 (ft_db (fleet_run demo_rc lease_evs (fleet_run demo_rc claim_evs fleet_start)))) = 1"
proof -
  let ?q = "fleet_run demo_rc claim_evs fleet_start"
  have q: "reachable (ft_db ?q)"
    using fleet_system.ginv_run_init [where cfgs = demo_rc and cfg = "demo_rc ''r1''" and objects = demo_objects and ls = claim_evs] demo_honest
    by (simp add: fleet_run_def fleet_inv_def)
  have h: "holds demo_rc ''r1'' (s_id claimed_sim) 90000003 (ft_db ?q)"
    using claimed_facts unfolding claimed_db_def by (auto simp: holds_def owned_by_def)
  have t: "in_time demo_rc ''r1'' 90000003 lease_evs" by code_simp
  have "list_all (\<lambda>k. working_on (ft_phase (fleet_run demo_rc (take k lease_evs) ?q) ''r1'') = Some claimed_sim) [0..<8]"
    by code_simp
  then have w: "\<forall>k \<le> length lease_evs. working_on (ft_phase (fleet_run demo_rc (take k lease_evs) ?q) ''r1'') = Some claimed_sim"
    by (simp add: list_all_iff lease_evs_def)
  from renewed_lease_is_kept [OF q h t w] show ?thesis by (simp add: claimed_facts)
qed

section \<open>The apiserver beside the fleet\<close>

theorem succeeded_result_is_served_witness:
  "rs_Status (fst (handleGetResult demo_server (demo_request ''u1'' [(''simId'', ''s1'')] []) (world_of (end_db warn_err)))) = 200"
proof -
  obtain s where s: "simulations (end_db warn_err) = [s]" "s_id s = ''s1''" "s_state s = ''succeeded''" "s_user_id s = ''u1''"
    using end_db_sims(1) [of warn_err] warn_succeeds by auto
  have "e_other calm (w_tick (world_of (end_db warn_err))) = []" by (simp add: demo_env_def)
  with succeeded_result_is_served [OF demo_honest, where w = "world_of (end_db warn_err)" and s = s and e = calm and mio = demo_minio
      and p = "Some demo_presigner" and acfg = demo_cfg and isPrint = "\<lambda>t. False" and flt = Some
      and r = "demo_request ''u1'' [(''simId'', ''s1'')] []"] s
  show ?thesis
    by (auto simp: fleet_end demo_server_def URLParam_def lookup_or_empty_def writeJSON_def)
qed

theorem accepted_ref_is_fetched_witness:
  "validateInputRef demo_server ''s3://models/a.idf'' ''model'' = None \<and>
   download_target (demo_rc ''r1'') ''s3://models/a.idf'' = S3Object ''models'' ''a.idf''"
proof -
  have v: "validateInputRef demo_server ''s3://models/a.idf'' ''model'' = None"
    "parseS3URI ''s3://models/a.idf'' = (''models'', ''a.idf'')" by code_simp+
  have "list_all safe_char ''models''" "list_all safe_char ''weather''" "list_all plain ''a.idf''" "\<not> HasPrefix ''a.idf'' ''/''"
    by code_simp+
  moreover have "BucketModels (sv_cfg demo_server) = ''models''" "BucketWeather (sv_cfg demo_server) = ''weather''"
    by (simp_all add: demo_server_def demo_cfg_eq)
  ultimately show ?thesis
    using accepted_ref_is_fetched [OF v, of "demo_rc ''r1''"] v by simp
qed

theorem artifacts_are_listed_where_uploaded_witness:
  "\<exists>row uri c. r_artifact_uri row = Some uri \<and> resultPrefix (scanResult row) c ''other'' = (''results'', c @ ''/'') \<and>
     upload_targets (demo_rc ''r1'') uri [''eplusout.err''] = Some [S3Object ''results'' ((c @ ''/'') @ ''eplusout.err'')] \<and>
     artifact_name (c @ ''/'') ((c @ ''/'') @ ''eplusout.err'') = ''eplusout.err''"
proof -
  define c where c: "c = content_hash ''m'' ''w'' ''24.1.0''"
  obtain v d' where run: "run_and_record (demo_rc ''r1'') (demo_host warn_err) (at 10 ''x'') claimed_sim [] [] c empty_db = (Recorded claimed_sim c v, d')"
    and d': "d' = upsert_result c (vd_verdict (classify warn_err)) (JObj (run_engine JNum (demo_engine warn_err))) (Some (''s3://results/'' @ c @ ''/'')) (Some 30) 10 empty_db"
    by (simp add: run_and_record_def attempt_def Let_def)
  obtain row where row: "query_row (\<lambda>r. r_content_hash r = c) (results d') = Some row" unfolding d' query_row_upsert by blast
  have "list_all safe_char ''results''" "\<not> HasPrefix ''eplusout.err'' ''/''"
    by code_simp+
  with artifacts_are_listed_where_uploaded [OF run _ c row, of "''other''" "[''eplusout.err'']"] show ?thesis
    by auto
qed

definition again_req :: createSimulationRequest where
  "again_req =
     \<lparr> cs_EngineVersion = ''24.1.0'',
       cs_Model = \<lparr> ar_Ref = ''s3://models/a.idf'', ar_SHA256 = ''87c5912f2cefdf9d7d1913611187fa8ab653a89a8d4b65f574812f899834e8b1'' \<rparr>,
       cs_Weather = \<lparr> ar_Ref = ''s3://weather/w.epw'', ar_SHA256 = ''ec4ecc14f8b5a115c21370091bb6cea51fa87a8cc1fcc19369a03758d7ef3c1c'' \<rparr>,
       cs_Priority = None, cs_ExtractionSpec = None \<rparr>"

definition again_request :: request where
  "again_request = (demo_request ''u1'' [] [])\<lparr> rq_Body := json_Encode (encode_sim again_req) @ [] \<rparr>"

lemma again_decodes: "Decode decode_sim again_request = Some again_req"
proof -
  have ok: "sim_ok again_req" by code_simp
  show ?thesis
    unfolding again_request_def using ok
    by (subst Decode_wire) (simp_all add: wire_ok_requests decode_encode_sim sim_ok_def)
qed


section \<open>Metrics\<close>

definition report_rows :: "sql_row list" where
  "report_rows =
     [(None, Some ''Site and Source Energy'', Some ''Total Site Energy'', Some ''Total Energy [GJ]'', ''1''),
      (None, Some ''Site and Source Energy'', Some '' Total Site Energy '', Some ''Total Energy'', ''120.5'')]"


end
