(* ===== verification/Spec2Isabelle.thy ===== *)
theory Spec2Isabelle
  imports Scenario OverlapScenario ClusterScenario FleetScenario
begin

text \<open>
  SynergyPlus: a verification of the control plane and of the runners.

  \<^bold>\<open>The program.\<close> SynergyPlus runs EnergyPlus simulations for many users. The Go code has two
  binaries. The apiserver (\<open>src/cmd/apiserver\<close>) accepts simulations and batches over HTTP
  (\<open>src/internal/api\<close>), writes them to Postgres (\<open>src/internal/store\<close>), expands batches into rows
  and sweeps expired leases (\<open>src/internal/queue\<close>), and mints presigned object-store links
  (\<open>src/internal/storage\<close>). The operator (\<open>src/cmd/operator\<close>, \<open>src/internal/controller\<close>,
  \<open>src/api/v1\<close>) turns each \<open>RunnerPool\<close> resource into a Deployment of runners and a KEDA
  ScaledObject whose trigger counts claimable rows. The runners (\<open>src/runner/synergy_runner\<close>, Python)
  claim simulations, fetch their inputs, run EnergyPlus and write results. Queue, leases and batch accounting live in
  Postgres: a trigger and four SQL functions (\<open>src/db/migrations\<close>) which the Go code, the runners and
  the autoscaler all call. The parts meet only in the database and in the Kubernetes API, and nothing
  keeps their statements from interleaving.

  \<^bold>\<open>The theories.\<close>
  \<^item> \<open>Prelude\<close>: error values, results \<open>error + 'a\<close>, the row-set operations SQL statements are
    written with, and the locales \<open>labelled_invariant\<close> and \<open>guarded_invariant\<close> (what holds at the
    start and is kept by every step holds after every sequence of steps) and \<open>refinement\<close>, which
    extends the first with an abstraction every step of which an abstract step relation allows.
  \<^item> \<open>GoStrings\<close>, \<open>GoJson\<close>, \<open>GoJsonText\<close>, \<open>GoUrl\<close>, \<open>GoSha256\<close>: what the sources use of Go's library:
    \<open>strings\<close>, \<open>strconv\<close>, \<open>path.Base\<close>, the decoding rules of \<open>encoding/json\<close> and its texts (a
    push-down reader with the nesting limit, and the writer with its escapes), \<open>url.Parse\<close>, and an
    executable SHA-256 on 32-bit words, which \<open>Vectors\<close> runs on the hash vectors of the contract tests.
  \<^item> \<open>Config\<close>: \<open>internal/api/config.go\<close>. The environment is a map; durations are 64-bit and wrap.
  \<^item> \<open>Schema\<close>: the tables as lists of records in a record \<open>db\<close>; the rollup trigger of migration 0004
    and the claim, renew, finish and reap functions of migration 0007.
  \<^item> \<open>Lifecycle\<close>: the life of one row as the inductive relation \<open>sim_step\<close>; every statement makes
    each existing row take at most one step of it.
  \<^item> \<open>Store\<close>: the SQL text of each method of \<open>internal/store/store.go\<close> as a function of the
    statement's context and the database.
  \<^item> \<open>System\<close>: all participants (runners, other requests, reaper, portal) as \<open>action\<close>s, the
    reachable databases, the invariant \<open>db_inv\<close>, and its interpretations of the prelude's locales.
  \<^item> \<open>Overlap\<close>: the same statements taken apart into the steps Postgres makes of them at isolation
    level \<open>READ COMMITTED\<close> (row versions, row locks, the trigger's read and its later write, the
    advisory lock of the claim, commit and rollback), so that transactions can overlap.
    \<open>OverlapSafety\<close>, \<open>OverlapCore\<close> and \<open>OverlapCap\<close> hold the invariants of every interleaving,
    \<open>OverlapExact\<close> the condition under which the counts stay exact, \<open>OverlapScenario\<close> a race of two
    runners.
  \<^item> \<open>JobBoard\<close>: the abstract specification of the queue, a board of orders and jobs with submit,
    claim, renew, finish and expire steps; the database refines it, and a potential on the rows
    bounds how much can still happen.
  \<^item> \<open>Connection\<close>: the methods of \<open>Store\<close> over a connection. A \<open>world\<close> counts statements; an
    \<open>env\<close> says which actions others committed before statement \<open>n\<close>, what time and uuid it draws, and
    whether it succeeds, is lost, or takes effect with its reply lost. The locale \<open>data_store\<close> is the
    contract of the Go interface \<open>dataStore\<close>; \<open>pgStore\<close> is shown to satisfy it.
  \<^item> \<open>Queue\<close>: \<open>internal/queue/queue.go\<close> and \<open>reaper.go\<close>; the locale \<open>expansion\<close> extends
    \<open>data_store\<close> with the expander's background goroutines.
  \<^item> \<open>Server\<close>, \<open>Handlers\<close>: \<open>internal/api/server.go\<close>, \<open>auth.go\<close>, \<open>handlers.go\<close>, \<open>uploads.go\<close>, every
    handler with every early return. \<open>Api\<close> and \<open>ApiInputs\<close> hold what they promise; the locale
    \<open>http_server\<close> states it for any store and is interpreted on \<open>pgStore\<close>. \<open>ApiTypes\<close> is the
    shape of every response, \<open>ApiWire\<close> the request types on the wire.
  \<^item> \<open>Storage\<close>: \<open>internal/storage/presign.go\<close> and the adapter to the API.
  \<^item> \<open>RunnerPool\<close>: the resource types and the reconciler with its retry loop.
  \<^item> \<open>DeepCopy\<close>: the generated copies of the API types over an explicit heap; the locale \<open>deep_copy\<close>
    says what a deep copy is, \<open>slice_copy\<close> lifts it to slices.
  \<^item> \<open>Boot\<close>: the apiserver's start-up, \<open>store.New\<close> and \<open>Migrate\<close>, and what the operator reads from
    its environment.
  \<^item> \<open>Operator\<close>: type registration, flags, manager set-up and start of the operator, and a whole
    \<open>Reconcile\<close> on a cluster without other writers.
  \<^item> \<open>Apiserver\<close>: the running server as a sequence of requests, reaper ticks and expansions, inside a
    process that is stopped, drained, crashes and is started again.
  \<^item> \<open>Engine\<close>: \<open>engine.py\<close>, \<open>metrics.py\<close> and \<open>parse_err.py\<close> of the runner: core metrics from the report
    rows, the verdict from the error file.
  \<^item> \<open>Runner\<close>: \<open>loop.py\<close>, \<open>storage.py\<close>, \<open>heartbeat.py\<close>. A runner is a \<open>runner_phase\<close>, where it stands
    before its next database statement; \<open>runner_step\<close> does the local work and the statement, with every
    exception path; a \<open>host\<close> record says what downloads, EnergyPlus and the connection do in that step.
  \<^item> \<open>Fleet\<close>: any number of runners with their heartbeats, the apiserver, the reaper and the portal on
    one database, as a list of events; \<open>Lease\<close>: who keeps a simulation. \<open>FleetApi\<close>: runners and HTTP
    handlers together.
  \<^item> \<open>Scenario\<close>, \<open>ClusterScenario\<close> and \<open>FleetScenario\<close>: a concrete history of the database, a small
    cluster and a small fleet, on which the theorems with hypotheses are applied.

  \<^bold>\<open>What is shown.\<close>
  \<^item> Consistency. Every reachable database has exact batch counts and states, batch rows owned by the
    batch's user, unique idempotency keys, and leases exactly on running rows; every request, tick and
    expansion keeps this under arbitrary interleaving of statements and lost statements, across shutdowns, crashes
    and restarts (\<open>System\<close>, \<open>Api\<close>, \<open>Apiserver\<close>).
  \<^item> Overlap. In every other theory a statement and the triggers it fires are one step; taken alone, the
    transactions of \<open>Overlap\<close> are exactly these steps. Overlapping, they keep everything but the
    exactness of the batch counts: keys, references, row states, the lifecycle of every row and the
    cap hold, counts are never too high and \<open>done\<close> is never premature, but the rollup of one of two
    overlapping transactions of the same batch can be lost; once the batch's simulations have
    finished, the reaper's sweep restores the exact row. Transactions of different batches never
    disturb each other's counts (\<open>OverlapCore\<close>, \<open>OverlapCap\<close>, \<open>OverlapExact\<close>, \<open>OverlapScenario\<close>).
  \<^item> Refinement and termination. Every history of the database is a history of the job board, batch
    rows report exactly their orders, and without new submissions the queue drains (\<open>JobBoard\<close>).
  \<^item> Scheduling. No user exceeds the running cap, a row is claimed at most as often as it has attempts,
    finished rows never change (\<open>OverlapCap\<close>, \<open>OverlapCore\<close>), a reaped runner is fenced off, a claim takes
    the best row, and the autoscaler counts what a claim can take (\<open>Lifecycle\<close>).
  \<^item> Runners. Over an object store that does not change, every succeeded simulation has the result of its
    inputs in every history of the fleet (\<open>Fleet\<close>), and its owner is served it (\<open>FleetApi\<close>). A runner that renews
    in time keeps its simulation (\<open>Lease\<close>). What one run writes (\<open>Runner\<close>) and measures (\<open>Engine\<close>). Accepted
    references lead the runner to the objects the apiserver meant, and artifacts are listed where they
    were uploaded; a failed run, however, is cached like a successful one (\<open>FleetApi\<close>).
  \<^item> Access. No handler under \<open>/v1\<close> runs without a live key; other users' rows look like missing ones;
    listings contain only the caller's rows (\<open>Api\<close>). Every response is well typed (\<open>ApiTypes\<close>).
  \<^item> Submission. Idempotent batch creation, exactly which inputs are accepted, what is written, and
    that expansion inserts every variant and completes the batch (\<open>ApiInputs\<close>, \<open>Queue\<close>); that requests
    survive encoding and decoding (\<open>ApiWire\<close>); also what a failed expansion, or one lost with the
    process, leaves behind (\<open>Queue\<close>, \<open>Apiserver\<close>).
  \<^item> Operator. Reconciling keeps the autoscaler's replica count, retries lost write races, and hands
    the same cap and version to the runners and to the trigger (\<open>RunnerPool\<close>, \<open>Boot\<close>); one
    \<open>Reconcile\<close> converges and a second changes nothing; the manager starts only when everything is
    in place (\<open>Operator\<close>). Copied API objects share no storage with their originals (\<open>DeepCopy\<close>).
  \<^item> Start-up, configuration, links and listings (\<open>Boot\<close>, \<open>Config\<close>, \<open>Storage\<close>, \<open>ApiInputs\<close>).

  \<^bold>\<open>Bounds.\<close> All functions are total and no definition uses fuel; the loop over
  the steps of one simulation ends because each step leaves fewer (\<open>steps_left\<close>). The conflict
  retry of the reconciler is client-go's \<open>RetryOnConflict\<close>, a parameter; where its behaviour matters
  it is assumed to make the five attempts \<open>retry.DefaultRetry\<close> documents. Integers that are \<open>int\<close> in Go and can overflow are wrapped at 64 bits, SQL \<open>int4\<close> columns are
  checked for range.

  \<^bold>\<open>Parameters.\<close> Code outside the repository is an argument of the definitions that use it: route
  matching of chi, the minio client, the connection to Postgres (through \<open>env\<close>), the Kubernetes
  client, controller-runtime, the copies of the metadata types and the parser of quantities, the
  text of floating-point numbers and \<open>unicode.IsPrint\<close>. Request bodies are bytes. For the runner: the
  bytes of objects and files, EnergyPlus, SQLite and \<open>float()\<close>, through \<open>host\<close>.

  \<^bold>\<open>Not modelled.\<close> The syntax of the \<open>flag\<close> package and the logger's own flags; panic
  recovery; log lines; the exact texts of wrapped errors where no caller reads them. A request or goroutine cut off by the end of the process
  is one whose remaining statements are lost. In \<open>Overlap\<close> a statement that has waited for a row lock starts
  over with what it then sees, deadlocks appear only as rollbacks, and statements that touch no
  simulation stay single steps. Migrations run on every start; the moment between
  scripts 0003 and 0004, in which the older trigger is in force, is described in \<open>Store\<close> and is not
  part of the process model. A statement that Postgres rejects for a reason the
  model does not spell out (a NUL byte in a text, say) behaves as a lost one. Of the runner, the reading of its
  environment, the start of the process, the files on its disk and the retention of artifacts are left
  out, the wait between two polls or heartbeats is only the order of events, a crash is a restart that forgets
  the phase, and text is ASCII where it is split, matched or lowered. The portal, the SDK and the
  charts are other programs; of them only the statements the portal sends to the database appear, as actions.
\<close>

end
